(* ===== verification/Op_Prelude.thy ===== *)
theory Op_Prelude
  imports Main "HOL-Library.Word"
begin

text \<open>
  What every component of the operator model shares: the types that stand for Go's basic
  types, the collections of simplification rules the component proofs use, and generic
  lemmas on lists, options, maps and 32-bit integers.

  \<^item> \<open>int32\<close> is Go's \<open>int32\<close>, kept at its width; \<open>sint\<close> reads it. Go's \<open>int\<close> (64 bits
    on the platforms the operator is built for) is \<open>int\<close>; where a sum or a product of
    such values occurs, a lemma bounds it far below \<open>2 ^ 63\<close>.
  \<^item> \<open>strmap\<close> is Go's \<open>map[string]string\<close>. A Go map variable may be nil: it is an
    \<open>option\<close>. Reading a missing key yields the empty string (\<open>go_lookup\<close>).
  \<^item> \<open>addr\<close> is the address of a heap cell.
\<close>

type_synonym int32 = "32 word"
type_synonym addr = nat
type_synonym strmap = "string \<rightharpoonup> string"
type_synonym time = int

named_theorems heap_simps "reading a heap component after an allocation or a store"
named_theorems frame_simps "parts of the state an operation leaves unchanged"
named_theorems text_simps "printing of numbers and of formatted names"

section \<open>Go map reads\<close>

definition go_lookup :: "strmap \<Rightarrow> string \<Rightarrow> string" where
  "go_lookup m k = (case m k of None \<Rightarrow> '''' | Some v \<Rightarrow> v)"

lemma go_lookup_upd [simp]:
  "go_lookup (m(k \<mapsto> v)) k' = (if k' = k then v else go_lookup m k')"
  by (simp add: go_lookup_def)

lemma go_lookup_empty [simp]: "go_lookup Map.empty k = ''''"
  by (simp add: go_lookup_def)

text \<open>A read of a nil map is a read of an empty one.\<close>

definition go_lookup_opt :: "strmap option \<Rightarrow> string \<Rightarrow> string" where
  "go_lookup_opt mo k = (case mo of None \<Rightarrow> '''' | Some m \<Rightarrow> go_lookup m k)"

lemma go_lookup_opt_simps [simp]:
  "go_lookup_opt None k = ''''"
  "go_lookup_opt (Some m) k = go_lookup m k"
  by (simp_all add: go_lookup_opt_def)

section \<open>The indices of a counting loop\<close>

text \<open>
  \<open>for index := 0; index < n; index++\<close> visits these values; none when \<open>n\<close> is negative.
\<close>

definition indices :: "int \<Rightarrow> int list" where
  "indices n = map int [0..<nat n]"

lemma set_indices [simp]: "set (indices n) = {i. 0 \<le> i \<and> i < n}"
proof -
  have "i \<in> int ` {0..<nat n}" if "0 \<le> i" "i < n" for i
    using that by (intro image_eqI [of _ _ "nat i"]) auto
  then show ?thesis by (auto simp: indices_def)
qed

lemma length_indices [simp]: "length (indices n) = nat n"
  by (simp add: indices_def)

lemma distinct_indices [simp]: "distinct (indices n)"
  by (simp add: indices_def distinct_map inj_on_def)

lemma indices_nonpos [simp]: "n \<le> 0 \<Longrightarrow> indices n = []"
  by (simp add: indices_def)

section \<open>32-bit integers read as signed\<close>

lemma sint32_lower: "- (2 ^ 31) \<le> sint (x :: int32)"
  using sint_ge [of x] by simp

lemma sint32_upper: "sint (x :: int32) < 2 ^ 31"
  using sint_lt [of x] by simp

lemmas sint32_bounds = sint32_lower sint32_upper

lemma sint32_eq_0 [simp]: "sint (x :: int32) = 0 \<longleftrightarrow> x = 0"
  using signed_eq_0_iff by blast

section \<open>First index of a list with a property\<close>

fun find_index :: "('a \<Rightarrow> bool) \<Rightarrow> 'a list \<Rightarrow> nat option" where
  "find_index P [] = None"
| "find_index P (x # xs) = (if P x then Some 0 else map_option Suc (find_index P xs))"

lemma find_index_None: "find_index P xs = None \<longleftrightarrow> (\<forall>x \<in> set xs. \<not> P x)"
  by (induction xs) auto

lemma find_index_Some:
  "find_index P xs = Some i \<longleftrightarrow> i < length xs \<and> P (xs ! i) \<and> (\<forall>j < i. \<not> P (xs ! j))"
proof (induction xs arbitrary: i)
  case Nil
  then show ?case by simp
next
  case (Cons x xs)
  show ?case
  proof (cases i)
    case 0
    then show ?thesis by simp
  next
    case (Suc k)
    then show ?thesis using Cons.IH [of k] by (auto simp: All_less_Suc2)
  qed
qed

lemma find_index_bound: "find_index P xs = Some i \<Longrightarrow> i < length xs"
  by (simp add: find_index_Some)

lemma find_index_holds: "find_index P xs = Some i \<Longrightarrow> P (xs ! i)"
  by (simp add: find_index_Some)

lemma find_index_find: "find P xs = map_option ((!) xs) (find_index P xs)"
  by (induction xs) (auto simp: option.map_comp o_def)

section \<open>Optional references\<close>

definition opt_all :: "('a \<Rightarrow> bool) \<Rightarrow> 'a option \<Rightarrow> bool" where
  "opt_all P x = (case x of None \<Rightarrow> True | Some a \<Rightarrow> P a)"

lemma opt_all_simps [simp]:
  "opt_all P None"
  "opt_all P (Some a) = P a"
  by (simp_all add: opt_all_def)

lemma opt_all_mono: "opt_all P x \<Longrightarrow> (\<And>a. P a \<Longrightarrow> Q a) \<Longrightarrow> opt_all Q x"
  by (cases x) auto

lemma map_option_cong_all:
  "opt_all P x \<Longrightarrow> (\<And>a. P a \<Longrightarrow> f a = g a) \<Longrightarrow> map_option f x = map_option g x"
  by (cases x) auto

end
