(* ===== verification/Go_Text.thy ===== *)
theory Go_Text
  imports Op_Prelude
begin

text \<open>
  The parts of Go's \<open>fmt\<close>, \<open>strconv\<close> and \<open>strings\<close> packages that the operator's names,
  labels, environment variables and queue keys are made with: decimal printing of
  integers, \<open>fmt.Sprintf\<close> with one \<open>%d\<close> verb, \<open>strconv.FormatBool\<close> and
  \<open>strings.Split\<close> on one character. The lemmas say when names built from different
  parts differ and that splitting undoes joining.
\<close>

section \<open>Decimal printing\<close>

definition digit_chars :: string where
  "digit_chars = ''0123456789''"

definition digit :: "nat \<Rightarrow> char" where
  "digit d = digit_chars ! d"

fun dec_nat :: "nat \<Rightarrow> string" where
  "dec_nat n = (if n < 10 then [digit n] else dec_nat (n div 10) @ [digit (n mod 10)])"

declare dec_nat.simps [simp del]

definition dec_int :: "int \<Rightarrow> string" where
  "dec_int i = (if i < 0 then CHR ''-'' # dec_nat (nat (- i)) else dec_nat (nat i))"

definition digits :: "char set" where
  "digits = set digit_chars"

lemma length_digit_chars: "length digit_chars = 10"
  by (simp add: digit_chars_def)

lemma distinct_digit_chars: "distinct digit_chars"
  by (simp add: digit_chars_def)

lemma digit_in: "d < 10 \<Longrightarrow> digit d \<in> digits"
  unfolding digit_def digits_def by (rule nth_mem) (simp add: length_digit_chars)

lemma digit_inj:
  assumes "a < 10" "b < 10" "digit a = digit b"
  shows "a = b"
  using assms nth_eq_iff_index_eq [OF distinct_digit_chars, of a b]
  by (simp add: digit_def length_digit_chars)

lemma dec_nat_digits: "set (dec_nat n) \<subseteq> digits"
proof (induction n rule: dec_nat.induct)
  case (1 n)
  show ?case
    using "1" digit_in [of n] digit_in [of "n mod 10"]
    by (subst dec_nat.simps) auto
qed

lemma dec_nat_ne_Nil [simp]: "dec_nat n \<noteq> []"
  by (subst dec_nat.simps) simp

text \<open>Reading the digits back, which makes printing injective.\<close>

definition digit_val :: "char \<Rightarrow> nat" where
  "digit_val c = (case find_index (\<lambda>d. d = c) digit_chars of None \<Rightarrow> 0 | Some i \<Rightarrow> i)"

definition read_nat :: "string \<Rightarrow> nat" where
  "read_nat s = foldl (\<lambda>n c. 10 * n + digit_val c) 0 s"

lemma digit_val_digit: "d < 10 \<Longrightarrow> digit_val (digit d) = d"
proof -
  assume d: "d < 10"
  have "digit j \<noteq> digit d" if "j < d" for j
    using that d digit_inj [of j d] by auto
  then have "find_index (\<lambda>e. e = digit d) digit_chars = Some d"
    using d by (simp add: find_index_Some length_digit_chars digit_def [symmetric])
  then show ?thesis by (simp add: digit_val_def)
qed

lemma read_dec_nat: "read_nat (dec_nat n) = n"
proof (induction n rule: dec_nat.induct)
  case (1 n)
  show ?case
  proof (cases "n < 10")
    case True
    then show ?thesis by (subst dec_nat.simps) (simp add: read_nat_def digit_val_digit)
  next
    case False
    with "1" have "read_nat (dec_nat (n div 10)) = n div 10" by simp
    with False show ?thesis
      by (subst dec_nat.simps) (simp add: read_nat_def digit_val_digit)
  qed
qed

lemma dec_nat_inj [simp]: "dec_nat m = dec_nat n \<longleftrightarrow> m = n"
  by (metis read_dec_nat)

lemma minus_notin_dec_nat: "CHR ''-'' \<notin> set (dec_nat n)"
  using dec_nat_digits [of n] by (auto simp: digits_def digit_chars_def)

lemma dec_int_nonneg: "0 \<le> i \<Longrightarrow> dec_int i = dec_nat (nat i)"
  by (simp add: dec_int_def)

lemma dec_int_inj [simp]: "dec_int i = dec_int j \<longleftrightarrow> i = j"
proof
  assume eq: "dec_int i = dec_int j"
  have "CHR ''-'' \<in> set (dec_int k) \<longleftrightarrow> k < 0" for k
    using minus_notin_dec_nat by (simp add: dec_int_def)
  then have "i < 0 \<longleftrightarrow> j < 0" using eq by metis
  with eq show "i = j" by (auto simp: dec_int_def split: if_splits)
qed simp

lemma minus_notin_dec_int: "0 \<le> i \<Longrightarrow> CHR ''-'' \<notin> set (dec_int i)"
  by (simp add: dec_int_nonneg minus_notin_dec_nat)

lemma dec_int_chars: "0 \<le> i \<Longrightarrow> set (dec_int i) \<subseteq> digits"
  by (simp add: dec_int_nonneg dec_nat_digits)

section \<open>Sprintf with one decimal verb\<close>

text \<open>
  \<open>fmt.Sprintf(format, index)\<close> for a format whose only verb is one \<open>%d\<close>: the first
  \<open>%d\<close> is replaced by the number and every other character is copied. The operator puts
  the object's name into the format, so a name holding a percent sign would be read as
  further verbs; names of Kubernetes objects are DNS labels and hold none. The
  properties about names carry that as the hypothesis \<open>no_verb\<close>.
\<close>

fun Sprintf_d :: "string \<Rightarrow> int \<Rightarrow> string" where
  "Sprintf_d [] i = []"
| "Sprintf_d [c] i = [c]"
| "Sprintf_d (c # d # s) i =
     (if c = CHR ''%'' \<and> d = CHR ''d'' then dec_int i @ s else c # Sprintf_d (d # s) i)"

definition no_verb :: "string \<Rightarrow> bool" where
  "no_verb s \<longleftrightarrow> CHR ''%'' \<notin> set s"

lemma Sprintf_d_Cons: "c \<noteq> CHR ''%'' \<Longrightarrow> Sprintf_d (c # s) i = c # Sprintf_d s i"
  by (cases s) auto

lemma Sprintf_d_append [text_simps]: "no_verb p \<Longrightarrow> Sprintf_d (p @ s) i = p @ Sprintf_d s i"
proof (induction p)
  case Nil
  then show ?case by simp
next
  case (Cons c p)
  then have "c \<noteq> CHR ''%''" "no_verb p" by (auto simp: no_verb_def)
  then show ?case using Cons.IH by (simp add: Sprintf_d_Cons)
qed

section \<open>FormatBool\<close>

definition FormatBool :: "bool \<Rightarrow> string" where
  "FormatBool b = (if b then ''true'' else ''false'')"

lemma FormatBool_inj [simp]: "FormatBool a = FormatBool b \<longleftrightarrow> a = b"
  by (simp add: FormatBool_def)

section \<open>Splitting at a separator\<close>

fun split_at :: "char \<Rightarrow> string \<Rightarrow> string list" where
  "split_at sep [] = [[]]"
| "split_at sep (c # s) =
     (if c = sep then [] # split_at sep s
      else (case split_at sep s of [] \<Rightarrow> [[c]] | p # ps \<Rightarrow> (c # p) # ps))"

lemma split_at_ne_Nil [simp]: "split_at sep s \<noteq> []"
  by (induction s) (auto split: list.splits)

lemma split_at_none: "sep \<notin> set s \<Longrightarrow> split_at sep s = [s]"
  by (induction s) auto

lemma split_at_append: "sep \<notin> set p \<Longrightarrow> split_at sep (p @ sep # s) = p # split_at sep s"
  by (induction p) auto

lemma length_split_at: "length (split_at sep s) = Suc (count_list s sep)"
proof (induction s)
  case Nil
  then show ?case by simp
next
  case (Cons c s)
  then show ?case by (cases "split_at sep s") auto
qed

lemma split_at_single: "split_at sep s = [a] \<Longrightarrow> s = a"
proof (induction s arbitrary: a)
  case Nil
  then show ?case by simp
next
  case (Cons c s)
  then show ?case by (auto split: if_splits list.splits)
qed

lemma split_at_two: "split_at sep s = [a, b] \<Longrightarrow> s = a @ sep # b"
proof (induction s arbitrary: a)
  case Nil
  then show ?case by simp
next
  case (Cons c s)
  then show ?case
    by (auto split: if_splits list.splits dest: split_at_single)
qed

section \<open>Names joined by a separator\<close>

text \<open>
  A name followed by the separator and a part without the separator determines both:
  this is what keeps the objects of different clusters, and of different groups of one
  cluster, apart.
\<close>

lemma last_sep_unique:
  fixes p q s t :: string
  assumes eq: "p @ sep # s = q @ sep # t"
    and s: "sep \<notin> set s" and t: "sep \<notin> set t"
  shows "p = q \<and> s = t"
proof -
  have "rev s @ sep # rev p = rev t @ sep # rev q"
    using arg_cong [OF eq, of rev] by simp
  then have "split_at sep (rev s @ sep # rev p) = split_at sep (rev t @ sep # rev q)" by simp
  then have "rev s = rev t" using s t by (simp add: split_at_append)
  then show ?thesis using eq by simp
qed

end
