(* ===== verification/K8s_Meta.thy ===== *)
theory K8s_Meta
  imports Go_Text
begin

text \<open>
  Kubernetes API machinery as the operator uses it (the sources are under
  \<open>vendor/k8s.io\<close>): object metadata, owner references and who controls an object,
  errors with a status reason, queue keys, label merging; and the operator's own
  constants (\<open>pkg/constants\<close>, \<open>register.go\<close>).

  The record \<open>ObjectMeta\<close> holds the fields the operator reads or writes. Its type
  parameter is the type of map-valued fields: an address in the heap model of shared
  objects, a \<open>strmap\<close> in values. Fields whose name is used by another type carry the
  type's initials as a prefix.
\<close>

section \<open>Constants of the operator\<close>

definition BrokerClusterLabel :: string where
  "BrokerClusterLabel = ''v1alpha1.rocketmq.huanwei.io/cluster''"

definition BrokerRoleLabel :: string where
  "BrokerRoleLabel = ''v1alpha1.rocketmq.huanwei.io/role''"

definition BrokerRoleMaster :: string where
  "BrokerRoleMaster = ''master''"

definition BrokerRoleSlave :: string where
  "BrokerRoleSlave = ''slave''"

lemma labels_differ [simp]:
  "BrokerClusterLabel \<noteq> BrokerRoleLabel" "BrokerRoleLabel \<noteq> BrokerClusterLabel"
  by (simp_all add: BrokerClusterLabel_def BrokerRoleLabel_def)

lemma roles_differ [simp]:
  "BrokerRoleMaster \<noteq> BrokerRoleSlave" "BrokerRoleSlave \<noteq> BrokerRoleMaster"
  by (simp_all add: BrokerRoleMaster_def BrokerRoleSlave_def)

record GroupVersion =
  gv_Group :: string
  gv_Version :: string

record GroupVersionKind =
  gvk_Group :: string
  gvk_Version :: string
  gvk_Kind :: string

record GroupResource =
  gr_Group :: string
  gr_Resource :: string

record GroupVersionResource =
  gvr_Group :: string
  gvr_Version :: string
  gvr_Resource :: string

definition GroupName :: string where
  "GroupName = ''rocketmq.huanwei.io''"

definition SchemeGroupVersion :: GroupVersion where
  "SchemeGroupVersion = \<lparr>gv_Group = GroupName, gv_Version = ''v1alpha1''\<rparr>"

definition ClusterCRDResourceKind :: string where
  "ClusterCRDResourceKind = ''BrokerCluster''"

definition Resource :: "string \<Rightarrow> GroupResource" where
  "Resource resource = \<lparr>gr_Group = gv_Group SchemeGroupVersion, gr_Resource = resource\<rparr>"

definition BrokerClusterGVK :: GroupVersionKind where
  "BrokerClusterGVK =
     \<lparr>gvk_Group = gv_Group SchemeGroupVersion, gvk_Version = gv_Version SchemeGroupVersion,
      gvk_Kind = ClusterCRDResourceKind\<rparr>"

definition GroupVersion_String :: "GroupVersion \<Rightarrow> string" where
  "GroupVersion_String gv =
     (if gv_Group gv = '''' \<and> gv_Version gv = '''' then ''''
      else if gv_Group gv = '''' \<and> gv_Version gv = ''v1'' then gv_Version gv
      else if gv_Group gv \<noteq> '''' then gv_Group gv @ ''/'' @ gv_Version gv
      else gv_Version gv)"

section \<open>Errors\<close>

text \<open>
  An error value is an API status (with its reason), the time-out error of
  \<open>wait.ExponentialBackoff\<close>, or an error with a message only. \<open>ReasonForError\<close> gives
  the reason \<open>Unknown\<close> to anything that is not an API status.
\<close>

datatype status_reason =
    ReasonUnknown | ReasonNotFound | ReasonAlreadyExists | ReasonConflict | ReasonInvalid
  | ReasonServerTimeout | ReasonForbidden | ReasonBadRequest

datatype go_error =
    StatusError status_reason string
  | ErrWaitTimeout
  | MessageError string

fun ReasonForError :: "go_error option \<Rightarrow> status_reason" where
  "ReasonForError (Some (StatusError r _)) = r"
| "ReasonForError _ = ReasonUnknown"

definition IsNotFound :: "go_error option \<Rightarrow> bool" where
  "IsNotFound e \<longleftrightarrow> ReasonForError e = ReasonNotFound"

definition IsConflict :: "go_error option \<Rightarrow> bool" where
  "IsConflict e \<longleftrightarrow> ReasonForError e = ReasonConflict"

lemma reason_None [simp]: "\<not> IsNotFound None" "\<not> IsConflict None"
  by (simp_all add: IsNotFound_def IsConflict_def)

lemma IsConflict_simps [simp]:
  "IsConflict (Some (StatusError r m)) \<longleftrightarrow> r = ReasonConflict"
  "\<not> IsConflict (Some ErrWaitTimeout)"
  "\<not> IsConflict (Some (MessageError m))"
  by (simp_all add: IsConflict_def)

lemma IsNotFound_simps [simp]:
  "IsNotFound (Some (StatusError r m)) \<longleftrightarrow> r = ReasonNotFound"
  "\<not> IsNotFound (Some ErrWaitTimeout)"
  "\<not> IsNotFound (Some (MessageError m))"
  by (simp_all add: IsNotFound_def)

lemma NotFound_not_Conflict: "IsNotFound e \<Longrightarrow> \<not> IsConflict e"
  by (simp add: IsNotFound_def IsConflict_def)

definition NewNotFound :: "GroupResource \<Rightarrow> string \<Rightarrow> go_error" where
  "NewNotFound gr name =
     StatusError ReasonNotFound
       (gr_Resource gr @ (if gr_Group gr = '''' then '''' else ''.'' @ gr_Group gr) @
        '' \"'' @ name @ ''\" not found'')"

lemma NewNotFound_IsNotFound [simp]: "IsNotFound (Some (NewNotFound gr n))"
  by (simp add: NewNotFound_def)

section \<open>Object metadata and owner references\<close>

record TypeMeta =
  tm_Kind :: string
  tm_APIVersion :: string

record OwnerReference =
  or_APIVersion :: string
  or_Kind :: string
  or_Name :: string
  or_UID :: string
  or_Controller :: "bool option"
  or_BlockOwnerDeletion :: "bool option"

record 'm ObjectMeta =
  om_Name :: string
  om_Namespace :: string
  om_SelfLink :: string
  om_UID :: string
  om_ResourceVersion :: string
  om_Labels :: "'m option"
  om_OwnerReferences :: "OwnerReference list"

definition empty_meta :: "'m ObjectMeta" where
  "empty_meta =
     \<lparr>om_Name = '''', om_Namespace = '''', om_SelfLink = '''', om_UID = '''',
      om_ResourceVersion = '''', om_Labels = None, om_OwnerReferences = []\<rparr>"

definition meta_map :: "('m \<Rightarrow> 'n) \<Rightarrow> 'm ObjectMeta \<Rightarrow> 'n ObjectMeta" where
  "meta_map f om =
     \<lparr>om_Name = om_Name om, om_Namespace = om_Namespace om, om_SelfLink = om_SelfLink om,
      om_UID = om_UID om, om_ResourceVersion = om_ResourceVersion om,
      om_Labels = map_option f (om_Labels om),
      om_OwnerReferences = om_OwnerReferences om\<rparr>"

lemma meta_map_simps [simp]:
  "om_Name (meta_map f om) = om_Name om"
  "om_Namespace (meta_map f om) = om_Namespace om"
  "om_SelfLink (meta_map f om) = om_SelfLink om"
  "om_UID (meta_map f om) = om_UID om"
  "om_ResourceVersion (meta_map f om) = om_ResourceVersion om"
  "om_Labels (meta_map f om) = map_option f (om_Labels om)"
  "om_OwnerReferences (meta_map f om) = om_OwnerReferences om"
  by (simp_all add: meta_map_def)

fun GetControllerOf_refs :: "OwnerReference list \<Rightarrow> OwnerReference option" where
  "GetControllerOf_refs [] = None"
| "GetControllerOf_refs (r # rs) =
     (if or_Controller r = Some True then Some r else GetControllerOf_refs rs)"

definition GetControllerOf :: "'m ObjectMeta \<Rightarrow> OwnerReference option" where
  "GetControllerOf om = GetControllerOf_refs (om_OwnerReferences om)"

definition IsControlledBy :: "'m ObjectMeta \<Rightarrow> 'n ObjectMeta \<Rightarrow> bool" where
  "IsControlledBy obj owner =
     (case GetControllerOf obj of None \<Rightarrow> False | Some ref \<Rightarrow> or_UID ref = om_UID owner)"

definition NewControllerRef :: "'m ObjectMeta \<Rightarrow> GroupVersionKind \<Rightarrow> OwnerReference" where
  "NewControllerRef owner gvk =
     \<lparr>or_APIVersion =
        GroupVersion_String \<lparr>gv_Group = gvk_Group gvk, gv_Version = gvk_Version gvk\<rparr>,
      or_Kind = gvk_Kind gvk, or_Name = om_Name owner, or_UID = om_UID owner,
      or_Controller = Some True, or_BlockOwnerDeletion = Some True\<rparr>"

lemma GetControllerOf_Some:
  "GetControllerOf om = Some r \<Longrightarrow>
     r \<in> set (om_OwnerReferences om) \<and> or_Controller r = Some True"
proof -
  have "GetControllerOf_refs rs = Some r \<Longrightarrow> r \<in> set rs \<and> or_Controller r = Some True" for rs
    by (induction rs) (auto split: if_splits)
  then show "GetControllerOf om = Some r \<Longrightarrow> ?thesis"
    by (simp add: GetControllerOf_def)
qed

lemma GetControllerOf_None:
  "GetControllerOf om = None \<longleftrightarrow>
     (\<forall>r \<in> set (om_OwnerReferences om). or_Controller r \<noteq> Some True)"
proof -
  have "GetControllerOf_refs rs = None \<longleftrightarrow> (\<forall>r \<in> set rs. or_Controller r \<noteq> Some True)" for rs
    by (induction rs) auto
  then show ?thesis by (simp add: GetControllerOf_def)
qed

lemma GetControllerOf_new [simp]:
  "om_OwnerReferences om = [NewControllerRef owner gvk] \<Longrightarrow>
     GetControllerOf om = Some (NewControllerRef owner gvk)"
  by (simp add: GetControllerOf_def NewControllerRef_def)

lemma NewControllerRef_fields [simp]:
  "or_UID (NewControllerRef owner gvk) = om_UID owner"
  "or_Name (NewControllerRef owner gvk) = om_Name owner"
  "or_Kind (NewControllerRef owner gvk) = gvk_Kind gvk"
  by (simp_all add: NewControllerRef_def)

text \<open>An object has at most one controller the API looks at: control is by one UID.\<close>

lemma IsControlledBy_unique:
  "IsControlledBy obj a \<Longrightarrow> IsControlledBy obj b \<Longrightarrow> om_UID a = om_UID b"
  by (auto simp: IsControlledBy_def split: option.splits)

lemma IsControlledBy_meta_map [simp]:
  "IsControlledBy obj (meta_map f owner) = IsControlledBy obj owner"
  by (simp add: IsControlledBy_def split: option.split)

section \<open>Queue keys\<close>

definition MetaNamespaceKeyFunc :: "'m ObjectMeta \<Rightarrow> string" where
  "MetaNamespaceKeyFunc om =
     (if om_Namespace om \<noteq> '''' then om_Namespace om @ ''/'' @ om_Name om else om_Name om)"

definition SplitMetaNamespaceKey :: "string \<Rightarrow> go_error + string \<times> string" where
  "SplitMetaNamespaceKey key =
     (case split_at (CHR ''/'') key of
        [name] \<Rightarrow> Inr ('''', name)
      | [namespace, name] \<Rightarrow> Inr (namespace, name)
      | _ \<Rightarrow> Inl (MessageError (''unexpected key format: '' @ key)))"

definition no_slash :: "string \<Rightarrow> bool" where
  "no_slash s \<longleftrightarrow> CHR ''/'' \<notin> set s"

lemma SplitMetaNamespaceKey_pair:
  "no_slash ns \<Longrightarrow> no_slash n \<Longrightarrow> SplitMetaNamespaceKey (ns @ ''/'' @ n) = Inr (ns, n)"
  by (simp add: SplitMetaNamespaceKey_def no_slash_def split_at_append split_at_none)

lemma SplitMetaNamespaceKey_name:
  "no_slash n \<Longrightarrow> SplitMetaNamespaceKey n = Inr ('''', n)"
  by (simp add: SplitMetaNamespaceKey_def no_slash_def split_at_none)

lemma SplitMetaNamespaceKey_cases:
  "SplitMetaNamespaceKey key = Inr (ns, n) \<Longrightarrow>
     (ns = '''' \<and> key = n) \<or> key = ns @ ''/'' @ n"
  by (auto simp: SplitMetaNamespaceKey_def split: list.splits
      dest: split_at_single split_at_two)

text \<open>
  C30: Splitting a queue key gives back the namespace and the name it was made from, and a
  key is refused exactly when it holds more than one slash. The controller's queue carries
  keys made by \<open>MetaNamespaceKeyFunc\<close>, and \<open>syncHandler\<close> starts by splitting one.
\<close>

theorem key_roundtrip:
  "(no_slash (om_Namespace om) \<and> no_slash (om_Name om) \<longrightarrow>
      SplitMetaNamespaceKey (MetaNamespaceKeyFunc om) = Inr (om_Namespace om, om_Name om))
   \<and> ((\<exists>e. SplitMetaNamespaceKey key = Inl e) \<longleftrightarrow> 1 < count_list key (CHR ''/''))"
proof (intro conjI impI)
  assume "no_slash (om_Namespace om) \<and> no_slash (om_Name om)"
  then show "SplitMetaNamespaceKey (MetaNamespaceKeyFunc om) = Inr (om_Namespace om, om_Name om)"
    using SplitMetaNamespaceKey_pair [of "om_Namespace om" "om_Name om"]
    by (simp add: MetaNamespaceKeyFunc_def SplitMetaNamespaceKey_name)
next
  have "length (split_at (CHR ''/'') key) = Suc (count_list key (CHR ''/''))"
    by (rule length_split_at)
  then show "(\<exists>e. SplitMetaNamespaceKey key = Inl e) \<longleftrightarrow> 1 < count_list key (CHR ''/'')"
    by (cases "split_at (CHR ''/'') key" rule: list.exhaust)
       (auto simp: SplitMetaNamespaceKey_def split: list.splits)
qed

theorem key_roundtrip_witness:
  "SplitMetaNamespaceKey ''prod/mybrokercluster'' = Inr (''prod'', ''mybrokercluster'')"
  using key_roundtrip [of "empty_meta\<lparr>om_Namespace := ''prod'', om_Name := ''mybrokercluster''\<rparr>" "[]"]
  by (simp add: no_slash_def MetaNamespaceKeyFunc_def empty_meta_def)

lemma MetaNamespaceKeyFunc_inj:
  assumes "no_slash (om_Namespace a)" "no_slash (om_Name a)"
    "no_slash (om_Namespace b)" "no_slash (om_Name b)"
    and "MetaNamespaceKeyFunc a = MetaNamespaceKeyFunc b"
  shows "om_Namespace a = om_Namespace b \<and> om_Name a = om_Name b"
proof -
  have "Inr (om_Namespace a, om_Name a) = (Inr (om_Namespace b, om_Name b) :: go_error + _)"
    using assms SplitMetaNamespaceKey_pair SplitMetaNamespaceKey_name
    by (metis MetaNamespaceKeyFunc_def)
  then show ?thesis by simp
qed

section \<open>Merging labels\<close>

text \<open>\<open>labels.Merge\<close>: a new set with the entries of both; the second wins.\<close>

definition labels_Merge :: "strmap \<Rightarrow> strmap \<Rightarrow> strmap" where
  "labels_Merge labels1 labels2 = labels1 ++ labels2"

lemma labels_Merge_apply:
  "labels_Merge a b k = (case b k of None \<Rightarrow> a k | Some v \<Rightarrow> Some v)"
  by (simp add: labels_Merge_def map_add_def)

text \<open>A label selector of equalities: every pair it names is among the labels.\<close>

definition selects :: "strmap \<Rightarrow> strmap \<Rightarrow> bool" where
  "selects sel lbls \<longleftrightarrow> sel \<subseteq>\<^sub>m lbls"

end
