(* ===== verification/Broker_Types.thy ===== *)
theory Broker_Types
  imports K8s_Meta
begin

text \<open>
  The custom resource (\<open>types.go\<close>) and the heap its objects live in.

  A \<open>BrokerCluster\<close> is a struct whose maps, slices and pointers refer to other cells. The
  operator shares such structs: the lister hands out pointers into the informer's cache,
  \<open>GetClusterCondition\<close> returns a pointer into a slice, \<open>cluster.Status = *status\<close> copies
  a struct shallowly. Several properties are about exactly this sharing, so the records
  are parametrised by what stands for a map (\<open>'m\<close>), a pointer to a foreign struct
  (\<open>'p\<close>) and a slice of conditions (\<open>'s\<close>):
  \<^item> \<open>cluster_obj\<close>, the struct in memory, has addresses and slices there;
  \<^item> \<open>cluster_val\<close>, the value a reader sees, has the contents.
  \<open>cluster_val_of h\<close> reads the value of a struct in the heap \<open>h\<close>.

  The heap has one total function per kind of cell and one allocation limit, so that an
  address is used for one cell only; \<open>a < h_next h\<close> says that \<open>a\<close> is allocated. Pointers
  to foreign structs (\<open>corev1.Affinity\<close>, \<open>corev1.PersistentVolumeClaim\<close>,
  \<open>corev1.LocalObjectReference\<close>) point to opaque contents: the operator never looks inside.
\<close>

section \<open>The custom resource\<close>

record ('m, 'p) BrokerClusterSpec =
  BrokerImage :: string
  NameServers :: string
  AllMaster :: bool
  ReplicationMode :: string
  GroupReplica :: int32
  MembersPerGroup :: int32
  Properties :: "'m option"
  NodeSelector :: "'m option"
  Affinity :: "'p option"
  VolumeClaimTemplate :: "'p option"
  Config :: "'p option"

type_synonym BrokerClusterConditionType = string

definition BrokerClusterReady :: BrokerClusterConditionType where
  "BrokerClusterReady = ''Ready''"

definition ConditionTrue :: string where
  "ConditionTrue = ''True''"

definition ConditionFalse :: string where
  "ConditionFalse = ''False''"

lemma condition_status_differ [simp]:
  "ConditionTrue \<noteq> ConditionFalse" "ConditionFalse \<noteq> ConditionTrue"
  by (simp_all add: ConditionTrue_def ConditionFalse_def)

record BrokerClusterCondition =
  cond_Type :: BrokerClusterConditionType
  cond_Status :: string
  LastTransitionTime :: time
  cond_Reason :: string
  cond_Message :: string

record ('m, 's) BrokerClusterStatus =
  status_TypeMeta :: TypeMeta
  status_ObjectMeta :: "'m ObjectMeta"
  Conditions :: "'s option"

record ('m, 'p, 's) BrokerCluster =
  bc_TypeMeta :: TypeMeta
  bc_ObjectMeta :: "'m ObjectMeta"
  Spec :: "('m, 'p) BrokerClusterSpec"
  Status :: "('m, 's) BrokerClusterStatus"

record 'o BrokerClusterList =
  list_TypeMeta :: TypeMeta
  list_ResourceVersion :: string
  Items :: "'o list option"

section \<open>The heap\<close>

text \<open>
  A slice is a backing array and a length; its capacity is the length of the backing
  array (no slice of the operator starts inside an array).
\<close>

record slice =
  sl_array :: addr
  sl_len :: nat

type_synonym blob = string

type_synonym spec_obj = "(addr, addr) BrokerClusterSpec"
type_synonym status_obj = "(addr, slice) BrokerClusterStatus"
type_synonym cluster_obj = "(addr, addr, slice) BrokerCluster"
type_synonym spec_val = "(strmap, blob) BrokerClusterSpec"
type_synonym status_val = "(strmap, BrokerClusterCondition list) BrokerClusterStatus"
type_synonym cluster_val = "(strmap, blob, BrokerClusterCondition list) BrokerCluster"

record heap =
  h_clusters :: "addr \<Rightarrow> cluster_obj"
  h_statuses :: "addr \<Rightarrow> status_obj"
  h_conds :: "addr \<Rightarrow> BrokerClusterCondition"
  h_maps :: "addr \<Rightarrow> strmap"
  h_blobs :: "addr \<Rightarrow> blob"
  h_arrays :: "addr \<Rightarrow> BrokerClusterCondition list"
  h_next :: addr

definition alloc_cluster :: "heap \<Rightarrow> cluster_obj \<Rightarrow> heap \<times> addr" where
  "alloc_cluster h c =
     (h\<lparr>h_clusters := (h_clusters h)(h_next h := c), h_next := Suc (h_next h)\<rparr>, h_next h)"

definition alloc_status :: "heap \<Rightarrow> status_obj \<Rightarrow> heap \<times> addr" where
  "alloc_status h s =
     (h\<lparr>h_statuses := (h_statuses h)(h_next h := s), h_next := Suc (h_next h)\<rparr>, h_next h)"

definition alloc_cond :: "heap \<Rightarrow> BrokerClusterCondition \<Rightarrow> heap \<times> addr" where
  "alloc_cond h c =
     (h\<lparr>h_conds := (h_conds h)(h_next h := c), h_next := Suc (h_next h)\<rparr>, h_next h)"

definition alloc_map :: "heap \<Rightarrow> strmap \<Rightarrow> heap \<times> addr" where
  "alloc_map h m =
     (h\<lparr>h_maps := (h_maps h)(h_next h := m), h_next := Suc (h_next h)\<rparr>, h_next h)"

definition alloc_blob :: "heap \<Rightarrow> blob \<Rightarrow> heap \<times> addr" where
  "alloc_blob h b =
     (h\<lparr>h_blobs := (h_blobs h)(h_next h := b), h_next := Suc (h_next h)\<rparr>, h_next h)"

definition alloc_array :: "heap \<Rightarrow> BrokerClusterCondition list \<Rightarrow> heap \<times> addr" where
  "alloc_array h cs =
     (h\<lparr>h_arrays := (h_arrays h)(h_next h := cs), h_next := Suc (h_next h)\<rparr>, h_next h)"

section \<open>Growth of the heap\<close>

text \<open>
  \<open>h \<le> h'\<close>: every cell allocated in \<open>h\<close> is allocated in \<open>h'\<close> with the same contents.
  Heaps are a preorder, so the library's transitivity reasoning applies to chains of
  allocations.
\<close>

definition same_cells :: "addr \<Rightarrow> 'a heap_scheme \<Rightarrow> 'a heap_scheme \<Rightarrow> bool" where
  "same_cells a h h' \<longleftrightarrow>
     h_clusters h a = h_clusters h' a \<and> h_statuses h a = h_statuses h' a \<and>
     h_conds h a = h_conds h' a \<and> h_maps h a = h_maps h' a \<and>
     h_blobs h a = h_blobs h' a \<and> h_arrays h a = h_arrays h' a"

lemma same_cells_refl [simp]: "same_cells a h h"
  by (simp add: same_cells_def)

lemma same_cells_trans: "same_cells a h h' \<Longrightarrow> same_cells a h' h'' \<Longrightarrow> same_cells a h h''"
  by (simp add: same_cells_def)

instantiation heap_ext :: (type) preorder
begin

definition less_eq_heap_ext :: "'a heap_scheme \<Rightarrow> 'a heap_scheme \<Rightarrow> bool" where
  "h \<le> h' \<longleftrightarrow> h_next h \<le> h_next h' \<and> (\<forall>a < h_next h. same_cells a h h')"

definition less_heap_ext :: "'a heap_scheme \<Rightarrow> 'a heap_scheme \<Rightarrow> bool" where
  "(h :: 'a heap_scheme) < h' \<longleftrightarrow> h \<le> h' \<and> \<not> h' \<le> h"

instance
proof
  fix h h' h'' :: "'a heap_scheme"
  show "h < h' \<longleftrightarrow> h \<le> h' \<and> \<not> h' \<le> h"
    by (rule less_heap_ext_def)
  show "h \<le> h"
    by (simp add: less_eq_heap_ext_def)
  assume "h \<le> h'" "h' \<le> h''"
  then show "h \<le> h''"
    unfolding less_eq_heap_ext_def by (meson less_le_trans order_trans same_cells_trans)
qed

end

lemma heap_le_next: "h \<le> h' \<Longrightarrow> h_next h \<le> h_next (h' :: heap)"
  by (simp add: less_eq_heap_ext_def)

lemma heap_le_cells: "h \<le> h' \<Longrightarrow> a < h_next h \<Longrightarrow> same_cells a h (h' :: heap)"
  by (simp add: less_eq_heap_ext_def)

lemma heap_le_reads:
  assumes "h \<le> (h' :: heap)" "a < h_next h"
  shows "h_clusters h' a = h_clusters h a" "h_statuses h' a = h_statuses h a"
    "h_conds h' a = h_conds h a" "h_maps h' a = h_maps h a"
    "h_blobs h' a = h_blobs h a" "h_arrays h' a = h_arrays h a"
  using heap_le_cells [OF assms] by (simp_all add: same_cells_def)

section \<open>The contract of an allocator\<close>

text \<open>
  Every \<open>new\<close>, \<open>make\<close> and composite literal of the operator allocates a cell the same
  way: the new address is the limit, the cell holds the initial contents, every old cell
  is kept. The six allocators share these laws and what follows from them.
\<close>

locale allocator =
  fixes alloc :: "heap \<Rightarrow> 'c \<Rightarrow> heap \<times> addr"
    and cell :: "heap \<Rightarrow> addr \<Rightarrow> 'c"
  assumes alloc_addr: "alloc h c = (h', a) \<Longrightarrow> a = h_next h"
    and alloc_next: "alloc h c = (h', a) \<Longrightarrow> h_next h' = Suc (h_next h)"
    and alloc_cell: "alloc h c = (h', a) \<Longrightarrow> cell h' a = c"
    and alloc_old: "alloc h c = (h', a) \<Longrightarrow> b < h_next h \<Longrightarrow> same_cells b h h'"
begin

lemma alloc_extends: "alloc h c = (h', a) \<Longrightarrow> h \<le> h'"
  by (auto simp: less_eq_heap_ext_def dest: alloc_next alloc_old)

lemma alloc_fresh: "alloc h c = (h', a) \<Longrightarrow> b < h_next h \<Longrightarrow> a \<noteq> b"
  using alloc_addr by fastforce

lemma alloc_allocated: "alloc h c = (h', a) \<Longrightarrow> a < h_next h'"
  using alloc_addr alloc_next by fastforce

lemma alloc_not_old: "alloc h c = (h', a) \<Longrightarrow> h_next h \<le> a"
  using alloc_addr by fastforce

lemmas alloc_facts = alloc_addr alloc_next alloc_cell alloc_extends alloc_allocated alloc_not_old

end

interpretation clusters: allocator alloc_cluster h_clusters
  by unfold_locales (auto simp: alloc_cluster_def same_cells_def)

interpretation statuses: allocator alloc_status h_statuses
  by unfold_locales (auto simp: alloc_status_def same_cells_def)

interpretation conds: allocator alloc_cond h_conds
  by unfold_locales (auto simp: alloc_cond_def same_cells_def)

interpretation maps: allocator alloc_map h_maps
  by unfold_locales (auto simp: alloc_map_def same_cells_def)

interpretation blobs: allocator alloc_blob h_blobs
  by unfold_locales (auto simp: alloc_blob_def same_cells_def)

interpretation arrays: allocator alloc_array h_arrays
  by unfold_locales (auto simp: alloc_array_def same_cells_def)

section \<open>Values of objects\<close>

definition spec_map :: "('m \<Rightarrow> 'n) \<Rightarrow> ('p \<Rightarrow> 'q) \<Rightarrow> ('m, 'p) BrokerClusterSpec
    \<Rightarrow> ('n, 'q) BrokerClusterSpec" where
  "spec_map f g s =
     \<lparr>BrokerImage = BrokerImage s, NameServers = NameServers s, AllMaster = AllMaster s,
      ReplicationMode = ReplicationMode s, GroupReplica = GroupReplica s,
      MembersPerGroup = MembersPerGroup s, Properties = map_option f (Properties s),
      NodeSelector = map_option f (NodeSelector s), Affinity = map_option g (Affinity s),
      VolumeClaimTemplate = map_option g (VolumeClaimTemplate s),
      Config = map_option g (Config s)\<rparr>"

definition status_map :: "('m \<Rightarrow> 'n) \<Rightarrow> ('s \<Rightarrow> 't) \<Rightarrow> ('m, 's) BrokerClusterStatus
    \<Rightarrow> ('n, 't) BrokerClusterStatus" where
  "status_map f k s =
     \<lparr>status_TypeMeta = status_TypeMeta s, status_ObjectMeta = meta_map f (status_ObjectMeta s),
      Conditions = map_option k (Conditions s)\<rparr>"

definition cluster_map :: "('m \<Rightarrow> 'n) \<Rightarrow> ('p \<Rightarrow> 'q) \<Rightarrow> ('s \<Rightarrow> 't)
    \<Rightarrow> ('m, 'p, 's) BrokerCluster \<Rightarrow> ('n, 'q, 't) BrokerCluster" where
  "cluster_map f g k c =
     \<lparr>bc_TypeMeta = bc_TypeMeta c, bc_ObjectMeta = meta_map f (bc_ObjectMeta c),
      Spec = spec_map f g (Spec c), Status = status_map f k (Status c)\<rparr>"

definition slice_val :: "heap \<Rightarrow> slice \<Rightarrow> BrokerClusterCondition list" where
  "slice_val h sl = take (sl_len sl) (h_arrays h (sl_array sl))"

definition meta_val_of :: "heap \<Rightarrow> addr ObjectMeta \<Rightarrow> strmap ObjectMeta" where
  "meta_val_of h = meta_map (h_maps h)"

definition spec_val_of :: "heap \<Rightarrow> spec_obj \<Rightarrow> spec_val" where
  "spec_val_of h = spec_map (h_maps h) (h_blobs h)"

definition status_val_of :: "heap \<Rightarrow> status_obj \<Rightarrow> status_val" where
  "status_val_of h = status_map (h_maps h) (slice_val h)"

definition cluster_val_of :: "heap \<Rightarrow> cluster_obj \<Rightarrow> cluster_val" where
  "cluster_val_of h = cluster_map (h_maps h) (h_blobs h) (slice_val h)"

text \<open>The value of the cluster a pointer points to.\<close>

definition cluster_at :: "heap \<Rightarrow> addr \<Rightarrow> cluster_val" where
  "cluster_at h p = cluster_val_of h (h_clusters h p)"

lemma spec_map_simps [simp]:
  "BrokerImage (spec_map f g s) = BrokerImage s"
  "NameServers (spec_map f g s) = NameServers s"
  "AllMaster (spec_map f g s) = AllMaster s"
  "ReplicationMode (spec_map f g s) = ReplicationMode s"
  "GroupReplica (spec_map f g s) = GroupReplica s"
  "MembersPerGroup (spec_map f g s) = MembersPerGroup s"
  "Properties (spec_map f g s) = map_option f (Properties s)"
  "NodeSelector (spec_map f g s) = map_option f (NodeSelector s)"
  "Affinity (spec_map f g s) = map_option g (Affinity s)"
  "VolumeClaimTemplate (spec_map f g s) = map_option g (VolumeClaimTemplate s)"
  "Config (spec_map f g s) = map_option g (Config s)"
  by (simp_all add: spec_map_def)

lemma status_map_simps [simp]:
  "status_TypeMeta (status_map f k s) = status_TypeMeta s"
  "status_ObjectMeta (status_map f k s) = meta_map f (status_ObjectMeta s)"
  "Conditions (status_map f k s) = map_option k (Conditions s)"
  by (simp_all add: status_map_def)

lemma cluster_map_simps [simp]:
  "bc_TypeMeta (cluster_map f g k c) = bc_TypeMeta c"
  "bc_ObjectMeta (cluster_map f g k c) = meta_map f (bc_ObjectMeta c)"
  "Spec (cluster_map f g k c) = spec_map f g (Spec c)"
  "Status (cluster_map f g k c) = status_map f k (Status c)"
  by (simp_all add: cluster_map_def)

lemma cluster_val_of_parts [simp]:
  "bc_TypeMeta (cluster_val_of h c) = bc_TypeMeta c"
  "bc_ObjectMeta (cluster_val_of h c) = meta_val_of h (bc_ObjectMeta c)"
  "Spec (cluster_val_of h c) = spec_val_of h (Spec c)"
  "Status (cluster_val_of h c) = status_val_of h (Status c)"
  by (simp_all add: cluster_val_of_def meta_val_of_def spec_val_of_def status_val_of_def)

lemma meta_val_of_simps [simp]:
  "om_Name (meta_val_of h om) = om_Name om"
  "om_Namespace (meta_val_of h om) = om_Namespace om"
  "om_SelfLink (meta_val_of h om) = om_SelfLink om"
  "om_UID (meta_val_of h om) = om_UID om"
  "om_ResourceVersion (meta_val_of h om) = om_ResourceVersion om"
  "om_Labels (meta_val_of h om) = map_option (h_maps h) (om_Labels om)"
  "om_OwnerReferences (meta_val_of h om) = om_OwnerReferences om"
  by (simp_all add: meta_val_of_def)

lemma spec_val_of_simps [simp]:
  "BrokerImage (spec_val_of h s) = BrokerImage s"
  "NameServers (spec_val_of h s) = NameServers s"
  "AllMaster (spec_val_of h s) = AllMaster s"
  "ReplicationMode (spec_val_of h s) = ReplicationMode s"
  "GroupReplica (spec_val_of h s) = GroupReplica s"
  "MembersPerGroup (spec_val_of h s) = MembersPerGroup s"
  "Properties (spec_val_of h s) = map_option (h_maps h) (Properties s)"
  "NodeSelector (spec_val_of h s) = map_option (h_maps h) (NodeSelector s)"
  "Affinity (spec_val_of h s) = map_option (h_blobs h) (Affinity s)"
  "VolumeClaimTemplate (spec_val_of h s) = map_option (h_blobs h) (VolumeClaimTemplate s)"
  "Config (spec_val_of h s) = map_option (h_blobs h) (Config s)"
  by (simp_all add: spec_val_of_def)

lemma status_val_of_simps [simp]:
  "status_TypeMeta (status_val_of h s) = status_TypeMeta s"
  "status_ObjectMeta (status_val_of h s) = meta_val_of h (status_ObjectMeta s)"
  "Conditions (status_val_of h s) = map_option (slice_val h) (Conditions s)"
  by (simp_all add: status_val_of_def meta_val_of_def)

section \<open>References and well-formed objects\<close>

text \<open>The addresses an object refers to.\<close>

definition meta_refs :: "addr ObjectMeta \<Rightarrow> addr set" where
  "meta_refs om = set_option (om_Labels om)"

definition spec_refs :: "spec_obj \<Rightarrow> addr set" where
  "spec_refs s =
     set_option (Properties s) \<union> set_option (NodeSelector s) \<union> set_option (Affinity s) \<union>
     set_option (VolumeClaimTemplate s) \<union> set_option (Config s)"

definition status_refs :: "status_obj \<Rightarrow> addr set" where
  "status_refs s = meta_refs (status_ObjectMeta s) \<union> sl_array ` set_option (Conditions s)"

definition cluster_refs :: "cluster_obj \<Rightarrow> addr set" where
  "cluster_refs c = meta_refs (bc_ObjectMeta c) \<union> spec_refs (Spec c) \<union> status_refs (Status c)"

lemmas refs_defs = meta_refs_def spec_refs_def status_refs_def cluster_refs_def

text \<open>All references are allocated; the slice of conditions fits its backing array.\<close>

definition slice_ok :: "heap \<Rightarrow> slice \<Rightarrow> bool" where
  "slice_ok h sl \<longleftrightarrow> sl_len sl \<le> length (h_arrays h (sl_array sl))"

definition wf_status :: "heap \<Rightarrow> status_obj \<Rightarrow> bool" where
  "wf_status h s \<longleftrightarrow> (\<forall>a \<in> status_refs s. a < h_next h) \<and> opt_all (slice_ok h) (Conditions s)"

definition wf_cluster :: "heap \<Rightarrow> cluster_obj \<Rightarrow> bool" where
  "wf_cluster h c \<longleftrightarrow> (\<forall>a \<in> cluster_refs c. a < h_next h) \<and> opt_all (slice_ok h) (Conditions (Status c))"

definition wf_ptr :: "heap \<Rightarrow> addr \<Rightarrow> bool" where
  "wf_ptr h p \<longleftrightarrow> p < h_next h \<and> wf_cluster h (h_clusters h p)"

lemma wf_cluster_refs: "wf_cluster h c \<Longrightarrow> a \<in> cluster_refs c \<Longrightarrow> a < h_next h"
  by (simp add: wf_cluster_def)

text \<open>
  The value of an object depends on the cells it refers to only.
\<close>

lemma cluster_val_cong:
  assumes "\<And>a. a \<in> cluster_refs c \<Longrightarrow>
      h_maps h' a = h_maps h a \<and> h_blobs h' a = h_blobs h a \<and> h_arrays h' a = h_arrays h a"
  shows "cluster_val_of h' c = cluster_val_of h c"
proof -
  have "map_option (h_maps h') x = map_option (h_maps h) x" if "set_option x \<subseteq> cluster_refs c" for x
    using assms that by (cases x) auto
  moreover have "map_option (h_blobs h') x = map_option (h_blobs h) x"
    if "set_option x \<subseteq> cluster_refs c" for x
    using assms that by (cases x) auto
  moreover have "map_option (slice_val h') x = map_option (slice_val h) x"
    if "sl_array ` set_option x \<subseteq> cluster_refs c" for x
    using assms that by (cases x) (auto simp: slice_val_def)
  ultimately show ?thesis
    by (simp add: cluster_val_of_def cluster_map_def spec_map_def status_map_def meta_map_def
        refs_defs Un_assoc le_supI1 le_supI2)
qed

lemma status_val_cong:
  assumes "\<And>a. a \<in> status_refs s \<Longrightarrow> h_maps h' a = h_maps h a \<and> h_arrays h' a = h_arrays h a"
  shows "status_val_of h' s = status_val_of h s"
proof -
  have "map_option (h_maps h') x = map_option (h_maps h) x" if "set_option x \<subseteq> status_refs s" for x
    using assms that by (cases x) auto
  moreover have "map_option (slice_val h') x = map_option (slice_val h) x"
    if "sl_array ` set_option x \<subseteq> status_refs s" for x
    using assms that by (cases x) (auto simp: slice_val_def)
  ultimately show ?thesis
    by (simp add: status_val_of_def status_map_def meta_map_def refs_defs le_supI1 le_supI2)
qed

lemma cluster_val_extends:
  assumes "h \<le> h'" "wf_cluster h c"
  shows "cluster_val_of h' c = cluster_val_of h c"
  using assms by (intro cluster_val_cong) (auto dest: wf_cluster_refs simp: heap_le_reads)

lemma wf_cluster_extends:
  assumes le: "h \<le> h'" and wf: "wf_cluster h c"
  shows "wf_cluster h' c"
proof -
  have "a < h_next h'" if "a \<in> cluster_refs c" for a
    using that wf heap_le_next [OF le] by (auto dest: wf_cluster_refs)
  moreover have "opt_all (slice_ok h') (Conditions (Status c))"
  proof (cases "Conditions (Status c)")
    case (Some sl)
    then have "sl_array sl < h_next h"
      using wf by (auto simp: wf_cluster_def refs_defs)
    with Some wf show ?thesis
      using heap_le_reads(6) [OF le] by (simp add: wf_cluster_def slice_ok_def)
  qed simp
  ultimately show ?thesis by (simp add: wf_cluster_def)
qed

lemma wf_ptr_extends: "h \<le> h' \<Longrightarrow> wf_ptr h p \<Longrightarrow> wf_ptr h' p"
  using heap_le_next [of h h'] heap_le_reads(1) [of h h' p]
  by (auto simp: wf_ptr_def wf_cluster_extends)

lemma cluster_at_extends: "h \<le> h' \<Longrightarrow> wf_ptr h p \<Longrightarrow> cluster_at h' p = cluster_at h p"
  by (simp add: cluster_at_def wf_ptr_def heap_le_reads cluster_val_extends)

section \<open>A sample object\<close>

text \<open>
  The cluster of \<open>deploy/04-cluster-2m-2s.yaml\<close> with one property set by the user and a
  condition that says it is not ready, as the informer's cache would hold it: the struct
  at address 0, its properties at 1, its conditions at 2. Used in witnesses.
\<close>

definition sample_condition :: BrokerClusterCondition where
  "sample_condition =
     \<lparr>cond_Type = BrokerClusterReady, cond_Status = ConditionFalse, LastTransitionTime = 7,
      cond_Reason = '''', cond_Message = ''''\<rparr>"

definition sample_obj :: cluster_obj where
  "sample_obj =
     \<lparr>bc_TypeMeta = \<lparr>tm_Kind = ClusterCRDResourceKind, tm_APIVersion = ''rocketmq.huanwei.io/v1alpha1''\<rparr>,
      bc_ObjectMeta = empty_meta\<lparr>om_Name := ''mybrokercluster'', om_Namespace := ''rocketmq-operator'',
        om_UID := ''u1''\<rparr>,
      Spec = \<lparr>BrokerImage = ''huanwei/rocketmq-broker-k8s:4.3.2'',
        NameServers = ''10.10.103.181:9876;10.10.101.98:9876'', AllMaster = False,
        ReplicationMode = ''SYNC'', GroupReplica = 2, MembersPerGroup = 2, Properties = Some 1,
        NodeSelector = None, Affinity = None, VolumeClaimTemplate = None, Config = None\<rparr>,
      Status = \<lparr>status_TypeMeta = \<lparr>tm_Kind = '''', tm_APIVersion = ''''\<rparr>, status_ObjectMeta = empty_meta,
        Conditions = Some \<lparr>sl_array = 2, sl_len = 1\<rparr>\<rparr>\<rparr>"

definition sample_heap :: heap where
  "sample_heap =
     \<lparr>h_clusters = (\<lambda>_. sample_obj), h_statuses = (\<lambda>_. Status sample_obj),
      h_conds = (\<lambda>_. sample_condition), h_maps = (\<lambda>_. [''DELETE_WHEN'' \<mapsto> ''05'']),
      h_blobs = (\<lambda>_. ''''), h_arrays = (\<lambda>_. [sample_condition]), h_next = 3\<rparr>"

lemma sample_wf: "wf_ptr sample_heap 0"
  by (simp add: wf_ptr_def wf_cluster_def refs_defs slice_ok_def sample_heap_def sample_obj_def
      empty_meta_def)

end
