(* ===== verification/Deep_Copy.thy ===== *)
theory Deep_Copy
  imports Broker_Types
begin

text \<open>
  The generated deep-copy functions (\<open>zz_generated.deepcopy.go\<close>) on the heap.

  \<open>X_DeepCopyInto h x\<close> is the struct that \<open>in.DeepCopyInto(out)\<close> stores through \<open>out\<close>,
  with the heap after the allocations it makes: it starts from the shallow copy \<open>*out = *in\<close> and
  replaces every map, slice and pointer field that is not nil by a fresh copy. The copies
  are independent of the original: the lemmas show that every reference of a copy is
  fresh, that the copy has the value of the original, and that no old cell changes; the
  properties conclude that no write through the copy can be seen through the original and
  the other way round.
\<close>

section \<open>Copying one reference\<close>

definition copy_map :: "heap \<Rightarrow> addr option \<Rightarrow> heap \<times> addr option" where
  "copy_map h r =
     (case r of None \<Rightarrow> (h, None)
      | Some a \<Rightarrow> (case alloc_map h (h_maps h a) of (h', b) \<Rightarrow> (h', Some b)))"

definition copy_blob :: "heap \<Rightarrow> addr option \<Rightarrow> heap \<times> addr option" where
  "copy_blob h r =
     (case r of None \<Rightarrow> (h, None)
      | Some a \<Rightarrow> (case alloc_blob h (h_blobs h a) of (h', b) \<Rightarrow> (h', Some b)))"

definition BrokerClusterCondition_DeepCopyInto :: "BrokerClusterCondition \<Rightarrow> BrokerClusterCondition" where
  "BrokerClusterCondition_DeepCopyInto c = c\<lparr>LastTransitionTime := LastTransitionTime c\<rparr>"

definition copy_conditions :: "heap \<Rightarrow> slice option \<Rightarrow> heap \<times> slice option" where
  "copy_conditions h r =
     (case r of None \<Rightarrow> (h, None)
      | Some sl \<Rightarrow>
          (case alloc_array h (map BrokerClusterCondition_DeepCopyInto (slice_val h sl)) of
             (h', b) \<Rightarrow> (h', Some \<lparr>sl_array = b, sl_len = sl_len sl\<rparr>)))"

section \<open>The generated functions\<close>

definition ObjectMeta_DeepCopyInto :: "heap \<Rightarrow> addr ObjectMeta \<Rightarrow> heap \<times> addr ObjectMeta" where
  "ObjectMeta_DeepCopyInto h om =
     (case copy_map h (om_Labels om) of (h1, l) \<Rightarrow> (h1, om\<lparr>om_Labels := l\<rparr>))"

definition BrokerClusterSpec_DeepCopyInto :: "heap \<Rightarrow> spec_obj \<Rightarrow> heap \<times> spec_obj" where
  "BrokerClusterSpec_DeepCopyInto h s =
     (case copy_map h (Properties s) of (h1, p) \<Rightarrow>
      case copy_map h1 (NodeSelector s) of (h2, n) \<Rightarrow>
      case copy_blob h2 (Affinity s) of (h3, a) \<Rightarrow>
      case copy_blob h3 (VolumeClaimTemplate s) of (h4, v) \<Rightarrow>
      case copy_blob h4 (Config s) of (h5, c) \<Rightarrow>
        (h5, s\<lparr>Properties := p, NodeSelector := n, Affinity := a,
               VolumeClaimTemplate := v, Config := c\<rparr>))"

definition BrokerClusterStatus_DeepCopyInto :: "heap \<Rightarrow> status_obj \<Rightarrow> heap \<times> status_obj" where
  "BrokerClusterStatus_DeepCopyInto h s =
     (case ObjectMeta_DeepCopyInto h (status_ObjectMeta s) of (h1, om) \<Rightarrow>
      case copy_conditions h1 (Conditions s) of (h2, cs) \<Rightarrow>
        (h2, s\<lparr>status_TypeMeta := status_TypeMeta s, status_ObjectMeta := om, Conditions := cs\<rparr>))"

definition BrokerCluster_DeepCopyInto :: "heap \<Rightarrow> cluster_obj \<Rightarrow> heap \<times> cluster_obj" where
  "BrokerCluster_DeepCopyInto h c =
     (case ObjectMeta_DeepCopyInto h (bc_ObjectMeta c) of (h1, om) \<Rightarrow>
      case BrokerClusterSpec_DeepCopyInto h1 (Spec c) of (h2, sp) \<Rightarrow>
      case BrokerClusterStatus_DeepCopyInto h2 (Status c) of (h3, st) \<Rightarrow>
        (h3, c\<lparr>bc_TypeMeta := bc_TypeMeta c, bc_ObjectMeta := om, Spec := sp, Status := st\<rparr>))"

text \<open>The pointer versions: nil in, nil out.\<close>

definition BrokerCluster_DeepCopy :: "heap \<Rightarrow> addr option \<Rightarrow> heap \<times> addr option" where
  "BrokerCluster_DeepCopy h p =
     (case p of None \<Rightarrow> (h, None)
      | Some a \<Rightarrow>
          (case BrokerCluster_DeepCopyInto h (h_clusters h a) of (h1, c) \<Rightarrow>
           case alloc_cluster h1 c of (h2, b) \<Rightarrow> (h2, Some b)))"

definition BrokerClusterStatus_DeepCopy :: "heap \<Rightarrow> status_obj option \<Rightarrow> heap \<times> addr option" where
  "BrokerClusterStatus_DeepCopy h s =
     (case s of None \<Rightarrow> (h, None)
      | Some st \<Rightarrow>
          (case BrokerClusterStatus_DeepCopyInto h st of (h1, st') \<Rightarrow>
           case alloc_status h1 st' of (h2, b) \<Rightarrow> (h2, Some b)))"

definition BrokerClusterCondition_DeepCopy :: "heap \<Rightarrow> addr option \<Rightarrow> heap \<times> addr option" where
  "BrokerClusterCondition_DeepCopy h p =
     (case p of None \<Rightarrow> (h, None)
      | Some a \<Rightarrow>
          (case alloc_cond h (BrokerClusterCondition_DeepCopyInto (h_conds h a)) of
             (h1, b) \<Rightarrow> (h1, Some b)))"

text \<open>A spec is a part of a cluster struct; its standalone copy is a value here.\<close>

definition BrokerClusterSpec_DeepCopy :: "heap \<Rightarrow> spec_obj option \<Rightarrow> heap \<times> spec_obj option" where
  "BrokerClusterSpec_DeepCopy h s =
     (case s of None \<Rightarrow> (h, None)
      | Some sp \<Rightarrow> (case BrokerClusterSpec_DeepCopyInto h sp of (h1, sp') \<Rightarrow> (h1, Some sp')))"

text \<open>\<open>for i := range *in { (*in)[i].DeepCopyInto(&(*out)[i]) }\<close>\<close>

fun copy_items :: "heap \<Rightarrow> cluster_obj list \<Rightarrow> heap \<times> cluster_obj list" where
  "copy_items h [] = (h, [])"
| "copy_items h (c # cs) =
     (case BrokerCluster_DeepCopyInto h c of (h1, c') \<Rightarrow>
      case copy_items h1 cs of (h2, cs') \<Rightarrow> (h2, c' # cs'))"

definition BrokerClusterList_DeepCopyInto ::
    "heap \<Rightarrow> cluster_obj BrokerClusterList \<Rightarrow> heap \<times> cluster_obj BrokerClusterList" where
  "BrokerClusterList_DeepCopyInto h l =
     (case Items l of None \<Rightarrow> (h, l)
      | Some cs \<Rightarrow> (case copy_items h cs of (h1, cs') \<Rightarrow> (h1, l\<lparr>Items := Some cs'\<rparr>)))"

definition BrokerClusterList_DeepCopy ::
    "heap \<Rightarrow> cluster_obj BrokerClusterList option \<Rightarrow> heap \<times> cluster_obj BrokerClusterList option" where
  "BrokerClusterList_DeepCopy h l =
     (case l of None \<Rightarrow> (h, None)
      | Some li \<Rightarrow> (case BrokerClusterList_DeepCopyInto h li of (h1, li') \<Rightarrow> (h1, Some li')))"

text \<open>\<open>DeepCopyObject\<close> wraps the copied pointer into an interface value, or returns nil.\<close>

definition BrokerCluster_DeepCopyObject :: "heap \<Rightarrow> addr option \<Rightarrow> heap \<times> addr option" where
  "BrokerCluster_DeepCopyObject h p =
     (case BrokerCluster_DeepCopy h p of (h1, Some c) \<Rightarrow> (h1, Some c) | (h1, None) \<Rightarrow> (h1, None))"

definition BrokerClusterList_DeepCopyObject ::
    "heap \<Rightarrow> cluster_obj BrokerClusterList option \<Rightarrow> heap \<times> cluster_obj BrokerClusterList option" where
  "BrokerClusterList_DeepCopyObject h l =
     (case BrokerClusterList_DeepCopy h l of (h1, Some c) \<Rightarrow> (h1, Some c) | (h1, None) \<Rightarrow> (h1, None))"

section \<open>The contract of a copier\<close>

text \<open>
  Every copy function above, from one reference up to a whole cluster, keeps the same
  promises: the heap grows, the copy's references are new, and the copy has the same value
  as the original. \<open>refs\<close> are an object's references, \<open>val\<close> its value, \<open>ok\<close> its
  well-formedness.
\<close>

locale copier =
  fixes copy :: "heap \<Rightarrow> 'o \<Rightarrow> heap \<times> 'o"
    and refs :: "'o \<Rightarrow> addr set"
    and ok :: "heap \<Rightarrow> 'o \<Rightarrow> bool"
    and val :: "heap \<Rightarrow> 'o \<Rightarrow> 'v"
  assumes copy_le: "copy h x = (h', y) \<Longrightarrow> h \<le> h'"
    and copy_refs: "copy h x = (h', y) \<Longrightarrow> a \<in> refs y \<Longrightarrow> h_next h \<le> a \<and> a < h_next h'"
    and copy_val: "copy h x = (h', y) \<Longrightarrow> ok h x \<Longrightarrow> val h' y = val h x"
    and copy_ok: "copy h x = (h', y) \<Longrightarrow> ok h x \<Longrightarrow> ok h' y"
    and val_extends: "h \<le> h' \<Longrightarrow> ok h x \<Longrightarrow> val h' x = val h x"
    and ok_extends: "h \<le> h' \<Longrightarrow> ok h x \<Longrightarrow> ok h' x"
    and ok_refs: "ok h x \<Longrightarrow> a \<in> refs x \<Longrightarrow> a < h_next h"
begin

lemma copy_disjoint:
  assumes "copy h x = (h', y)" "ok h x"
  shows "refs y \<inter> refs x = {}"
  using copy_refs [OF assms(1)] ok_refs [OF assms(2)] by (fastforce simp: disjoint_iff)

text \<open>A copy made after another allocation still copies the original value.\<close>

lemma copy_val_later:
  assumes "h0 \<le> h" "copy h x = (h', y)" "ok h0 x"
  shows "val h' y = val h0 x"
proof -
  have "val h' y = val h x"
    using copy_val [OF assms(2)] ok_extends [OF assms(1,3)] by simp
  also have "\<dots> = val h0 x" by (rule val_extends [OF assms(1,3)])
  finally show ?thesis .
qed

lemma copy_ok_later:
  assumes "h0 \<le> h" "copy h x = (h', y)" "ok h0 x" "h' \<le> h''"
  shows "ok h'' y" and "val h'' y = val h0 x"
proof -
  have y: "ok h' y" using copy_ok [OF assms(2)] ok_extends [OF assms(1,3)] by simp
  then show "ok h'' y" by (rule ok_extends [OF assms(4)])
  show "val h'' y = val h0 x"
    using val_extends [OF assms(4) y] copy_val_later [OF assms(1-3)] by simp
qed

end

section \<open>References to maps, opaque cells and condition arrays\<close>

definition ref_ok :: "heap \<Rightarrow> addr option \<Rightarrow> bool" where
  "ref_ok h r \<longleftrightarrow> opt_all (\<lambda>a. a < h_next h) r"

definition slice_ref_ok :: "heap \<Rightarrow> slice option \<Rightarrow> bool" where
  "slice_ref_ok h r \<longleftrightarrow> opt_all (\<lambda>sl. sl_array sl < h_next h \<and> slice_ok h sl) r"

lemma ref_ok_extends: "h \<le> h' \<Longrightarrow> ref_ok h r \<Longrightarrow> ref_ok h' r"
  using heap_le_next [of h h'] by (cases r) (auto simp: ref_ok_def)

lemma slice_ref_ok_extends: "h \<le> h' \<Longrightarrow> slice_ref_ok h r \<Longrightarrow> slice_ref_ok h' r"
  using heap_le_next [of h h'] heap_le_reads(6) [of h h']
  by (cases r) (auto simp: slice_ref_ok_def slice_ok_def)

lemma condition_copy_id [simp]: "BrokerClusterCondition_DeepCopyInto c = c"
  by (simp add: BrokerClusterCondition_DeepCopyInto_def)

lemma map_condition_copy [simp]: "map BrokerClusterCondition_DeepCopyInto cs = cs"
  by (induction cs) simp_all

interpretation map_copy: copier copy_map set_option ref_ok "\<lambda>h. map_option (h_maps h)"
proof (unfold_locales, goal_cases)
  case (1 h x h' y)
  then show ?case
    by (auto simp: copy_map_def split: option.splits prod.splits intro: maps.alloc_extends)
next
  case (2 h x h' y a)
  then show ?case
    by (auto simp: copy_map_def split: option.splits prod.splits dest: maps.alloc_facts)
next
  case (3 h x h' y)
  then show ?case
    by (auto simp: copy_map_def split: option.splits prod.splits dest: maps.alloc_facts)
next
  case (4 h x h' y)
  then show ?case
    by (auto simp: copy_map_def ref_ok_def split: option.splits prod.splits
        dest: maps.alloc_facts)
next
  case (5 h h' x)
  then show ?case by (cases x) (auto simp: ref_ok_def heap_le_reads)
next
  case (6 h h' x)
  then show ?case by (rule ref_ok_extends)
next
  case (7 h x a)
  then show ?case by (auto simp: ref_ok_def)
qed

interpretation blob_copy: copier copy_blob set_option ref_ok "\<lambda>h. map_option (h_blobs h)"
proof (unfold_locales, goal_cases)
  case (1 h x h' y)
  then show ?case
    by (auto simp: copy_blob_def split: option.splits prod.splits intro: blobs.alloc_extends)
next
  case (2 h x h' y a)
  then show ?case
    by (auto simp: copy_blob_def split: option.splits prod.splits dest: blobs.alloc_facts)
next
  case (3 h x h' y)
  then show ?case
    by (auto simp: copy_blob_def split: option.splits prod.splits dest: blobs.alloc_facts)
next
  case (4 h x h' y)
  then show ?case
    by (auto simp: copy_blob_def ref_ok_def split: option.splits prod.splits
        dest: blobs.alloc_facts)
next
  case (5 h h' x)
  then show ?case by (cases x) (auto simp: ref_ok_def heap_le_reads)
next
  case (6 h h' x)
  then show ?case by (rule ref_ok_extends)
next
  case (7 h x a)
  then show ?case by (auto simp: ref_ok_def)
qed

interpretation cond_copy: copier copy_conditions "\<lambda>r. sl_array ` set_option r" slice_ref_ok
    "\<lambda>h. map_option (slice_val h)"
proof (unfold_locales, goal_cases)
  case (1 h x h' y)
  then show ?case
    by (auto simp: copy_conditions_def split: option.splits prod.splits
        intro: arrays.alloc_extends)
next
  case (2 h x h' y a)
  then show ?case
    by (auto simp: copy_conditions_def split: option.splits prod.splits
        dest: arrays.alloc_facts)
next
  case (3 h x h' y)
  then show ?case
    by (auto simp: copy_conditions_def slice_ref_ok_def slice_ok_def slice_val_def
        split: option.splits prod.splits dest: arrays.alloc_facts)
next
  case (4 h x h' y)
  then show ?case
    by (auto simp: copy_conditions_def slice_ref_ok_def slice_ok_def slice_val_def alloc_array_def
        split: option.splits prod.splits)
next
  case (5 h h' x)
  then show ?case by (cases x) (auto simp: slice_ref_ok_def slice_val_def heap_le_reads)
next
  case (6 h h' x)
  then show ?case by (rule slice_ref_ok_extends)
next
  case (7 h x a)
  then show ?case by (auto simp: slice_ref_ok_def)
qed

section \<open>Structs\<close>

definition meta_ok :: "heap \<Rightarrow> addr ObjectMeta \<Rightarrow> bool" where
  "meta_ok h om \<longleftrightarrow> ref_ok h (om_Labels om)"

definition spec_ok :: "heap \<Rightarrow> spec_obj \<Rightarrow> bool" where
  "spec_ok h s \<longleftrightarrow>
     ref_ok h (Properties s) \<and> ref_ok h (NodeSelector s) \<and> ref_ok h (Affinity s) \<and>
     ref_ok h (VolumeClaimTemplate s) \<and> ref_ok h (Config s)"

lemma ref_ok_refs: "ref_ok h r \<longleftrightarrow> (\<forall>a \<in> set_option r. a < h_next h)"
  by (cases r) (auto simp: ref_ok_def)

lemma meta_ok_refs: "meta_ok h om \<longleftrightarrow> (\<forall>a \<in> meta_refs om. a < h_next h)"
  by (simp add: meta_ok_def meta_refs_def ref_ok_refs)

lemma spec_ok_refs: "spec_ok h s \<longleftrightarrow> (\<forall>a \<in> spec_refs s. a < h_next h)"
  by (auto simp: spec_ok_def spec_refs_def ref_ok_refs)

lemma wf_status_parts:
  "wf_status h s \<longleftrightarrow> meta_ok h (status_ObjectMeta s) \<and> slice_ref_ok h (Conditions s)"
  by (cases "Conditions s") (auto simp: wf_status_def status_refs_def meta_ok_refs slice_ref_ok_def)

lemma wf_cluster_parts:
  "wf_cluster h c \<longleftrightarrow> meta_ok h (bc_ObjectMeta c) \<and> spec_ok h (Spec c) \<and> wf_status h (Status c)"
  by (auto simp: wf_cluster_def wf_status_def cluster_refs_def meta_ok_refs spec_ok_refs)

interpretation meta_copy: copier ObjectMeta_DeepCopyInto meta_refs meta_ok meta_val_of
proof (unfold_locales, goal_cases)
  case (1 h x h' y)
  then show ?case
    by (auto simp: ObjectMeta_DeepCopyInto_def split: prod.splits intro: map_copy.copy_le)
next
  case (2 h x h' y a)
  then show ?case
    by (auto simp: ObjectMeta_DeepCopyInto_def meta_refs_def split: prod.splits
        dest: map_copy.copy_refs)
next
  case (3 h x h' y)
  then obtain l where l: "copy_map h (om_Labels x) = (h', l)" "y = x\<lparr>om_Labels := l\<rparr>"
    by (auto simp: ObjectMeta_DeepCopyInto_def split: prod.splits)
  then show ?case
    using 3 map_copy.copy_val [OF l(1)] by (simp add: meta_ok_def meta_val_of_def meta_map_def)
next
  case (4 h x h' y)
  then show ?case
    by (auto simp: ObjectMeta_DeepCopyInto_def meta_ok_def split: prod.splits
        dest: map_copy.copy_ok)
next
  case (5 h h' x)
  then show ?case
    using map_copy.val_extends [of h h' "om_Labels x"]
    by (simp add: meta_ok_def meta_val_of_def meta_map_def)
next
  case (6 h h' x)
  then show ?case using ref_ok_extends by (auto simp: meta_ok_def)
next
  case (7 h x a)
  then show ?case by (simp add: meta_ok_refs)
qed

text \<open>The chain of copies of a spec, with the heaps between them.\<close>

lemma spec_copy_steps:
  assumes "BrokerClusterSpec_DeepCopyInto h s = (h', s')"
  obtains h1 h2 h3 h4 p n a v c where
    "copy_map h (Properties s) = (h1, p)" "copy_map h1 (NodeSelector s) = (h2, n)"
    "copy_blob h2 (Affinity s) = (h3, a)" "copy_blob h3 (VolumeClaimTemplate s) = (h4, v)"
    "copy_blob h4 (Config s) = (h', c)"
    "s' = s\<lparr>Properties := p, NodeSelector := n, Affinity := a, VolumeClaimTemplate := v, Config := c\<rparr>"
    "h \<le> h1" "h1 \<le> h2" "h2 \<le> h3" "h3 \<le> h4" "h4 \<le> h'"
proof -
  obtain h1 p where 1: "copy_map h (Properties s) = (h1, p)" by fastforce
  obtain h2 n where 2: "copy_map h1 (NodeSelector s) = (h2, n)" by fastforce
  obtain h3 a where 3: "copy_blob h2 (Affinity s) = (h3, a)" by fastforce
  obtain h4 v where 4: "copy_blob h3 (VolumeClaimTemplate s) = (h4, v)" by fastforce
  obtain h5 c where 5: "copy_blob h4 (Config s) = (h5, c)" by fastforce
  have "h5 = h'" and eq: "s' = s\<lparr>Properties := p, NodeSelector := n, Affinity := a,
      VolumeClaimTemplate := v, Config := c\<rparr>"
    using assms by (simp_all add: BrokerClusterSpec_DeepCopyInto_def 1 2 3 4 5)
  with 5 have 6: "copy_blob h4 (Config s) = (h', c)" by simp
  show thesis
    by (rule that [OF 1 2 3 4 6 eq map_copy.copy_le [OF 1] map_copy.copy_le [OF 2]
          blob_copy.copy_le [OF 3] blob_copy.copy_le [OF 4] blob_copy.copy_le [OF 6]])
qed

interpretation spec_copy: copier BrokerClusterSpec_DeepCopyInto spec_refs spec_ok spec_val_of
proof (unfold_locales, goal_cases)
  case (1 h x h' y)
  then show ?case by (rule spec_copy_steps) (meson order_trans)
next
  case (2 h x h' y a)
  from 2(1) show ?case
  proof (rule spec_copy_steps, goal_cases)
    case (1 h1 h2 h3 h4 p n af v c)
    then have "h_next h \<le> h_next h1" "h_next h1 \<le> h_next h2" "h_next h2 \<le> h_next h3"
      "h_next h3 \<le> h_next h4" "h_next h4 \<le> h_next h'"
      by (simp_all add: heap_le_next)
    moreover have "a \<in> set_option p \<or> a \<in> set_option n \<or> a \<in> set_option af \<or>
        a \<in> set_option v \<or> a \<in> set_option c"
      using 2(2) 1(6) by (simp add: spec_refs_def)
    ultimately show ?case
      using map_copy.copy_refs [OF 1(1)] map_copy.copy_refs [OF 1(2)]
        blob_copy.copy_refs [OF 1(3)] blob_copy.copy_refs [OF 1(4)] blob_copy.copy_refs [OF 1(5)]
      by (elim disjE) fastforce+
  qed
next
  case (3 h x h' y)
  from 3(1) show ?case
  proof (rule spec_copy_steps, goal_cases)
    case (1 h1 h2 h3 h4 p n a v c)
    note ok = 3(2) [unfolded spec_ok_def]
    have le: "h \<le> h2" "h \<le> h3" "h \<le> h4" "h1 \<le> h'" "h2 \<le> h'" "h3 \<le> h'"
      using 1(7-11) by (meson order_trans)+
    have "map_option (h_maps h') p = map_option (h_maps h) (Properties x)"
      "map_option (h_maps h') n = map_option (h_maps h) (NodeSelector x)"
      "map_option (h_blobs h') a = map_option (h_blobs h) (Affinity x)"
      "map_option (h_blobs h') v = map_option (h_blobs h) (VolumeClaimTemplate x)"
      "map_option (h_blobs h') c = map_option (h_blobs h) (Config x)"
      using ok map_copy.copy_ok_later(2) [OF order_refl 1(1) _ le(4)]
        map_copy.copy_ok_later(2) [OF 1(7,2) _ le(5)] blob_copy.copy_ok_later(2) [OF le(1) 1(3) _ le(6)]
        blob_copy.copy_ok_later(2) [OF le(2) 1(4) _ 1(11)] blob_copy.copy_val_later [OF le(3) 1(5)]
      by blast+
    then show ?case by (simp add: 1(6) spec_val_of_def spec_map_def)
  qed
next
  case (4 h x h' y)
  from 4(1) show ?case
  proof (rule spec_copy_steps, goal_cases)
    case (1 h1 h2 h3 h4 p n a v c)
    note ok = 4(2) [unfolded spec_ok_def]
    have le: "h \<le> h2" "h \<le> h3" "h \<le> h4" "h1 \<le> h'" "h2 \<le> h'" "h3 \<le> h'"
      using 1(7-11) by (meson order_trans)+
    have "ref_ok h' p" "ref_ok h' n" "ref_ok h' a" "ref_ok h' v" "ref_ok h' c"
      using ok map_copy.copy_ok_later(1) [OF order_refl 1(1) _ le(4)]
        map_copy.copy_ok_later(1) [OF 1(7,2) _ le(5)] blob_copy.copy_ok_later(1) [OF le(1) 1(3) _ le(6)]
        blob_copy.copy_ok_later(1) [OF le(2) 1(4) _ 1(11)]
        blob_copy.copy_ok_later(1) [OF le(3) 1(5) _ order_refl]
      by blast+
    then show ?case by (simp add: 1(6) spec_ok_def)
  qed
next
  case (5 h h' x)
  then show ?case
    using map_copy.val_extends [OF 5(1), of "Properties x"] map_copy.val_extends [OF 5(1), of "NodeSelector x"]
      blob_copy.val_extends [OF 5(1), of "Affinity x"] blob_copy.val_extends [OF 5(1), of "Config x"]
      blob_copy.val_extends [OF 5(1), of "VolumeClaimTemplate x"]
    by (simp add: spec_ok_def spec_val_of_def spec_map_def)
next
  case (6 h h' x)
  then show ?case using ref_ok_extends [OF 6(1)] by (auto simp: spec_ok_def)
next
  case (7 h x a)
  then show ?case by (simp add: spec_ok_refs)
qed

lemma status_copy_steps:
  assumes "BrokerClusterStatus_DeepCopyInto h s = (h', s')"
  obtains h1 om cs where
    "ObjectMeta_DeepCopyInto h (status_ObjectMeta s) = (h1, om)"
    "copy_conditions h1 (Conditions s) = (h', cs)"
    "s' = s\<lparr>status_ObjectMeta := om, Conditions := cs\<rparr>" "h \<le> h1" "h1 \<le> h'"
proof -
  obtain h1 om where 1: "ObjectMeta_DeepCopyInto h (status_ObjectMeta s) = (h1, om)" by fastforce
  obtain h2 cs where 2: "copy_conditions h1 (Conditions s) = (h2, cs)" by fastforce
  have "h2 = h'" and eq: "s' = s\<lparr>status_ObjectMeta := om, Conditions := cs\<rparr>"
    using assms by (simp_all add: BrokerClusterStatus_DeepCopyInto_def 1 2)
  with 2 have 3: "copy_conditions h1 (Conditions s) = (h', cs)" by simp
  show thesis
    by (rule that [OF 1 3 eq meta_copy.copy_le [OF 1] cond_copy.copy_le [OF 3]])
qed

interpretation status_copy: copier BrokerClusterStatus_DeepCopyInto status_refs wf_status status_val_of
proof (unfold_locales, goal_cases)
  case (1 h x h' y)
  then show ?case by (rule status_copy_steps) (meson order_trans)
next
  case (2 h x h' y a)
  from 2(1) show ?case
  proof (rule status_copy_steps, goal_cases)
    case (1 h1 om cs)
    have "a \<in> meta_refs om \<or> a \<in> sl_array ` set_option cs"
      using 2(2) 1(3) by (simp add: status_refs_def)
    then show ?case
      using meta_copy.copy_refs [OF 1(1), of a] cond_copy.copy_refs [OF 1(2), of a]
        heap_le_next [OF 1(4)] heap_le_next [OF 1(5)]
      by (elim disjE) fastforce+
  qed
next
  case (3 h x h' y)
  from 3(1) show ?case
  proof (rule status_copy_steps, goal_cases)
    case (1 h1 om cs)
    have "meta_val_of h' om = meta_val_of h (status_ObjectMeta x)"
      "map_option (slice_val h') cs = map_option (slice_val h) (Conditions x)"
      using 3(2) meta_copy.copy_ok_later(2) [OF order_refl 1(1) _ 1(5)]
        cond_copy.copy_val_later [OF 1(4,2)] by (auto simp: wf_status_parts)
    then show ?case by (simp add: 1(3) status_val_of_def status_map_def meta_val_of_def)
  qed
next
  case (4 h x h' y)
  from 4(1) show ?case
  proof (rule status_copy_steps, goal_cases)
    case (1 h1 om cs)
    then show ?case
      using 4(2) meta_copy.copy_ok_later(1) [OF order_refl 1(1) _ 1(5)]
        cond_copy.copy_ok_later(1) [OF 1(4,2) _ order_refl] by (auto simp: wf_status_parts)
  qed
next
  case (5 h h' x)
  then show ?case
    using meta_copy.val_extends [OF 5(1), of "status_ObjectMeta x"]
      cond_copy.val_extends [OF 5(1), of "Conditions x"]
    by (simp add: wf_status_parts status_val_of_def status_map_def meta_val_of_def)
next
  case (6 h h' x)
  then show ?case
    using meta_copy.ok_extends [OF 6(1)] cond_copy.ok_extends [OF 6(1)]
    by (simp add: wf_status_parts)
next
  case (7 h x a)
  then show ?case by (simp add: wf_status_def)
qed

lemma cluster_copy_steps:
  assumes "BrokerCluster_DeepCopyInto h c = (h', c')"
  obtains h1 h2 om sp st where
    "ObjectMeta_DeepCopyInto h (bc_ObjectMeta c) = (h1, om)"
    "BrokerClusterSpec_DeepCopyInto h1 (Spec c) = (h2, sp)"
    "BrokerClusterStatus_DeepCopyInto h2 (Status c) = (h', st)"
    "c' = c\<lparr>bc_ObjectMeta := om, Spec := sp, Status := st\<rparr>" "h \<le> h1" "h1 \<le> h2" "h2 \<le> h'"
proof -
  obtain h1 om where 1: "ObjectMeta_DeepCopyInto h (bc_ObjectMeta c) = (h1, om)" by fastforce
  obtain h2 sp where 2: "BrokerClusterSpec_DeepCopyInto h1 (Spec c) = (h2, sp)" by fastforce
  obtain h3 st where 3: "BrokerClusterStatus_DeepCopyInto h2 (Status c) = (h3, st)" by fastforce
  have "h3 = h'" and eq: "c' = c\<lparr>bc_ObjectMeta := om, Spec := sp, Status := st\<rparr>"
    using assms by (simp_all add: BrokerCluster_DeepCopyInto_def 1 2 3)
  with 3 have 4: "BrokerClusterStatus_DeepCopyInto h2 (Status c) = (h', st)" by simp
  show thesis
    by (rule that [OF 1 2 4 eq meta_copy.copy_le [OF 1] spec_copy.copy_le [OF 2]
          status_copy.copy_le [OF 4]])
qed

interpretation cluster_copy: copier BrokerCluster_DeepCopyInto cluster_refs wf_cluster cluster_val_of
proof (unfold_locales, goal_cases)
  case (1 h x h' y)
  then show ?case by (rule cluster_copy_steps) (meson order_trans)
next
  case (2 h x h' y a)
  from 2(1) show ?case
  proof (rule cluster_copy_steps, goal_cases)
    case (1 h1 h2 om sp st)
    have "a \<in> meta_refs om \<or> a \<in> spec_refs sp \<or> a \<in> status_refs st"
      using 2(2) 1(4) by (simp add: cluster_refs_def)
    then show ?case
      using meta_copy.copy_refs [OF 1(1), of a] spec_copy.copy_refs [OF 1(2), of a]
        status_copy.copy_refs [OF 1(3), of a]
        heap_le_next [OF 1(5)] heap_le_next [OF 1(6)] heap_le_next [OF 1(7)]
      by (elim disjE) fastforce+
  qed
next
  case (3 h x h' y)
  from 3(1) show ?case
  proof (rule cluster_copy_steps, goal_cases)
    case (1 h1 h2 om sp st)
    have le: "h \<le> h2" "h1 \<le> h'" using 1(5-7) by (meson order_trans)+
    have "meta_val_of h' om = meta_val_of h (bc_ObjectMeta x)"
      "spec_val_of h' sp = spec_val_of h (Spec x)" "status_val_of h' st = status_val_of h (Status x)"
      using 3(2) meta_copy.copy_ok_later(2) [OF order_refl 1(1) _ le(2)]
        spec_copy.copy_ok_later(2) [OF 1(5,2) _ 1(7)] status_copy.copy_val_later [OF le(1) 1(3)]
      by (auto simp: wf_cluster_parts)
    then show ?case
      by (simp add: 1(4) cluster_val_of_def cluster_map_def meta_val_of_def spec_val_of_def
          status_val_of_def)
  qed
next
  case (4 h x h' y)
  from 4(1) show ?case
  proof (rule cluster_copy_steps, goal_cases)
    case (1 h1 h2 om sp st)
    have le: "h \<le> h2" "h1 \<le> h'" using 1(5-7) by (meson order_trans)+
    show ?case
      using 4(2) 1(4) meta_copy.copy_ok_later(1) [OF order_refl 1(1) _ le(2)]
        spec_copy.copy_ok_later(1) [OF 1(5,2) _ 1(7)]
        status_copy.copy_ok_later(1) [OF le(1) 1(3) _ order_refl]
      by (auto simp: wf_cluster_parts)
  qed
next
  case (5 h h' x)
  then show ?case by (rule cluster_val_extends)
next
  case (6 h h' x)
  then show ?case by (rule wf_cluster_extends)
next
  case (7 h x a)
  then show ?case by (rule wf_cluster_refs)
qed

lemma copy_items_le: "copy_items h cs = (h', cs') \<Longrightarrow> h \<le> h'"
  by (induction cs arbitrary: h h' cs')
     (auto split: prod.splits dest: cluster_copy.copy_le intro: order_trans)

lemma copy_items_steps:
  assumes "copy_items h (c # cs) = (h', y)"
  obtains h1 c' cs' where "BrokerCluster_DeepCopyInto h c = (h1, c')" "copy_items h1 cs = (h', cs')"
    "y = c' # cs'" "h \<le> h1" "h1 \<le> h'"
  using assms cluster_copy.copy_le copy_items_le by (auto split: prod.splits)

interpretation items_copy: copier copy_items "\<lambda>cs. \<Union> (cluster_refs ` set cs)"
    "\<lambda>h cs. \<forall>c \<in> set cs. wf_cluster h c" "\<lambda>h. map (cluster_val_of h)"
proof (unfold_locales, goal_cases)
  case (1 h x h' y)
  then show ?case by (rule copy_items_le)
next
  case (2 h x h' y a)
  then show ?case
  proof (induction x arbitrary: h h' y)
    case (Cons c cs)
    obtain h1 c' cs' where st: "BrokerCluster_DeepCopyInto h c = (h1, c')"
      "copy_items h1 cs = (h', cs')" "y = c' # cs'" and le: "h \<le> h1" and le': "h1 \<le> h'"
      using Cons.prems(1) by (rule copy_items_steps)
    have "a \<in> cluster_refs c' \<or> a \<in> \<Union> (cluster_refs ` set cs')"
      using Cons.prems(2) st(3) by simp
    then show ?case
    proof
      assume "a \<in> cluster_refs c'"
      then show ?case using cluster_copy.copy_refs [OF st(1)] heap_le_next [OF le'] by fastforce
    next
      assume "a \<in> \<Union> (cluster_refs ` set cs')"
      then show ?case using Cons.IH [OF st(2)] heap_le_next [OF le] by fastforce
    qed
  qed simp
next
  case (3 h x h' y)
  then show ?case
  proof (induction x arbitrary: h h' y)
    case (Cons c cs)
    obtain h1 c' cs' where st: "BrokerCluster_DeepCopyInto h c = (h1, c')"
      "copy_items h1 cs = (h', cs')" "y = c' # cs'" and le: "h \<le> h1" and le': "h1 \<le> h'"
      using Cons.prems(1) by (rule copy_items_steps)
    have cs: "\<forall>c \<in> set cs. wf_cluster h1 c"
      using Cons.prems(2) wf_cluster_extends [OF le] by simp
    have "map (cluster_val_of h1) cs = map (cluster_val_of h) cs"
      using Cons.prems(2) cluster_val_extends [OF le] by simp
    then show ?case
      using Cons.IH [OF st(2) cs] cluster_copy.copy_ok_later(2) [OF order_refl st(1) _ le']
        Cons.prems(2) st(3) by simp
  qed simp
next
  case (4 h x h' y)
  then show ?case
  proof (induction x arbitrary: h h' y)
    case (Cons c cs)
    obtain h1 c' cs' where st: "BrokerCluster_DeepCopyInto h c = (h1, c')"
      "copy_items h1 cs = (h', cs')" "y = c' # cs'" and le: "h \<le> h1" and le': "h1 \<le> h'"
      using Cons.prems(1) by (rule copy_items_steps)
    have cs: "\<forall>c \<in> set cs. wf_cluster h1 c"
      using Cons.prems(2) wf_cluster_extends [OF le] by simp
    then show ?case
      using Cons.IH [OF st(2) cs] cluster_copy.copy_ok_later(1) [OF order_refl st(1) _ le']
        Cons.prems(2) st(3) by simp
  qed simp
next
  case (5 h h' x)
  then show ?case by (simp add: cluster_val_extends)
next
  case (6 h h' x)
  then show ?case by (simp add: wf_cluster_extends)
next
  case (7 h x a)
  then show ?case by (auto dest: wf_cluster_refs)
qed

section \<open>Copies of pointers\<close>

text \<open>What \<open>DeepCopy\<close> of a cluster pointer returns, in one statement.\<close>

lemma DeepCopy_None [simp]: "BrokerCluster_DeepCopy h None = (h, None)"
  by (simp add: BrokerCluster_DeepCopy_def)

lemma DeepCopy_Some:
  assumes "BrokerCluster_DeepCopy h (Some p) = (h', r)"
  obtains h1 c q where "BrokerCluster_DeepCopyInto h (h_clusters h p) = (h1, c)"
    "alloc_cluster h1 c = (h', q)" "r = Some q" "h \<le> h1" "h1 \<le> h'"
proof -
  obtain h1 c where 1: "BrokerCluster_DeepCopyInto h (h_clusters h p) = (h1, c)" by fastforce
  obtain h2 q where 2: "alloc_cluster h1 c = (h2, q)" by fastforce
  have "h2 = h'" "r = Some q"
    using assms by (simp_all add: BrokerCluster_DeepCopy_def 1 2)
  with 1 2 show thesis
    using that cluster_copy.copy_le [OF 1] clusters.alloc_extends [OF 2] by simp
qed

lemma DeepCopy_ptr:
  assumes copy: "BrokerCluster_DeepCopy h (Some p) = (h', Some q)"
  shows "h \<le> h'" and "h_next h \<le> q" and "q < h_next h'"
    and "\<And>a. a \<in> cluster_refs (h_clusters h' q) \<Longrightarrow> h_next h \<le> a \<and> a < h_next h'"
    and "q \<notin> cluster_refs (h_clusters h' q)"
    and "wf_ptr h p \<Longrightarrow> cluster_at h' q = cluster_at h p"
    and "wf_ptr h p \<Longrightarrow> wf_ptr h' q"
proof -
  from copy obtain h1 c where into: "BrokerCluster_DeepCopyInto h (h_clusters h p) = (h1, c)"
    and al: "alloc_cluster h1 c = (h', q)" and le: "h \<le> h1" "h1 \<le> h'"
    by (auto elim: DeepCopy_Some)
  have cell: "h_clusters h' q = c" and q: "q = h_next h1" "h_next h' = Suc (h_next h1)"
    using clusters.alloc_cell [OF al] clusters.alloc_addr [OF al] clusters.alloc_next [OF al] by auto
  show ext: "h \<le> h'" using le by (rule order_trans)
  show fresh: "h_next h \<le> q" "q < h_next h'" using q heap_le_next [OF le(1)] by auto
  show "h_next h \<le> a \<and> a < h_next h'" if "a \<in> cluster_refs (h_clusters h' q)" for a
    using that [unfolded cell] cluster_copy.copy_refs [OF into, of a] q(2) by simp
  show "q \<notin> cluster_refs (h_clusters h' q)"
    unfolding cell using cluster_copy.copy_refs [OF into, of q] q(1) by auto
  assume wf: "wf_ptr h p"
  then have ok: "wf_cluster h (h_clusters h p)" by (simp add: wf_ptr_def)
  show "cluster_at h' q = cluster_at h p"
    using cluster_copy.copy_ok_later(2) [OF order_refl into ok le(2)]
    by (simp add: cluster_at_def cell)
  show "wf_ptr h' q"
    using cluster_copy.copy_ok_later(1) [OF order_refl into ok le(2)] fresh
    by (simp add: wf_ptr_def cell)
qed

lemma Status_DeepCopy_Some:
  assumes "BrokerClusterStatus_DeepCopy h (Some s) = (h', r)"
  obtains h1 s' q where "BrokerClusterStatus_DeepCopyInto h s = (h1, s')"
    "alloc_status h1 s' = (h', q)" "r = Some q" "h \<le> h1" "h1 \<le> h'"
proof -
  obtain h1 c where 1: "BrokerClusterStatus_DeepCopyInto h s = (h1, c)" by fastforce
  obtain h2 q where 2: "alloc_status h1 c = (h2, q)" by fastforce
  have "h2 = h'" "r = Some q"
    using assms by (simp_all add: BrokerClusterStatus_DeepCopy_def 1 2)
  with 1 2 show thesis
    using that status_copy.copy_le [OF 1] statuses.alloc_extends [OF 2] by simp
qed

lemma Status_DeepCopy_ptr:
  assumes copy: "BrokerClusterStatus_DeepCopy h (Some s) = (h', Some q)"
  shows "h \<le> h'" and "h_next h \<le> q" and "q < h_next h'"
    and "\<And>a. a \<in> status_refs (h_statuses h' q) \<Longrightarrow> h_next h \<le> a \<and> a < h_next h'"
    and "wf_status h s \<Longrightarrow> status_val_of h' (h_statuses h' q) = status_val_of h s"
    and "wf_status h s \<Longrightarrow> wf_status h' (h_statuses h' q)"
proof -
  from copy obtain h1 s' where into: "BrokerClusterStatus_DeepCopyInto h s = (h1, s')"
    and al: "alloc_status h1 s' = (h', q)" and le: "h \<le> h1" "h1 \<le> h'"
    by (auto elim: Status_DeepCopy_Some)
  have cell: "h_statuses h' q = s'" and q: "q = h_next h1" "h_next h' = Suc (h_next h1)"
    using statuses.alloc_cell [OF al] statuses.alloc_addr [OF al] statuses.alloc_next [OF al] by auto
  show "h \<le> h'" using le by (rule order_trans)
  show "h_next h \<le> q" "q < h_next h'" using q heap_le_next [OF le(1)] by auto
  show "h_next h \<le> a \<and> a < h_next h'" if "a \<in> status_refs (h_statuses h' q)" for a
    using that [unfolded cell] status_copy.copy_refs [OF into, of a] q(2) by simp
  assume wf: "wf_status h s"
  show "status_val_of h' (h_statuses h' q) = status_val_of h s"
    using status_copy.copy_ok_later(2) [OF order_refl into wf le(2)] by (simp add: cell)
  show "wf_status h' (h_statuses h' q)"
    using status_copy.copy_ok_later(1) [OF order_refl into wf le(2)] by (simp add: cell)
qed

text \<open>
  A write to one cell. The operator writes maps in place (\<open>EnsureDefaults\<close>), conditions
  through a pointer into a slice, and fields of a cluster struct.
\<close>

datatype heap_write =
    WriteCluster addr cluster_obj
  | WriteMap addr strmap
  | WriteBlob addr blob
  | WriteArray addr "BrokerClusterCondition list"

fun write_addr :: "heap_write \<Rightarrow> addr" where
  "write_addr (WriteCluster a _) = a"
| "write_addr (WriteMap a _) = a"
| "write_addr (WriteBlob a _) = a"
| "write_addr (WriteArray a _) = a"

fun apply_write :: "heap \<Rightarrow> heap_write \<Rightarrow> heap" where
  "apply_write h (WriteCluster a c) = h\<lparr>h_clusters := (h_clusters h)(a := c)\<rparr>"
| "apply_write h (WriteMap a m) = h\<lparr>h_maps := (h_maps h)(a := m)\<rparr>"
| "apply_write h (WriteBlob a b) = h\<lparr>h_blobs := (h_blobs h)(a := b)\<rparr>"
| "apply_write h (WriteArray a cs) = h\<lparr>h_arrays := (h_arrays h)(a := cs)\<rparr>"

definition apply_writes :: "heap \<Rightarrow> heap_write list \<Rightarrow> heap" where
  "apply_writes = foldl apply_write"

lemma write_frame:
  assumes "write_addr w \<noteq> p" "write_addr w \<notin> cluster_refs (h_clusters h p)"
  shows "h_clusters (apply_write h w) p = h_clusters h p"
    and "cluster_at (apply_write h w) p = cluster_at h p"
proof -
  show same: "h_clusters (apply_write h w) p = h_clusters h p"
    using assms(1) by (cases w) auto
  have "cluster_val_of (apply_write h w) (h_clusters h p) = cluster_val_of h (h_clusters h p)"
    using assms(2) by (intro cluster_val_cong) (cases w; auto)
  with same show "cluster_at (apply_write h w) p = cluster_at h p" by (simp add: cluster_at_def)
qed

lemma writes_frame:
  assumes "\<And>w. w \<in> set ws \<Longrightarrow>
      write_addr w \<noteq> p \<and> write_addr w \<notin> cluster_refs (h_clusters h p)"
  shows "cluster_at (apply_writes h ws) p = cluster_at h p"
  using assms
proof (induction ws arbitrary: h)
  case Nil
  then show ?case by (simp add: apply_writes_def)
next
  case (Cons w ws)
  have w: "write_addr w \<noteq> p" "write_addr w \<notin> cluster_refs (h_clusters h p)"
    using Cons.prems [of w] by auto
  have "cluster_at (apply_writes (apply_write h w) ws) p = cluster_at (apply_write h w) p"
    using Cons.prems by (intro Cons.IH) (simp add: write_frame(1) [OF w])
  then show ?case using write_frame(2) [OF w] by (simp add: apply_writes_def)
qed

text \<open>
  C24: \<open>DeepCopy\<close> of a cluster gives an equal and independent object. The copy reads the
  same as the original; it is made of new cells only; no cluster that existed before
  reads differently afterwards, not even after any sequence of writes to cells allocated
  by the copy or later; and no sequence of writes to older cells shows through the copy.
\<close>

theorem DeepCopy_equal_and_independent:
  assumes copy: "BrokerCluster_DeepCopy h (Some p) = (h', Some q)"
    and p: "wf_ptr h p" and r: "wf_ptr h r"
  shows "cluster_at h' q = cluster_at h p \<and>
    (\<forall>a \<in> insert q (cluster_refs (h_clusters h' q)). h_next h \<le> a) \<and>
    (\<forall>ws. (\<forall>w \<in> set ws. h_next h \<le> write_addr w) \<longrightarrow>
       cluster_at (apply_writes h' ws) r = cluster_at h r) \<and>
    (\<forall>ws. (\<forall>w \<in> set ws. write_addr w < h_next h) \<longrightarrow>
       cluster_at (apply_writes h' ws) q = cluster_at h p)"
proof (intro conjI allI impI)
  note ptr = DeepCopy_ptr [OF copy]
  show eq: "cluster_at h' q = cluster_at h p" by (rule ptr(6) [OF p])
  show new: "\<forall>a \<in> insert q (cluster_refs (h_clusters h' q)). h_next h \<le> a"
    using ptr(2,4) by auto
  fix ws
  show "cluster_at (apply_writes h' ws) q = cluster_at h p"
    if "\<forall>w \<in> set ws. write_addr w < h_next h"
    using that new eq by (subst writes_frame) fastforce+
  have "h_clusters h' r = h_clusters h r"
    using r ptr(1) by (simp add: wf_ptr_def heap_le_reads)
  then have "a < h_next h" if "a \<in> insert r (cluster_refs (h_clusters h' r))" for a
    using that r by (auto simp: wf_ptr_def dest: wf_cluster_refs)
  then show "cluster_at (apply_writes h' ws) r = cluster_at h r"
    if "\<forall>w \<in> set ws. h_next h \<le> write_addr w"
    using that cluster_at_extends [OF ptr(1) r] by (subst writes_frame) fastforce+
qed

theorem DeepCopy_equal_and_independent_witness:
  "cluster_at (fst (BrokerCluster_DeepCopy sample_heap (Some 0)))
     (the (snd (BrokerCluster_DeepCopy sample_heap (Some 0)))) = cluster_at sample_heap 0"
proof -
  have "\<exists>q. snd (BrokerCluster_DeepCopy sample_heap (Some 0)) = Some q"
    by (simp add: BrokerCluster_DeepCopy_def split: prod.split)
  then show ?thesis
    using DeepCopy_equal_and_independent [OF _ sample_wf sample_wf] by (metis option.sel prod.collapse)
qed

end
