(* ===== verification/Defaults.thy ===== *)
theory Defaults
  imports Deep_Copy
begin

text \<open>
  \<open>BrokerCluster.EnsureDefaults\<close> (\<open>helpers.go\<close>): the defaults for fields the user left out.
  The method writes through its receiver: into the fields of the spec, and into the
  properties map in place (a fresh map when it was nil). \<open>defaulted_spec\<close> is the abstract
  specification on values; the heap operation is shown to implement it and to leave
  every object that does not share the receiver's properties map alone.
\<close>

section \<open>Constants\<close>

definition defaultBrokerImage :: string where
  "defaultBrokerImage = ''huanwei/rocketmq-broker:4.3.0-operator''"

definition defaultGroups :: int32 where
  "defaultGroups = 2"

definition defaultMembersPerGroup :: int32 where
  "defaultMembersPerGroup = 2"

definition defaultDeleteWhen :: string where
  "defaultDeleteWhen = ''04''"

definition defaultFileReservedTime :: string where
  "defaultFileReservedTime = ''48''"

definition defaultReplicationMode :: string where
  "defaultReplicationMode = ''SYNC''"

definition defaultFlushDiskType :: string where
  "defaultFlushDiskType = ''ASYNC_FLUSH''"

lemmas default_constants =
  defaultBrokerImage_def defaultGroups_def defaultMembersPerGroup_def defaultDeleteWhen_def
  defaultFileReservedTime_def defaultReplicationMode_def defaultFlushDiskType_def

section \<open>The method\<close>

text \<open>\<open>if c.Spec.Properties[k] == "" { c.Spec.Properties[k] = v }\<close>, on the map at \<open>a\<close>\<close>

definition default_property :: "addr \<Rightarrow> string \<Rightarrow> string \<Rightarrow> heap \<Rightarrow> heap" where
  "default_property a k v h =
     (if go_lookup (h_maps h a) k = ''''
      then h\<lparr>h_maps := (h_maps h)(a := (h_maps h a)(k \<mapsto> v))\<rparr> else h)"

definition EnsureDefaults :: "heap \<Rightarrow> addr \<Rightarrow> heap" where
  "EnsureDefaults h c =
     (let s0 = Spec (h_clusters h c);
          s1 = (if BrokerImage s0 = '''' then s0\<lparr>BrokerImage := defaultBrokerImage\<rparr> else s0);
          s2 = (if GroupReplica s1 = 0 then s1\<lparr>GroupReplica := defaultGroups\<rparr> else s1);
          s3 = (if MembersPerGroup s2 = 0 then s2\<lparr>MembersPerGroup := defaultMembersPerGroup\<rparr> else s2);
          (h1, props) =
            (case Properties s3 of
               None \<Rightarrow> alloc_map h Map.empty
             | Some a \<Rightarrow> (h, a));
          s4 = s3\<lparr>Properties := Some props\<rparr>;
          h2 = h1\<lparr>h_clusters := (h_clusters h1)(c := (h_clusters h1 c)\<lparr>Spec := s4\<rparr>)\<rparr>;
          h3 = default_property props ''DELETE_WHEN'' defaultDeleteWhen h2;
          h4 = default_property props ''FILE_RESERVED_TIME'' defaultFileReservedTime h3;
          h5 = default_property props ''REPLICATION_MODE'' defaultReplicationMode h4
      in default_property props ''FLUSH_DISK_TYPE'' defaultFlushDiskType h5)"

section \<open>The specification on values\<close>

definition or_else :: "string \<Rightarrow> string \<Rightarrow> string" where
  "or_else x d = (if x = '''' then d else x)"

definition set_default :: "string \<Rightarrow> string \<Rightarrow> strmap \<Rightarrow> strmap" where
  "set_default k v m = (if go_lookup m k = '''' then m(k \<mapsto> v) else m)"

definition defaulted_properties :: "strmap \<Rightarrow> strmap" where
  "defaulted_properties m =
     set_default ''FLUSH_DISK_TYPE'' defaultFlushDiskType
       (set_default ''REPLICATION_MODE'' defaultReplicationMode
         (set_default ''FILE_RESERVED_TIME'' defaultFileReservedTime
           (set_default ''DELETE_WHEN'' defaultDeleteWhen m)))"

definition defaulted_spec :: "spec_val \<Rightarrow> spec_val" where
  "defaulted_spec s =
     s\<lparr>BrokerImage := or_else (BrokerImage s) defaultBrokerImage,
       GroupReplica := (if GroupReplica s = 0 then defaultGroups else GroupReplica s),
       MembersPerGroup := (if MembersPerGroup s = 0 then defaultMembersPerGroup else MembersPerGroup s),
       Properties := Some (defaulted_properties (case Properties s of None \<Rightarrow> Map.empty | Some m \<Rightarrow> m))\<rparr>"

definition defaulted :: "cluster_val \<Rightarrow> cluster_val" where
  "defaulted c = c\<lparr>Spec := defaulted_spec (Spec c)\<rparr>"

lemma go_lookup_set_default:
  "go_lookup (set_default k v m) k' = (if k' = k then or_else (go_lookup m k) v else go_lookup m k')"
  by (simp add: set_default_def or_else_def)

lemma go_lookup_defaulted_properties:
  "go_lookup (defaulted_properties m) k =
     (if k = ''DELETE_WHEN'' then or_else (go_lookup m k) defaultDeleteWhen
      else if k = ''FILE_RESERVED_TIME'' then or_else (go_lookup m k) defaultFileReservedTime
      else if k = ''REPLICATION_MODE'' then or_else (go_lookup m k) defaultReplicationMode
      else if k = ''FLUSH_DISK_TYPE'' then or_else (go_lookup m k) defaultFlushDiskType
      else go_lookup m k)"
  by (simp add: defaulted_properties_def go_lookup_set_default)

lemma set_default_same: "go_lookup m k \<noteq> '''' \<Longrightarrow> set_default k v m = m"
  by (simp add: set_default_def)

lemma or_else_ne [simp]: "or_else x d = '''' \<longleftrightarrow> x = '''' \<and> d = ''''"
  by (simp add: or_else_def)

lemma default_ne [simp]:
  "defaultBrokerImage \<noteq> ''''" "defaultDeleteWhen \<noteq> ''''" "defaultFileReservedTime \<noteq> ''''"
  "defaultReplicationMode \<noteq> ''''" "defaultFlushDiskType \<noteq> ''''"
  "defaultGroups \<noteq> 0" "defaultMembersPerGroup \<noteq> 0"
  by (simp_all add: default_constants)

lemma defaulted_properties_idem: "defaulted_properties (defaulted_properties m) = defaulted_properties m"
proof -
  have "go_lookup (defaulted_properties m) k \<noteq> ''''"
    if "k \<in> {''DELETE_WHEN'', ''FILE_RESERVED_TIME'', ''REPLICATION_MODE'', ''FLUSH_DISK_TYPE''}" for k
    using that by (auto simp: go_lookup_defaulted_properties)
  then show ?thesis
    by (subst defaulted_properties_def) (simp add: set_default_same)
qed

lemma defaulted_simps [simp]:
  "bc_ObjectMeta (defaulted c) = bc_ObjectMeta c"
  "Status (defaulted c) = Status c"
  "bc_TypeMeta (defaulted c) = bc_TypeMeta c"
  "NodeSelector (Spec (defaulted c)) = NodeSelector (Spec c)"
  "AllMaster (Spec (defaulted c)) = AllMaster (Spec c)"
  "ReplicationMode (Spec (defaulted c)) = ReplicationMode (Spec c)"
  by (simp_all add: defaulted_def defaulted_spec_def)

lemma defaulted_members_ne [simp]: "MembersPerGroup (Spec (defaulted c)) \<noteq> 0"
  by (simp add: defaulted_def defaulted_spec_def)

lemma defaulted_groups_ne [simp]: "GroupReplica (Spec (defaulted c)) \<noteq> 0"
  by (simp add: defaulted_def defaulted_spec_def)

text \<open>
  Defaulting is a closure: every required field is set afterwards (image, group count,
  members per group, the four properties), a field or property the user set is kept, and
  defaulting again changes nothing.
\<close>

theorem EnsureDefaults_spec:
  fixes c :: cluster_val
  defines "d \<equiv> Spec (defaulted c)"
  shows "BrokerImage d \<noteq> '''' \<and> GroupReplica d \<noteq> 0 \<and> MembersPerGroup d \<noteq> 0 \<and>
    (\<forall>k \<in> {''DELETE_WHEN'', ''FILE_RESERVED_TIME'', ''REPLICATION_MODE'', ''FLUSH_DISK_TYPE''}.
       go_lookup_opt (Properties d) k \<noteq> '''') \<and>
    (BrokerImage (Spec c) \<noteq> '''' \<longrightarrow> BrokerImage d = BrokerImage (Spec c)) \<and>
    (GroupReplica (Spec c) \<noteq> 0 \<longrightarrow> GroupReplica d = GroupReplica (Spec c)) \<and>
    (MembersPerGroup (Spec c) \<noteq> 0 \<longrightarrow> MembersPerGroup d = MembersPerGroup (Spec c)) \<and>
    (\<forall>k. go_lookup_opt (Properties (Spec c)) k \<noteq> '''' \<longrightarrow>
       go_lookup_opt (Properties d) k = go_lookup_opt (Properties (Spec c)) k) \<and>
    defaulted (defaulted c) = defaulted c"
proof (intro conjI)
  show "defaulted (defaulted c) = defaulted c"
    by (simp add: defaulted_def defaulted_spec_def defaulted_properties_idem or_else_def)
qed (auto simp: d_def defaulted_def defaulted_spec_def go_lookup_defaulted_properties or_else_def
    split: option.splits)

theorem EnsureDefaults_spec_witness:
  "GroupReplica (Spec (defaulted (cluster_at sample_heap 0))) = 2 \<and>
   go_lookup_opt (Properties (Spec (defaulted (cluster_at sample_heap 0)))) ''DELETE_WHEN'' = ''05''"
proof -
  have "GroupReplica (Spec (cluster_at sample_heap 0)) = 2"
    "go_lookup_opt (Properties (Spec (cluster_at sample_heap 0))) ''DELETE_WHEN'' = ''05''"
    by (simp_all add: cluster_at_def sample_heap_def sample_obj_def go_lookup_def)
  then show ?thesis using EnsureDefaults_spec [of "cluster_at sample_heap 0"] by simp
qed

section \<open>The method implements the specification\<close>

lemma default_property_simps [simp]:
  "h_clusters (default_property a k v h) = h_clusters h"
  "h_statuses (default_property a k v h) = h_statuses h"
  "h_conds (default_property a k v h) = h_conds h"
  "h_blobs (default_property a k v h) = h_blobs h"
  "h_arrays (default_property a k v h) = h_arrays h"
  "h_next (default_property a k v h) = h_next h"
  "h_maps (default_property a k v h) = (h_maps h)(a := set_default k v (h_maps h a))"
  by (auto simp: default_property_def set_default_def)

text \<open>
  The address of the properties map after the call, and the heap the call leaves, read
  component by component.
\<close>

definition props_of :: "heap \<Rightarrow> addr \<Rightarrow> addr" where
  "props_of h c = (case Properties (Spec (h_clusters h c)) of None \<Rightarrow> h_next h | Some a \<Rightarrow> a)"

definition old_props :: "heap \<Rightarrow> addr \<Rightarrow> strmap" where
  "old_props h c = (case Properties (Spec (h_clusters h c)) of None \<Rightarrow> Map.empty | Some a \<Rightarrow> h_maps h a)"

lemma EnsureDefaults_heap:
  "h_maps (EnsureDefaults h c) = (h_maps h)(props_of h c := defaulted_properties (old_props h c))"
  "h_statuses (EnsureDefaults h c) = h_statuses h"
  "h_conds (EnsureDefaults h c) = h_conds h"
  "h_blobs (EnsureDefaults h c) = h_blobs h"
  "h_arrays (EnsureDefaults h c) = h_arrays h"
  "h_next h \<le> h_next (EnsureDefaults h c)"
  "props_of h c < h_next (EnsureDefaults h c) \<longleftrightarrow>
     Properties (Spec (h_clusters h c)) = None \<or> props_of h c < h_next h"
  by (auto simp: EnsureDefaults_def Let_def props_of_def old_props_def defaulted_properties_def
      alloc_map_def split: option.splits)

lemma EnsureDefaults_struct:
  "h_clusters (EnsureDefaults h c) =
     (h_clusters h)(c := (h_clusters h c)\<lparr>Spec :=
       (Spec (h_clusters h c))
         \<lparr>BrokerImage := or_else (BrokerImage (Spec (h_clusters h c))) defaultBrokerImage,
          GroupReplica := (if GroupReplica (Spec (h_clusters h c)) = 0 then defaultGroups
                           else GroupReplica (Spec (h_clusters h c))),
          MembersPerGroup := (if MembersPerGroup (Spec (h_clusters h c)) = 0 then defaultMembersPerGroup
                              else MembersPerGroup (Spec (h_clusters h c))),
          Properties := Some (props_of h c)\<rparr>\<rparr>)"
  by (auto simp: EnsureDefaults_def Let_def props_of_def or_else_def alloc_map_def
      split: option.splits)

text \<open>
  The receiver's properties map is not used by another field of the receiver: labels and
  node selector have maps of their own, as in every object decoded from JSON or made by
  \<open>DeepCopy\<close>.
\<close>

definition props_private :: "heap \<Rightarrow> addr \<Rightarrow> bool" where
  "props_private h c \<longleftrightarrow>
     opt_all (\<lambda>a. a \<notin> set_option (NodeSelector (Spec (h_clusters h c))) \<and>
                  a \<notin> meta_refs (bc_ObjectMeta (h_clusters h c)) \<and>
                  a \<notin> meta_refs (status_ObjectMeta (Status (h_clusters h c))))
       (Properties (Spec (h_clusters h c)))"

lemma map_option_fun_upd: "a \<notin> set_option x \<Longrightarrow> map_option (f(a := y)) x = map_option f x"
  by (cases x) auto

lemma slice_val_cong: "h_arrays h' = h_arrays h \<Longrightarrow> slice_val h' = slice_val h"
  by (rule ext) (simp add: slice_val_def)

text \<open>
  C27: \<open>EnsureDefaults\<close> on the heap refines the specification: reading the receiver after
  the call gives the defaulted value of the receiver before it, including the case of a
  nil properties map.
\<close>

theorem EnsureDefaults_refines:
  assumes wf: "wf_ptr h c" and priv: "props_private h c"
  shows "cluster_at (EnsureDefaults h c) c = defaulted (cluster_at h c)"
proof -
  let ?o = "h_clusters h c" and ?p = "props_of h c"
  have fresh: "a \<noteq> ?p" if "a \<in> set_option (NodeSelector (Spec ?o)) \<union> meta_refs (bc_ObjectMeta ?o)
      \<union> meta_refs (status_ObjectMeta (Status ?o))" for a
  proof -
    have "a < h_next h" using that wf by (auto simp: wf_ptr_def wf_cluster_def refs_defs)
    then show ?thesis
      using that priv by (auto simp: props_of_def props_private_def split: option.splits)
  qed
  have maps: "map_option (h_maps (EnsureDefaults h c)) x = map_option (h_maps h) x"
    if "set_option x \<subseteq> set_option (NodeSelector (Spec ?o)) \<union> meta_refs (bc_ObjectMeta ?o)
      \<union> meta_refs (status_ObjectMeta (Status ?o))" for x
    using that fresh unfolding EnsureDefaults_heap(1) by (intro map_option_fun_upd) blast
  have "slice_val (EnsureDefaults h c) = slice_val h"
    by (rule slice_val_cong) (simp add: EnsureDefaults_heap)
  then show ?thesis
    using maps [of "NodeSelector (Spec ?o)"] maps [of "om_Labels (bc_ObjectMeta ?o)"]
      maps [of "om_Labels (status_ObjectMeta (Status ?o))"]
    by (auto simp: cluster_at_def EnsureDefaults_struct cluster_val_of_def cluster_map_def spec_map_def
        status_map_def meta_map_def meta_refs_def defaulted_def defaulted_spec_def EnsureDefaults_heap(1,4)
        old_props_def split: option.splits)
qed

lemma sample_private: "props_private sample_heap 0"
  by (simp add: props_private_def sample_heap_def sample_obj_def refs_defs empty_meta_def)

theorem EnsureDefaults_refines_witness:
  "cluster_at (EnsureDefaults sample_heap 0) 0 = defaulted (cluster_at sample_heap 0)"
  by (rule EnsureDefaults_refines [OF sample_wf sample_private])

section \<open>Frame\<close>

lemma EnsureDefaults_wf:
  assumes "wf_ptr h c"
  shows "wf_ptr (EnsureDefaults h c) c"
proof -
  have p: "props_of h c < h_next (EnsureDefaults h c)"
    using assms unfolding EnsureDefaults_heap(7)
    by (auto simp: wf_ptr_def wf_cluster_def refs_defs props_of_def split: option.splits)
  have "a < h_next (EnsureDefaults h c)" if "a < h_next h" for a
    using that EnsureDefaults_heap(6) [of h c] by simp
  with p assms show ?thesis
    by (auto simp: wf_ptr_def wf_cluster_def EnsureDefaults_struct EnsureDefaults_heap(5) refs_defs
        slice_ok_def opt_all_def split: option.splits)
qed

lemma EnsureDefaults_other:
  assumes p: "wf_ptr h p" "p \<noteq> c" and sep: "props_of h c \<notin> cluster_refs (h_clusters h p)"
  shows "cluster_at (EnsureDefaults h c) p = cluster_at h p"
proof -
  have "cluster_val_of (EnsureDefaults h c) (h_clusters h p) = cluster_val_of h (h_clusters h p)"
    using sep by (intro cluster_val_cong) (auto simp: EnsureDefaults_heap)
  then show ?thesis using p(2) by (simp add: cluster_at_def EnsureDefaults_struct)
qed

end
