(* ===== verification/Conditions.thy ===== *)
theory Conditions
  imports Defaults
begin

text \<open>
  Conditions of a cluster status (\<open>pkg/api/cluster/util.go\<close>).

  \<open>GetClusterCondition\<close> returns a pointer into the status's slice, and
  \<open>UpdateClusterCondition\<close> writes through both of its pointers, so the functions work on
  the heap. A pointer to a condition is a struct of its own or an element of a backing
  array; a pointer to a status is a struct of its own or the field of a cluster.
  \<open>update_conditions\<close> is the specification on lists of conditions, and
  \<open>condition_of\<close> the abstract view of a list: a map from types to conditions.
\<close>

section \<open>Pointers\<close>

datatype cond_ptr = CondCell addr | CondElem addr nat

datatype status_ptr = StatusCell addr | StatusOf addr

fun load_cond :: "heap \<Rightarrow> cond_ptr \<Rightarrow> BrokerClusterCondition" where
  "load_cond h (CondCell a) = h_conds h a"
| "load_cond h (CondElem a i) = h_arrays h a ! i"

fun store_cond :: "heap \<Rightarrow> cond_ptr \<Rightarrow> BrokerClusterCondition \<Rightarrow> heap" where
  "store_cond h (CondCell a) c = h\<lparr>h_conds := (h_conds h)(a := c)\<rparr>"
| "store_cond h (CondElem a i) c = h\<lparr>h_arrays := (h_arrays h)(a := (h_arrays h a)[i := c])\<rparr>"

fun load_status :: "heap \<Rightarrow> status_ptr \<Rightarrow> status_obj" where
  "load_status h (StatusCell a) = h_statuses h a"
| "load_status h (StatusOf c) = Status (h_clusters h c)"

fun store_status :: "heap \<Rightarrow> status_ptr \<Rightarrow> status_obj \<Rightarrow> heap" where
  "store_status h (StatusCell a) s = h\<lparr>h_statuses := (h_statuses h)(a := s)\<rparr>"
| "store_status h (StatusOf c) s =
     h\<lparr>h_clusters := (h_clusters h)(c := (h_clusters h c)\<lparr>Status := s\<rparr>)\<rparr>"

fun cond_valid :: "heap \<Rightarrow> cond_ptr \<Rightarrow> bool" where
  "cond_valid h (CondCell a) = (a < h_next h)"
| "cond_valid h (CondElem a i) = (a < h_next h \<and> i < length (h_arrays h a))"

lemma load_store_cond [simp]: "cond_valid h p \<Longrightarrow> load_cond (store_cond h p c) p = c"
  by (cases p) auto

lemma load_store_status [simp]: "load_status (store_status h p s) p = s"
  by (cases p) auto

lemma store_cond_frame [simp]:
  "h_clusters (store_cond h p c) = h_clusters h" "h_statuses (store_cond h p c) = h_statuses h"
  "h_maps (store_cond h p c) = h_maps h" "h_blobs (store_cond h p c) = h_blobs h"
  "h_next (store_cond h p c) = h_next h" "load_status (store_cond h p c) sp = load_status h sp"
  by (cases p; cases sp; simp)+

lemma store_cond_length [simp]:
  "length (h_arrays (store_cond h p c) a) = length (h_arrays h a)"
  by (cases p) auto

lemma store_cond_reads [simp]:
  "h_arrays (store_cond h (CondElem a i) c) = (h_arrays h)(a := (h_arrays h a)[i := c])"
  "h_arrays (store_cond h (CondCell a) c) = h_arrays h"
  "h_conds (store_cond h (CondCell a) c) = (h_conds h)(a := c)"
  "h_conds (store_cond h (CondElem a i) c) = h_conds h"
  by simp_all

declare store_cond.simps [simp del]

section \<open>Looking a condition up\<close>

definition conditions_of :: "heap \<Rightarrow> status_obj \<Rightarrow> BrokerClusterCondition list" where
  "conditions_of h s = (case Conditions s of None \<Rightarrow> [] | Some sl \<Rightarrow> slice_val h sl)"

definition GetClusterCondition ::
    "heap \<Rightarrow> status_ptr option \<Rightarrow> BrokerClusterConditionType \<Rightarrow> int \<times> cond_ptr option" where
  "GetClusterCondition h status conditionType =
     (case status of None \<Rightarrow> (-1, None)
      | Some p \<Rightarrow>
          (case Conditions (load_status h p) of None \<Rightarrow> (-1, None)
           | Some sl \<Rightarrow>
               (case find_index (\<lambda>c. cond_Type c = conditionType) (slice_val h sl) of
                  None \<Rightarrow> (-1, None)
                | Some i \<Rightarrow> (int i, Some (CondElem (sl_array sl) i)))))"

definition GetClusterReadyCondition :: "heap \<Rightarrow> status_ptr \<Rightarrow> cond_ptr option" where
  "GetClusterReadyCondition h status = snd (GetClusterCondition h (Some status) BrokerClusterReady)"

definition IsClusterReadyConditionTrue :: "heap \<Rightarrow> status_ptr \<Rightarrow> bool" where
  "IsClusterReadyConditionTrue h status =
     (case GetClusterReadyCondition h status of None \<Rightarrow> False
      | Some p \<Rightarrow> cond_Status (load_cond h p) = ConditionTrue)"

definition IsClusterReady :: "heap \<Rightarrow> addr \<Rightarrow> bool" where
  "IsClusterReady h cluster = IsClusterReadyConditionTrue h (StatusOf cluster)"

section \<open>Updating a condition\<close>

text \<open>
  \<open>status.Conditions = append(status.Conditions, c)\<close>: in place when the backing array has
  room beyond the slice's length, otherwise a new array.
\<close>

definition append_condition :: "heap \<Rightarrow> status_ptr \<Rightarrow> BrokerClusterCondition \<Rightarrow> heap" where
  "append_condition h sp c =
     (let s = load_status h sp in
      case Conditions s of
        None \<Rightarrow>
          (case alloc_array h [c] of (h1, a) \<Rightarrow>
             store_status h1 sp (s\<lparr>Conditions := Some \<lparr>sl_array = a, sl_len = 1\<rparr>\<rparr>))
      | Some sl \<Rightarrow>
          (if sl_len sl < length (h_arrays h (sl_array sl))
           then store_status (store_cond h (CondElem (sl_array sl) (sl_len sl)) c) sp
                  (s\<lparr>Conditions := Some (sl\<lparr>sl_len := Suc (sl_len sl)\<rparr>)\<rparr>)
           else (case alloc_array h (slice_val h sl @ [c]) of (h1, a) \<Rightarrow>
                   store_status h1 sp
                     (s\<lparr>Conditions := Some \<lparr>sl_array = a, sl_len = Suc (sl_len sl)\<rparr>\<rparr>))))"

definition UpdateClusterCondition ::
    "time \<Rightarrow> heap \<Rightarrow> status_ptr \<Rightarrow> cond_ptr \<Rightarrow> heap \<times> bool" where
  "UpdateClusterCondition now h status condition =
     (let h1 = store_cond h condition ((load_cond h condition)\<lparr>LastTransitionTime := now\<rparr>) in
      case GetClusterCondition h1 (Some status) (cond_Type (load_cond h1 condition)) of
        (_, None) \<Rightarrow> (append_condition h1 status (load_cond h1 condition), True)
      | (conditionIndex, Some oldCondition) \<Rightarrow>
          (let h2 = (if cond_Status (load_cond h1 condition) = cond_Status (load_cond h1 oldCondition)
                     then store_cond h1 condition
                            ((load_cond h1 condition)
                               \<lparr>LastTransitionTime := LastTransitionTime (load_cond h1 oldCondition)\<rparr>)
                     else h1);
               c = load_cond h2 condition; old = load_cond h2 oldCondition;
               isEqual = (cond_Status c = cond_Status old \<and> cond_Reason c = cond_Reason old \<and>
                          cond_Message c = cond_Message old \<and>
                          LastTransitionTime c = LastTransitionTime old)
           in case Conditions (load_status h2 status) of
                None \<Rightarrow> (h2, \<not> isEqual)
              | Some sl \<Rightarrow> (store_cond h2 (CondElem (sl_array sl) (nat conditionIndex)) c, \<not> isEqual)))"

section \<open>The specification on lists\<close>

definition condition_of :: "BrokerClusterCondition list \<Rightarrow> BrokerClusterConditionType
    \<rightharpoonup> BrokerClusterCondition" where
  "condition_of cs ty = find (\<lambda>c. cond_Type c = ty) cs"

definition touched :: "time \<Rightarrow> BrokerClusterCondition \<Rightarrow> BrokerClusterCondition \<Rightarrow> BrokerClusterCondition" where
  "touched now old c =
     c\<lparr>LastTransitionTime := (if cond_Status c = cond_Status old then LastTransitionTime old else now)\<rparr>"

definition update_conditions :: "time \<Rightarrow> BrokerClusterCondition list \<Rightarrow> BrokerClusterCondition
    \<Rightarrow> BrokerClusterCondition list \<times> bool" where
  "update_conditions now cs c =
     (case find_index (\<lambda>o'. cond_Type o' = cond_Type c) cs of
        None \<Rightarrow> (cs @ [c\<lparr>LastTransitionTime := now\<rparr>], True)
      | Some i \<Rightarrow> (cs[i := touched now (cs ! i) c], touched now (cs ! i) c \<noteq> cs ! i))"

lemma touched_type [simp]: "cond_Type (touched now old c) = cond_Type c"
  by (simp add: touched_def)

lemma touched_status [simp]: "cond_Status (touched now old c) = cond_Status c"
  by (simp add: touched_def)

lemma condition_of_None: "condition_of cs ty = None \<longleftrightarrow> (\<forall>c \<in> set cs. cond_Type c \<noteq> ty)"
  by (auto simp: condition_of_def find_None_iff)

lemma condition_of_append:
  "condition_of (cs @ [c]) ty =
     (case condition_of cs ty of None \<Rightarrow> if cond_Type c = ty then Some c else None | Some d \<Rightarrow> Some d)"
  by (induction cs) (auto simp: condition_of_def)

lemma condition_of_update:
  assumes "find_index (\<lambda>o'. cond_Type o' = cond_Type c) cs = Some i"
  shows "condition_of (cs[i := c]) ty = (if ty = cond_Type c then Some c else condition_of cs ty)"
  using assms
proof (induction cs arbitrary: i)
  case Nil
  then show ?case by simp
next
  case (Cons d cs)
  show ?case
  proof (cases i)
    case 0
    with Cons.prems show ?thesis by (auto simp: condition_of_def split: if_splits)
  next
    case (Suc k)
    with Cons.prems have "find_index (\<lambda>o'. cond_Type o' = cond_Type c) cs = Some k"
      and "cond_Type d \<noteq> cond_Type c"
      by (auto split: if_splits)
    with Suc Cons.IH [of k] show ?thesis by (auto simp: condition_of_def)
  qed
qed

text \<open>
  The abstract effect of updating a condition: the map from types to conditions gets
  exactly the new condition under its own type; its transition time is the old one when
  the status did not change and the current time when it changed or the condition is
  new; the types of the list stay distinct; and the result says whether the list changed.
\<close>

theorem update_conditions_spec:
  assumes upd: "update_conditions now cs c = (cs', changed)"
    and dist: "distinct (map cond_Type cs)"
  shows "condition_of cs' =
      (condition_of cs)(cond_Type c \<mapsto>
         (case condition_of cs (cond_Type c) of
            None \<Rightarrow> c\<lparr>LastTransitionTime := now\<rparr> | Some old \<Rightarrow> touched now old c))
    \<and> distinct (map cond_Type cs') \<and> (changed \<longleftrightarrow> cs' \<noteq> cs)"
proof (cases "find_index (\<lambda>o'. cond_Type o' = cond_Type c) cs")
  case None
  then have new: "condition_of cs (cond_Type c) = None"
    by (simp add: find_index_None condition_of_None)
  from None upd have cs': "cs' = cs @ [c\<lparr>LastTransitionTime := now\<rparr>]" "changed"
    by (auto simp: update_conditions_def)
  have "condition_of cs' = (condition_of cs)(cond_Type c \<mapsto> c\<lparr>LastTransitionTime := now\<rparr>)"
    by (rule ext) (auto simp: cs'(1) condition_of_append new split: option.split)
  moreover have "distinct (map cond_Type cs')"
    using dist new by (auto simp: cs'(1) condition_of_None)
  ultimately show ?thesis using cs' new by simp
next
  case (Some i)
  let ?t = "touched now (cs ! i) c"
  from Some have i: "i < length cs" "cond_Type (cs ! i) = cond_Type c"
    by (auto simp: find_index_Some)
  from Some upd have cs': "cs' = cs[i := ?t]" "changed = (?t \<noteq> cs ! i)"
    by (auto simp: update_conditions_def)
  have old: "condition_of cs (cond_Type c) = Some (cs ! i)"
    using Some by (simp add: condition_of_def find_index_find)
  have "condition_of cs' = (condition_of cs)(cond_Type c \<mapsto> ?t)"
    using condition_of_update [of ?t cs i] Some by (auto simp: cs'(1))
  moreover have "map cond_Type cs' = map cond_Type cs"
    using i by (simp add: cs'(1) map_update list_update_same_conv)
  moreover have "cs' \<noteq> cs \<longleftrightarrow> ?t \<noteq> cs ! i"
    using i by (auto simp: cs'(1) list_update_same_conv)
  ultimately show ?thesis using cs'(2) old dist by simp
qed

theorem update_conditions_spec_witness:
  "condition_of (fst (update_conditions 9 [sample_condition] (sample_condition\<lparr>cond_Status := ConditionTrue\<rparr>)))
     BrokerClusterReady = Some (sample_condition\<lparr>cond_Status := ConditionTrue, LastTransitionTime := 9\<rparr>)"
  using update_conditions_spec [of 9 "[sample_condition]" "sample_condition\<lparr>cond_Status := ConditionTrue\<rparr>",
      OF prod.collapse [symmetric]]
  by (simp add: condition_of_def touched_def sample_condition_def)

section \<open>The heap operation implements the specification\<close>

text \<open>
  The condition pointer is not an element of the array behind the status: the caller in
  the controller passes a pointer into the cached cluster together with a deep copy of
  its status.
\<close>

definition separate :: "heap \<Rightarrow> status_ptr \<Rightarrow> cond_ptr \<Rightarrow> bool" where
  "separate h sp cp \<longleftrightarrow>
     (case (Conditions (load_status h sp), cp) of
        (Some sl, CondElem a i) \<Rightarrow> a \<noteq> sl_array sl
      | _ \<Rightarrow> True)"

lemma store_cond_slice:
  "separate h sp cp \<Longrightarrow> Conditions (load_status h sp) = Some sl \<Longrightarrow>
     h_arrays (store_cond h cp c) (sl_array sl) = h_arrays h (sl_array sl)"
  by (cases cp) (auto simp: separate_def)

lemma load_cond_slice:
  "i < sl_len sl \<Longrightarrow> load_cond h (CondElem (sl_array sl) i) = slice_val h sl ! i"
  by (simp add: slice_val_def)

lemma store_cond_twice [simp]: "store_cond (store_cond h p c) p d = store_cond h p d"
  by (cases p) (auto simp: store_cond.simps)

lemma cond_valid_store [simp]: "cond_valid (store_cond h p c) q = cond_valid h q"
  by (cases p; cases q; simp)

text \<open>Lookup after the transition time was stored: the array behind the status is untouched.\<close>

lemma Get_after_store:
  assumes "separate h sp cp"
  shows "GetClusterCondition (store_cond h cp c) (Some sp) ty = GetClusterCondition h (Some sp) ty"
  using store_cond_slice [OF assms]
  by (auto simp: GetClusterCondition_def slice_val_def split: option.split)

lemma Get_Some:
  "GetClusterCondition h (Some sp) ty = (k, Some p) \<Longrightarrow>
     \<exists>sl i. Conditions (load_status h sp) = Some sl \<and> k = int i \<and> p = CondElem (sl_array sl) i \<and>
       find_index (\<lambda>c. cond_Type c = ty) (slice_val h sl) = Some i"
  by (auto simp: GetClusterCondition_def split: option.splits)

lemma Get_None:
  "GetClusterCondition h (Some sp) ty = (k, None) \<Longrightarrow>
     k = -1 \<and> find_index (\<lambda>c. cond_Type c = ty) (conditions_of h (load_status h sp)) = None"
  by (auto simp: GetClusterCondition_def conditions_of_def split: option.splits)

lemma UpdateClusterCondition_missing:
  assumes sep: "separate h sp cp" and valid: "cond_valid h cp"
    and get: "GetClusterCondition h (Some sp) (cond_Type (load_cond h cp)) = (k, None)"
  shows "UpdateClusterCondition now h sp cp =
     (append_condition (store_cond h cp ((load_cond h cp)\<lparr>LastTransitionTime := now\<rparr>)) sp
        ((load_cond h cp)\<lparr>LastTransitionTime := now\<rparr>), True)"
  using valid get
  by (simp add: UpdateClusterCondition_def Let_def Get_after_store [OF sep])

lemma UpdateClusterCondition_found:
  fixes now :: time
  assumes sep: "separate h sp cp" and valid: "cond_valid h cp"
    and sl: "Conditions (load_status h sp) = Some sl"
    and ix: "find_index (\<lambda>c. cond_Type c = cond_Type (load_cond h cp)) (slice_val h sl) = Some i"
  defines "t \<equiv> touched now (slice_val h sl ! i) (load_cond h cp)"
  shows "UpdateClusterCondition now h sp cp =
     (store_cond (store_cond h cp t) (CondElem (sl_array sl) i) t, t \<noteq> slice_val h sl ! i)"
proof -
  let ?c = "load_cond h cp" and ?o = "slice_val h sl ! i"
  have i: "i < sl_len sl" "i < length (slice_val h sl)"
    using find_index_bound [OF ix] by (auto simp: slice_val_def)
  have get: "GetClusterCondition h (Some sp) (cond_Type ?c) = (int i, Some (CondElem (sl_array sl) i))"
    using sl ix by (simp add: GetClusterCondition_def)
  have old: "h_arrays (store_cond h cp d) (sl_array sl) ! i = ?o" for d
    using store_cond_slice [OF sep sl] i by (simp add: slice_val_def)
  have ty: "cond_Type ?o = cond_Type ?c" using find_index_holds [OF ix] .
  have same: "t = ?o \<longleftrightarrow> cond_Status t = cond_Status ?o \<and> cond_Reason t = cond_Reason ?o \<and>
      cond_Message t = cond_Message ?o \<and> LastTransitionTime t = LastTransitionTime ?o"
  proof
    assume "t = ?o"
    then show "cond_Status t = cond_Status ?o \<and> cond_Reason t = cond_Reason ?o \<and>
      cond_Message t = cond_Message ?o \<and> LastTransitionTime t = LastTransitionTime ?o" by simp
  next
    assume "cond_Status t = cond_Status ?o \<and> cond_Reason t = cond_Reason ?o \<and>
      cond_Message t = cond_Message ?o \<and> LastTransitionTime t = LastTransitionTime ?o"
    then show "t = ?o"
      using ty by (intro BrokerClusterCondition.equality) (simp_all add: t_def)
  qed
  show ?thesis
    using valid unfolding same
    by (auto simp: UpdateClusterCondition_def Let_def Get_after_store [OF sep] get old sl t_def touched_def)
qed

lemma append_condition_lists:
  assumes wf: "wf_status h (load_status h sp)"
  shows "conditions_of (append_condition h sp c) (load_status (append_condition h sp c) sp) =
     conditions_of h (load_status h sp) @ [c]"
proof (cases "Conditions (load_status h sp)")
  case None
  then show ?thesis
    by (cases sp)
       (simp_all add: append_condition_def conditions_of_def slice_val_def alloc_array_def)
next
  case (Some sl)
  then have ok: "sl_len sl \<le> length (h_arrays h (sl_array sl))"
    using wf by (simp add: wf_status_def slice_ok_def)
  show ?thesis
  proof (cases "sl_len sl < length (h_arrays h (sl_array sl))")
    case True
    with Some show ?thesis
      by (cases sp)
         (simp_all add: append_condition_def conditions_of_def slice_val_def take_Suc_conv_app_nth)
  next
    case False
    with Some ok show ?thesis
      by (cases sp)
         (simp_all add: append_condition_def conditions_of_def slice_val_def alloc_array_def)
  qed
qed

text \<open>
  C25: \<open>UpdateClusterCondition\<close>, called with a condition that is not itself an element of
  the status's slice, implements the specification: the list of conditions and the
  returned flag are those of \<open>update_conditions\<close>, whether the condition is new (slice
  grown in place or reallocated) or found.
\<close>

theorem UpdateClusterCondition_refines:
  assumes upd: "UpdateClusterCondition now h sp cp = (h', changed)"
    and wf: "wf_status h (load_status h sp)"
    and valid: "cond_valid h cp" and sep: "separate h sp cp"
  shows "update_conditions now (conditions_of h (load_status h sp)) (load_cond h cp) =
     (conditions_of h' (load_status h' sp), changed)"
proof (cases "snd (GetClusterCondition h (Some sp) (cond_Type (load_cond h cp)))")
  case None
  then obtain k where get: "GetClusterCondition h (Some sp) (cond_Type (load_cond h cp)) = (k, None)"
    by (metis prod.collapse)
  let ?d = "(load_cond h cp)\<lparr>LastTransitionTime := now\<rparr>"
  have wf': "wf_status (store_cond h cp ?d) (load_status (store_cond h cp ?d) sp)"
    using wf by (simp add: wf_status_def opt_all_def slice_ok_def split: option.splits)
  have conds: "conditions_of (store_cond h cp ?d) (load_status h sp) = conditions_of h (load_status h sp)"
    using store_cond_slice [OF sep]
    by (auto simp: conditions_of_def slice_val_def split: option.split)
  show ?thesis
    using upd append_condition_lists [OF wf', of ?d] Get_None [OF get] conds
    by (simp add: UpdateClusterCondition_missing [OF sep valid get] update_conditions_def)
next
  case (Some p)
  then obtain k where "GetClusterCondition h (Some sp) (cond_Type (load_cond h cp)) = (k, Some p)"
    by (metis prod.collapse)
  then obtain sl i where sl: "Conditions (load_status h sp) = Some sl"
    and ix: "find_index (\<lambda>c. cond_Type c = cond_Type (load_cond h cp)) (slice_val h sl) = Some i"
    using Get_Some by blast
  let ?t = "touched now (slice_val h sl ! i) (load_cond h cp)"
  have i: "i < sl_len sl" using find_index_bound [OF ix] by (simp add: slice_val_def)
  have "slice_val (store_cond (store_cond h cp ?t) (CondElem (sl_array sl) i) ?t) sl =
      (slice_val h sl)[i := ?t]"
    using i store_cond_slice [OF sep sl] by (simp add: slice_val_def take_update_swap)
  then show ?thesis
    using upd sl ix
    by (auto simp: UpdateClusterCondition_found [OF sep valid sl ix] conditions_of_def
        update_conditions_def)
qed

theorem UpdateClusterCondition_refines_witness:
  "update_conditions 9 [sample_condition] sample_condition =
     (conditions_of (fst (UpdateClusterCondition 9 sample_heap (StatusCell 0) (CondCell 1)))
        (load_status (fst (UpdateClusterCondition 9 sample_heap (StatusCell 0) (CondCell 1))) (StatusCell 0)),
      snd (UpdateClusterCondition 9 sample_heap (StatusCell 0) (CondCell 1)))"
proof -
  have "wf_status sample_heap (load_status sample_heap (StatusCell 0))"
    using sample_wf by (simp add: wf_ptr_def wf_cluster_parts sample_heap_def)
  moreover have "cond_valid sample_heap (CondCell 1)" "separate sample_heap (StatusCell 0) (CondCell 1)"
    by (simp_all add: sample_heap_def separate_def split: option.split)
  ultimately show ?thesis
    using UpdateClusterCondition_refines [OF prod.collapse [symmetric], of sample_heap "StatusCell 0" "CondCell 1" 9]
    by (simp add: conditions_of_def sample_heap_def sample_obj_def slice_val_def)
qed

text \<open>
  The pointer may also be an element of the status's own slice (as in the unit test
  of the function). Then the call returns false, so no caller writes the status, yet the
  transition time of that element is overwritten by the current time although its status
  did not change: the comparison is between the element and itself.
\<close>

theorem UpdateClusterCondition_aliased:
  assumes sl: "Conditions (load_status h sp) = Some sl" and ok: "slice_ok h sl"
    and ix: "find_index (\<lambda>c. cond_Type c = cond_Type (slice_val h sl ! i)) (slice_val h sl) = Some i"
    and upd: "UpdateClusterCondition now h sp (CondElem (sl_array sl) i) = (h', changed)"
  shows "\<not> changed \<and> conditions_of h' (load_status h' sp) =
     (slice_val h sl)[i := (slice_val h sl ! i)\<lparr>LastTransitionTime := now\<rparr>]"
proof -
  let ?p = "CondElem (sl_array sl) i" and ?c = "slice_val h sl ! i"
  have i: "i < sl_len sl" "i < length (slice_val h sl)" "i < length (h_arrays h (sl_array sl))"
    using find_index_bound [OF ix] ok by (auto simp: slice_val_def slice_ok_def)
  have c: "load_cond h ?p = ?c" using i by (simp add: slice_val_def)
  let ?h1 = "store_cond h ?p (?c\<lparr>LastTransitionTime := now\<rparr>)"
  have val: "slice_val ?h1 sl = (slice_val h sl)[i := ?c\<lparr>LastTransitionTime := now\<rparr>]"
    using i by (simp add: slice_val_def take_update_swap)
  have "find_index (\<lambda>c. cond_Type c = cond_Type ?c) (slice_val ?h1 sl) = Some i"
    using ix i by (auto simp: find_index_Some val nth_list_update)
  then have get: "GetClusterCondition ?h1 (Some sp) (cond_Type ?c) = (int i, Some ?p)"
    using sl by (simp add: GetClusterCondition_def)
  have now: "h_arrays h (sl_array sl) ! i = ?c" using c by simp
  from upd have "changed = False \<and> h' = ?h1"
    using i get by (auto simp: UpdateClusterCondition_def Let_def c now sl)
  then show ?thesis using sl val by (simp add: conditions_of_def)
qed

theorem UpdateClusterCondition_aliased_witness:
  "\<not> snd (UpdateClusterCondition 9 sample_heap (StatusCell 0) (CondElem 2 0)) \<and>
   conditions_of (fst (UpdateClusterCondition 9 sample_heap (StatusCell 0) (CondElem 2 0)))
     (load_status (fst (UpdateClusterCondition 9 sample_heap (StatusCell 0) (CondElem 2 0))) (StatusCell 0)) =
   [sample_condition\<lparr>LastTransitionTime := 9\<rparr>]"
  using UpdateClusterCondition_aliased [of sample_heap "StatusCell 0" "\<lparr>sl_array = 2, sl_len = 1\<rparr>" 0 9,
      OF _ _ _ prod.collapse [symmetric]]
  by (simp add: sample_heap_def sample_obj_def slice_ok_def slice_val_def)

section \<open>Readiness\<close>

lemma condition_of_Ready:
  "find (\<lambda>c. cond_Type c = ty) cs = map_option ((!) cs) (find_index (\<lambda>c. cond_Type c = ty) cs)"
  by (rule find_index_find)

text \<open>
  A cluster is ready exactly when the first condition of type Ready in its status has
  the status True; a status without such a condition is not ready.
\<close>

theorem IsClusterReady_spec:
  "IsClusterReady h c \<longleftrightarrow>
     (\<exists>d. condition_of (conditions_of h (Status (h_clusters h c))) BrokerClusterReady = Some d \<and>
          cond_Status d = ConditionTrue)"
proof (cases "Conditions (Status (h_clusters h c))")
  case None
  then show ?thesis
    by (simp add: IsClusterReady_def IsClusterReadyConditionTrue_def GetClusterReadyCondition_def
        GetClusterCondition_def condition_of_def conditions_of_def)
next
  case (Some sl)
  show ?thesis
  proof (cases "find_index (\<lambda>d. cond_Type d = BrokerClusterReady) (slice_val h sl)")
    case None
    with Some show ?thesis
      by (simp add: IsClusterReady_def IsClusterReadyConditionTrue_def GetClusterReadyCondition_def
          GetClusterCondition_def condition_of_def conditions_of_def find_index_find)
  next
    case (Some i)
    then have "i < sl_len sl" using find_index_bound [OF Some] by (simp add: slice_val_def)
    then have "load_cond h (CondElem (sl_array sl) i) = slice_val h sl ! i"
      by (rule load_cond_slice)
    with Some \<open>Conditions (Status (h_clusters h c)) = Some sl\<close> show ?thesis
      by (simp add: IsClusterReady_def IsClusterReadyConditionTrue_def GetClusterReadyCondition_def
          GetClusterCondition_def condition_of_def conditions_of_def find_index_find)
  qed
qed

end
