(* ===== verification/Resources.thy ===== *)
theory Resources
  imports Conditions
begin

text \<open>
  The objects the operator creates for one group of brokers: the headless service
  (\<open>pkg/resources/services/service.go\<close>) and the stateful set
  (\<open>pkg/resources/statefulsets/statefulset.go\<close>). Both builders are pure functions of the
  cluster's value and the group's index. The records hold the fields the builders set;
  the status of a stateful set, which the API server fills in, starts as zeros.
\<close>

section \<open>Services\<close>

record ServicePort =
  sp_Name :: string
  sp_Port :: int32

record ServiceSpec =
  svc_Ports :: "ServicePort list"
  svc_Selector :: "strmap option"
  svc_ClusterIP :: string

record Service =
  svc_ObjectMeta :: "strmap ObjectMeta"
  svc_Spec :: ServiceSpec

definition ClusterIPNone :: string where
  "ClusterIPNone = ''None''"

definition svc_name_format :: "cluster_val \<Rightarrow> string" where
  "svc_name_format cluster = om_Name (bc_ObjectMeta cluster) @ ''-svc-%d''"

definition group_name_format :: "cluster_val \<Rightarrow> string" where
  "group_name_format cluster = om_Name (bc_ObjectMeta cluster) @ ''-%d''"

definition NewHeadlessService :: "cluster_val \<Rightarrow> int \<Rightarrow> Service" where
  "NewHeadlessService cluster index =
     (let ports = [\<lparr>sp_Name = ''port10909'', sp_Port = 10909\<rparr>,
                   \<lparr>sp_Name = ''port10911'', sp_Port = 10911\<rparr>] in
      \<lparr>svc_ObjectMeta =
         \<lparr>om_Name = Sprintf_d (svc_name_format cluster) index,
          om_Namespace = om_Namespace (bc_ObjectMeta cluster),
          om_SelfLink = '''', om_UID = '''', om_ResourceVersion = '''',
          om_Labels = Some [BrokerClusterLabel \<mapsto> Sprintf_d (group_name_format cluster) index],
          om_OwnerReferences = [NewControllerRef (bc_ObjectMeta cluster) BrokerClusterGVK]\<rparr>,
       svc_Spec =
         \<lparr>svc_Ports = ports,
          svc_Selector = Some [BrokerClusterLabel \<mapsto> Sprintf_d (group_name_format cluster) index],
          svc_ClusterIP = ClusterIPNone\<rparr>\<rparr>)"

section \<open>Stateful sets\<close>

record ContainerPort =
  cp_ContainerPort :: int32

record EnvVar =
  env_Name :: string
  env_Value :: string

record VolumeMount =
  vm_Name :: string
  vm_MountPath :: string

record Container =
  ct_Name :: string
  ct_ImagePullPolicy :: string
  ct_Image :: string
  ct_Ports :: "ContainerPort list"
  ct_Env :: "EnvVar list"
  ct_Command :: "string list"
  ct_VolumeMounts :: "VolumeMount list"

text \<open>All volumes of the operator are host paths.\<close>

record Volume =
  vol_Name :: string
  vol_HostPath :: string

record PodSpec =
  pod_NodeSelector :: "strmap option"
  pod_Containers :: "Container list"
  pod_Volumes :: "Volume list"

record PodTemplateSpec =
  tpl_Labels :: "strmap option"
  tpl_Spec :: PodSpec

record StatefulSetSpec =
  ss_SpecReplicas :: "int32 option"
  ss_MatchLabels :: "strmap option"
  ss_Template :: PodTemplateSpec
  ss_ServiceName :: string

record StatefulSetStatus =
  ss_Replicas :: int32
  ss_ReadyReplicas :: int32

record StatefulSet =
  ss_ObjectMeta :: "strmap ObjectMeta"
  ss_Spec :: StatefulSetSpec
  ss_Status :: StatefulSetStatus

definition brokerContainer :: "cluster_val \<Rightarrow> int \<Rightarrow> Container" where
  "brokerContainer cluster index =
     \<lparr>ct_Name = ''broker'',
      ct_ImagePullPolicy = ''Always'',
      ct_Image = BrokerImage (Spec cluster),
      ct_Ports = [\<lparr>cp_ContainerPort = 10909\<rparr>, \<lparr>cp_ContainerPort = 10911\<rparr>],
      ct_Env =
        [\<lparr>env_Name = ''DELETE_WHEN'',
          env_Value = go_lookup_opt (Properties (Spec cluster)) ''DELETE_WHEN''\<rparr>,
         \<lparr>env_Name = ''FILE_RESERVED_TIME'',
          env_Value = go_lookup_opt (Properties (Spec cluster)) ''FILE_RESERVED_TIME''\<rparr>,
         \<lparr>env_Name = ''ALL_MASTER'', env_Value = FormatBool (AllMaster (Spec cluster))\<rparr>,
         \<lparr>env_Name = ''BROKER_NAME'', env_Value = Sprintf_d ''broker-%d'' index\<rparr>,
         \<lparr>env_Name = ''REPLICATION_MODE'', env_Value = ReplicationMode (Spec cluster)\<rparr>,
         \<lparr>env_Name = ''FLUSH_DISK_TYPE'',
          env_Value = go_lookup_opt (Properties (Spec cluster)) ''FLUSH_DISK_TYPE''\<rparr>,
         \<lparr>env_Name = ''NAMESRV_ADDRESS'', env_Value = NameServers (Spec cluster)\<rparr>],
      ct_Command = [''./brokerStart.sh''],
      ct_VolumeMounts =
        [\<lparr>vm_Name = ''brokeroptlogs'', vm_MountPath = ''/root/logs''\<rparr>,
         \<lparr>vm_Name = ''brokeroptstore'', vm_MountPath = ''/root/store''\<rparr>]\<rparr>"

definition NewStatefulSet :: "cluster_val \<Rightarrow> int \<Rightarrow> StatefulSet" where
  "NewStatefulSet cluster index =
     (let containers = [brokerContainer cluster index];
          brokerRole = (if index = 0 then BrokerRoleMaster else BrokerRoleSlave);
          podLabels = [BrokerClusterLabel \<mapsto> Sprintf_d (group_name_format cluster) index,
                       BrokerRoleLabel \<mapsto> brokerRole];
          ssReplicas = MembersPerGroup (Spec cluster) in
      \<lparr>ss_ObjectMeta =
         \<lparr>om_Name = Sprintf_d (group_name_format cluster) index,
          om_Namespace = om_Namespace (bc_ObjectMeta cluster),
          om_SelfLink = '''', om_UID = '''', om_ResourceVersion = '''',
          om_Labels = Some podLabels,
          om_OwnerReferences = [NewControllerRef (bc_ObjectMeta cluster) BrokerClusterGVK]\<rparr>,
       ss_Spec =
         \<lparr>ss_SpecReplicas = Some ssReplicas,
          ss_MatchLabels = Some podLabels,
          ss_Template =
            \<lparr>tpl_Labels = Some podLabels,
             tpl_Spec =
               \<lparr>pod_NodeSelector = NodeSelector (Spec cluster),
                pod_Containers = containers,
                pod_Volumes =
                  [\<lparr>vol_Name = ''brokeroptlogs'',
                    vol_HostPath = Sprintf_d ''/data/broker/logs/%d'' index\<rparr>,
                   \<lparr>vol_Name = ''brokeroptstore'',
                    vol_HostPath = Sprintf_d ''/data/broker/store/%d'' index\<rparr>]\<rparr>\<rparr>,
          ss_ServiceName = Sprintf_d (svc_name_format cluster) index\<rparr>,
       ss_Status = \<lparr>ss_Replicas = 0, ss_ReadyReplicas = 0\<rparr>\<rparr>)"

section \<open>Names\<close>

lemma svc_name [text_simps]:
  "no_verb (om_Name (bc_ObjectMeta c)) \<Longrightarrow>
     Sprintf_d (svc_name_format c) i = om_Name (bc_ObjectMeta c) @ ''-svc-'' @ dec_int i"
  by (simp add: svc_name_format_def Sprintf_d_append)

lemma group_name [text_simps]:
  "no_verb (om_Name (bc_ObjectMeta c)) \<Longrightarrow>
     Sprintf_d (group_name_format c) i = om_Name (bc_ObjectMeta c) @ ''-'' @ dec_int i"
  by (simp add: group_name_format_def Sprintf_d_append)

lemma group_name_inj:
  assumes "no_verb (om_Name (bc_ObjectMeta c))" "no_verb (om_Name (bc_ObjectMeta d))"
    and "0 \<le> i" "0 \<le> j"
  shows "Sprintf_d (group_name_format c) i = Sprintf_d (group_name_format d) j \<longleftrightarrow>
     om_Name (bc_ObjectMeta c) = om_Name (bc_ObjectMeta d) \<and> i = j"
  using assms minus_notin_dec_int
    last_sep_unique [of "om_Name (bc_ObjectMeta c)" "CHR ''-''" "dec_int i" "om_Name (bc_ObjectMeta d)" "dec_int j"]
  by (auto simp: group_name)

lemma svc_name_inj:
  assumes "no_verb (om_Name (bc_ObjectMeta c))" "no_verb (om_Name (bc_ObjectMeta d))"
    and "0 \<le> i" "0 \<le> j"
  shows "Sprintf_d (svc_name_format c) i = Sprintf_d (svc_name_format d) j \<longleftrightarrow>
     om_Name (bc_ObjectMeta c) = om_Name (bc_ObjectMeta d) \<and> i = j"
  using assms minus_notin_dec_int
    last_sep_unique [of "om_Name (bc_ObjectMeta c) @ ''-svc''" "CHR ''-''" "dec_int i"
      "om_Name (bc_ObjectMeta d) @ ''-svc''" "dec_int j"]
  by (auto simp: svc_name)

lemma NewHeadlessService_meta [simp]:
  "om_Name (svc_ObjectMeta (NewHeadlessService c i)) = Sprintf_d (svc_name_format c) i"
  "om_Namespace (svc_ObjectMeta (NewHeadlessService c i)) = om_Namespace (bc_ObjectMeta c)"
  "om_OwnerReferences (svc_ObjectMeta (NewHeadlessService c i)) =
     [NewControllerRef (bc_ObjectMeta c) BrokerClusterGVK]"
  by (simp_all add: NewHeadlessService_def)

lemma NewStatefulSet_meta [simp]:
  "om_Name (ss_ObjectMeta (NewStatefulSet c i)) = Sprintf_d (group_name_format c) i"
  "om_Namespace (ss_ObjectMeta (NewStatefulSet c i)) = om_Namespace (bc_ObjectMeta c)"
  "om_OwnerReferences (ss_ObjectMeta (NewStatefulSet c i)) =
     [NewControllerRef (bc_ObjectMeta c) BrokerClusterGVK]"
  "ss_SpecReplicas (ss_Spec (NewStatefulSet c i)) = Some (MembersPerGroup (Spec c))"
  "ss_ServiceName (ss_Spec (NewStatefulSet c i)) = Sprintf_d (svc_name_format c) i"
  "ss_Status (NewStatefulSet c i) = \<lparr>ss_Replicas = 0, ss_ReadyReplicas = 0\<rparr>"
  by (simp_all add: NewStatefulSet_def Let_def)

lemma new_objects_controlled [simp]:
  "IsControlledBy (svc_ObjectMeta (NewHeadlessService c i)) (bc_ObjectMeta c)"
  "IsControlledBy (ss_ObjectMeta (NewStatefulSet c i)) (bc_ObjectMeta c)"
  by (simp_all add: IsControlledBy_def)

text \<open>
  Within one namespace, the objects of different clusters and of different groups never
  have the same name: the stateful sets (and the services) built for two cluster and
  index pairs have equal names exactly when the clusters' names and the indices are equal.
\<close>

theorem resource_names_unique:
  assumes "no_verb (om_Name (bc_ObjectMeta c))" "no_verb (om_Name (bc_ObjectMeta d))"
    and "0 \<le> i" "0 \<le> j"
  shows "(om_Name (ss_ObjectMeta (NewStatefulSet c i)) = om_Name (ss_ObjectMeta (NewStatefulSet d j)) \<longleftrightarrow>
      om_Name (bc_ObjectMeta c) = om_Name (bc_ObjectMeta d) \<and> i = j)
    \<and> (om_Name (svc_ObjectMeta (NewHeadlessService c i)) = om_Name (svc_ObjectMeta (NewHeadlessService d j)) \<longleftrightarrow>
      om_Name (bc_ObjectMeta c) = om_Name (bc_ObjectMeta d) \<and> i = j)"
  using assms by (simp add: group_name_inj svc_name_inj)

definition sample_cluster :: cluster_val where
  "sample_cluster = cluster_at sample_heap 0"

lemma sample_cluster_meta [simp]:
  "om_Name (bc_ObjectMeta sample_cluster) = ''mybrokercluster''"
  "om_Namespace (bc_ObjectMeta sample_cluster) = ''rocketmq-operator''"
  "om_UID (bc_ObjectMeta sample_cluster) = ''u1''"
  by (simp_all add: sample_cluster_def cluster_at_def sample_heap_def sample_obj_def)

lemma sample_no_verb [simp]: "no_verb ''mybrokercluster''"
  by (simp add: no_verb_def)

theorem resource_names_unique_witness:
  "om_Name (ss_ObjectMeta (NewStatefulSet sample_cluster 0)) \<noteq>
   om_Name (ss_ObjectMeta (NewStatefulSet sample_cluster 1))"
  using resource_names_unique [of sample_cluster sample_cluster 0 1] by simp

section \<open>Services reach exactly the pods of their group\<close>

lemma selects_single: "selects [k \<mapsto> v] m \<longleftrightarrow> m k = Some v"
  by (auto simp: selects_def map_le_def)

definition pod_labels :: "StatefulSet \<Rightarrow> strmap" where
  "pod_labels ss = (case tpl_Labels (ss_Template (ss_Spec ss)) of None \<Rightarrow> Map.empty | Some m \<Rightarrow> m)"

definition service_selector :: "Service \<Rightarrow> strmap" where
  "service_selector s = (case svc_Selector (svc_Spec s) of None \<Rightarrow> Map.empty | Some m \<Rightarrow> m)"

lemma service_selector_new:
  "service_selector (NewHeadlessService c i) = [BrokerClusterLabel \<mapsto> Sprintf_d (group_name_format c) i]"
  by (simp add: service_selector_def NewHeadlessService_def)

lemma pod_labels_new:
  "pod_labels (NewStatefulSet c i) =
     [BrokerClusterLabel \<mapsto> Sprintf_d (group_name_format c) i,
      BrokerRoleLabel \<mapsto> if i = 0 then BrokerRoleMaster else BrokerRoleSlave]"
  by (simp add: pod_labels_def NewStatefulSet_def Let_def)

text \<open>
  C29: The headless service of a group selects the pods of that group's stateful set and of
  no other group or cluster; it is the service the stateful set names as its governing
  service, and it is in the stateful set's namespace.
\<close>

theorem service_selects_own_group:
  assumes "no_verb (om_Name (bc_ObjectMeta c))" "no_verb (om_Name (bc_ObjectMeta d))"
    and "0 \<le> i" "0 \<le> j"
  shows "(selects (service_selector (NewHeadlessService c i)) (pod_labels (NewStatefulSet d j)) \<longleftrightarrow>
      om_Name (bc_ObjectMeta c) = om_Name (bc_ObjectMeta d) \<and> i = j)
    \<and> ss_ServiceName (ss_Spec (NewStatefulSet c i)) = om_Name (svc_ObjectMeta (NewHeadlessService c i))
    \<and> om_Namespace (ss_ObjectMeta (NewStatefulSet c i)) = om_Namespace (svc_ObjectMeta (NewHeadlessService c i))"
proof -
  have "selects (service_selector (NewHeadlessService c i)) (pod_labels (NewStatefulSet d j)) \<longleftrightarrow>
      Sprintf_d (group_name_format c) i = Sprintf_d (group_name_format d) j"
    by (auto simp: service_selector_new pod_labels_new selects_single)
  then show ?thesis using group_name_inj [OF assms] by simp
qed

theorem service_selects_own_group_witness:
  "selects (service_selector (NewHeadlessService sample_cluster 1)) (pod_labels (NewStatefulSet sample_cluster 1))
   \<and> \<not> selects (service_selector (NewHeadlessService sample_cluster 1)) (pod_labels (NewStatefulSet sample_cluster 0))"
  using service_selects_own_group [of sample_cluster sample_cluster 1 1]
    service_selects_own_group [of sample_cluster sample_cluster 1 0] by simp

section \<open>Well-formed stateful sets\<close>

text \<open>
  What the API server demands of a stateful set, as far as the builder decides it: the
  selector matches the template's labels, every volume a container mounts is declared,
  and names of environment variables, volumes and ports do not clash.
\<close>

definition container_ok :: "PodSpec \<Rightarrow> Container \<Rightarrow> bool" where
  "container_ok ps ct \<longleftrightarrow>
     vm_Name ` set (ct_VolumeMounts ct) \<subseteq> vol_Name ` set (pod_Volumes ps) \<and>
     distinct (map env_Name (ct_Env ct)) \<and> distinct (map cp_ContainerPort (ct_Ports ct))"

definition statefulset_ok :: "StatefulSet \<Rightarrow> bool" where
  "statefulset_ok ss \<longleftrightarrow>
     (case ss_MatchLabels (ss_Spec ss) of None \<Rightarrow> False | Some sel \<Rightarrow> selects sel (pod_labels ss)) \<and>
     (let ps = tpl_Spec (ss_Template (ss_Spec ss)) in
      distinct (map vol_Name (pod_Volumes ps)) \<and> (\<forall>ct \<in> set (pod_Containers ps). container_ok ps ct))"

text \<open>
  C31: Every stateful set the operator builds is well-formed, asks for the cluster's members
  per group as replicas, and has the cluster as its controller; so does its service.
\<close>

theorem NewStatefulSet_wellformed:
  "statefulset_ok (NewStatefulSet c i) \<and>
   ss_SpecReplicas (ss_Spec (NewStatefulSet c i)) = Some (MembersPerGroup (Spec c)) \<and>
   IsControlledBy (ss_ObjectMeta (NewStatefulSet c i)) (bc_ObjectMeta c) \<and>
   IsControlledBy (svc_ObjectMeta (NewHeadlessService c i)) (bc_ObjectMeta c)"
proof -
  have "statefulset_ok (NewStatefulSet c i)"
    by (simp add: statefulset_ok_def pod_labels_def NewStatefulSet_def Let_def container_ok_def
        brokerContainer_def selects_def)
  then show ?thesis by simp
qed

definition container_env :: "StatefulSet \<Rightarrow> string \<Rightarrow> string option" where
  "container_env ss k =
     (case pod_Containers (tpl_Spec (ss_Template (ss_Spec ss))) of
        [] \<Rightarrow> None
      | ct # _ \<Rightarrow> map_option env_Value (find (\<lambda>e. env_Name e = k) (ct_Env ct)))"

lemma container_env_new:
  "container_env (NewStatefulSet c i) ''DELETE_WHEN'' = Some (go_lookup_opt (Properties (Spec c)) ''DELETE_WHEN'')"
  "container_env (NewStatefulSet c i) ''FILE_RESERVED_TIME'' =
     Some (go_lookup_opt (Properties (Spec c)) ''FILE_RESERVED_TIME'')"
  "container_env (NewStatefulSet c i) ''FLUSH_DISK_TYPE'' =
     Some (go_lookup_opt (Properties (Spec c)) ''FLUSH_DISK_TYPE'')"
  "container_env (NewStatefulSet c i) ''REPLICATION_MODE'' = Some (ReplicationMode (Spec c))"
  "container_env (NewStatefulSet c i) ''ALL_MASTER'' = Some (FormatBool (AllMaster (Spec c)))"
  "container_env (NewStatefulSet c i) ''BROKER_NAME'' = Some (''broker-'' @ dec_int i)"
  by (simp_all add: container_env_def NewStatefulSet_def Let_def brokerContainer_def)

text \<open>
  Defaulting and building together: after \<open>EnsureDefaults\<close> the broker container gets a
  non-empty value for \<open>DELETE_WHEN\<close>, \<open>FILE_RESERVED_TIME\<close> and \<open>FLUSH_DISK_TYPE\<close>, but its
  \<open>REPLICATION_MODE\<close> is the spec's own field: the default written under that key into the
  properties never reaches the container, and an omitted field stays empty.
\<close>

theorem default_environment:
  "(\<forall>k \<in> {''DELETE_WHEN'', ''FILE_RESERVED_TIME'', ''FLUSH_DISK_TYPE''}.
      \<exists>v. container_env (NewStatefulSet (defaulted c) i) k = Some v \<and> v \<noteq> '''') \<and>
   go_lookup_opt (Properties (Spec (defaulted c))) ''REPLICATION_MODE'' \<noteq> '''' \<and>
   container_env (NewStatefulSet (defaulted c) i) ''REPLICATION_MODE'' = Some (ReplicationMode (Spec c))"
proof -
  have "go_lookup_opt (Properties (Spec (defaulted c))) k \<noteq> ''''"
    if "k \<in> {''DELETE_WHEN'', ''FILE_RESERVED_TIME'', ''REPLICATION_MODE'', ''FLUSH_DISK_TYPE''}" for k
    using that by (auto simp: defaulted_def defaulted_spec_def go_lookup_defaulted_properties)
  then show ?thesis by (simp add: container_env_new)
qed

theorem default_environment_witness:
  "\<exists>v. container_env (NewStatefulSet (defaulted sample_cluster) 0) ''FLUSH_DISK_TYPE'' = Some v \<and> v \<noteq> ''''"
  using default_environment [of sample_cluster 0] by blast

definition host_paths :: "StatefulSet \<Rightarrow> string list" where
  "host_paths ss = map vol_HostPath (pod_Volumes (tpl_Spec (ss_Template (ss_Spec ss))))"

text \<open>
  The host paths of a group's logs and store depend on the group's index only, not on
  the cluster or the member: the paths of two stateful sets are equal exactly when the
  indices are, so two clusters scheduled to one node share the directories of their
  groups with equal index.
\<close>

theorem host_paths_by_index:
  "host_paths (NewStatefulSet c i) = host_paths (NewStatefulSet d j) \<longleftrightarrow> i = j"
  by (simp add: host_paths_def NewStatefulSet_def Let_def)

end
