(* ===== verification/Indexer.thy ===== *)
theory Indexer
  imports Resources
begin

text \<open>
  The informers' stores (\<open>cache\<close> over \<open>threadSafeMap\<close>) and the listers that read them: the
  generated lister of broker clusters (\<open>pkg/generated/listers\<close>) and the two listers of
  client-go the controller uses.

  A store maps keys to objects. For services and stateful sets, which the operator only
  reads, objects are values; for broker clusters they are pointers into the heap, because
  the operator writes through what the lister returns. Iteration over a Go map has no
  specified order, so listing yields a set.
\<close>

type_synonym 'o indexer = "string \<rightharpoonup> 'o"

section \<open>The store\<close>

definition threadSafeMap_Add :: "'o indexer \<Rightarrow> string \<Rightarrow> 'o \<Rightarrow> 'o indexer" where
  "threadSafeMap_Add c key obj = c(key \<mapsto> obj)"

definition threadSafeMap_Update :: "'o indexer \<Rightarrow> string \<Rightarrow> 'o \<Rightarrow> 'o indexer" where
  "threadSafeMap_Update c key obj = c(key \<mapsto> obj)"

definition threadSafeMap_Delete :: "'o indexer \<Rightarrow> string \<Rightarrow> 'o indexer" where
  "threadSafeMap_Delete c key = (case c key of None \<Rightarrow> c | Some _ \<Rightarrow> c(key := None))"

definition GetByKey :: "'o indexer \<Rightarrow> string \<Rightarrow> 'o option" where
  "GetByKey c key = c key"

text \<open>\<open>Add\<close>, \<open>Update\<close> and \<open>Delete\<close> of an object compute its key first.\<close>

definition cache_Add :: "('o \<Rightarrow> strmap ObjectMeta) \<Rightarrow> 'o indexer \<Rightarrow> 'o \<Rightarrow> 'o indexer" where
  "cache_Add meta c obj = threadSafeMap_Add c (MetaNamespaceKeyFunc (meta obj)) obj"

definition cache_Update :: "('o \<Rightarrow> strmap ObjectMeta) \<Rightarrow> 'o indexer \<Rightarrow> 'o \<Rightarrow> 'o indexer" where
  "cache_Update meta c obj = threadSafeMap_Update c (MetaNamespaceKeyFunc (meta obj)) obj"

definition cache_Delete :: "('o \<Rightarrow> strmap ObjectMeta) \<Rightarrow> 'o indexer \<Rightarrow> 'o \<Rightarrow> 'o indexer" where
  "cache_Delete meta c obj = threadSafeMap_Delete c (MetaNamespaceKeyFunc (meta obj))"

text \<open>The contract of a keyed store and what its clients rely on.\<close>

locale keyed_store =
  fixes get :: "'s \<Rightarrow> string \<Rightarrow> 'o option"
    and put :: "'s \<Rightarrow> string \<Rightarrow> 'o \<Rightarrow> 's"
    and del :: "'s \<Rightarrow> string \<Rightarrow> 's"
  assumes get_put: "get (put s k x) k' = (if k' = k then Some x else get s k')"
    and get_del: "get (del s k) k' = (if k' = k then None else get s k')"
begin

lemma get_put_same: "get (put s k x) k = Some x"
  by (simp add: get_put)

lemma get_put_other: "k' \<noteq> k \<Longrightarrow> get (put s k x) k' = get s k'"
  by (simp add: get_put)

lemma get_del_same: "get (del s k) k = None"
  by (simp add: get_del)

lemma put_put_get: "get (put (put s k x) k y) k' = get (put s k y) k'"
  by (simp add: get_put)

lemma del_put_get: "get (del (put s k x) k) k' = get (del s k) k'"
  by (simp add: get_put get_del)

end

interpretation adds: keyed_store GetByKey threadSafeMap_Add threadSafeMap_Delete
  by unfold_locales
     (auto simp: GetByKey_def threadSafeMap_Add_def threadSafeMap_Delete_def split: option.split)

interpretation updates: keyed_store GetByKey threadSafeMap_Update threadSafeMap_Delete
  by unfold_locales
     (auto simp: GetByKey_def threadSafeMap_Update_def threadSafeMap_Delete_def split: option.split)

section \<open>Listers\<close>

definition BrokerClusters_Get :: "addr indexer \<Rightarrow> string \<Rightarrow> string \<Rightarrow> go_error + addr" where
  "BrokerClusters_Get ix namespace name =
     (case GetByKey ix (namespace @ ''/'' @ name) of
        None \<Rightarrow> Inl (NewNotFound (Resource ''brokercluster'') name)
      | Some p \<Rightarrow> Inr p)"

definition Services_Get :: "Service indexer \<Rightarrow> string \<Rightarrow> string \<Rightarrow> go_error + Service" where
  "Services_Get ix namespace name =
     (case GetByKey ix (namespace @ ''/'' @ name) of
        None \<Rightarrow> Inl (NewNotFound \<lparr>gr_Group = '''', gr_Resource = ''service''\<rparr> name)
      | Some s \<Rightarrow> Inr s)"

definition StatefulSets_Get :: "StatefulSet indexer \<Rightarrow> string \<Rightarrow> string \<Rightarrow> go_error + StatefulSet" where
  "StatefulSets_Get ix namespace name =
     (case GetByKey ix (namespace @ ''/'' @ name) of
        None \<Rightarrow> Inl (NewNotFound \<lparr>gr_Group = ''apps'', gr_Resource = ''statefulset''\<rparr> name)
      | Some s \<Rightarrow> Inr s)"

text \<open>
  The generated lister of broker clusters: a lister is its indexer, a namespace lister the
  indexer and the namespace. The type of the indexer is a parameter, since the controller
  is put together before the stores have any content.
\<close>

record 'i brokerClusterLister =
  bl_indexer :: 'i

definition NewBrokerClusterLister :: "'i \<Rightarrow> 'i brokerClusterLister" where
  "NewBrokerClusterLister indexer = \<lparr>bl_indexer = indexer\<rparr>"

record 'i brokerClusterNamespaceLister =
  bnl_indexer :: 'i
  bnl_namespace :: string

definition brokerClusterLister_BrokerClusters :: "'i brokerClusterLister \<Rightarrow> string \<Rightarrow> 'i brokerClusterNamespaceLister" where
  "brokerClusterLister_BrokerClusters s namespace = \<lparr>bnl_indexer = bl_indexer s, bnl_namespace = namespace\<rparr>"

text \<open>
  Listing: \<open>matches\<close> is the selector, \<open>cluster_labels\<close> what it is applied to. The namespaced
  list is that of all objects when the namespace is \<open>NamespaceAll\<close>.
\<close>

definition cluster_labels :: "heap \<Rightarrow> addr \<Rightarrow> strmap" where
  "cluster_labels h p =
     (case om_Labels (bc_ObjectMeta (cluster_at h p)) of None \<Rightarrow> Map.empty | Some m \<Rightarrow> m)"

definition brokerClusterLister_List :: "heap \<Rightarrow> addr indexer \<Rightarrow> (strmap \<Rightarrow> bool) \<Rightarrow> addr set" where
  "brokerClusterLister_List h ix matches = {p \<in> ran ix. matches (cluster_labels h p)}"

definition NamespaceAll :: string where
  "NamespaceAll = ''''"

definition brokerClusterNamespaceLister_List ::
    "heap \<Rightarrow> addr indexer \<Rightarrow> string \<Rightarrow> (strmap \<Rightarrow> bool) \<Rightarrow> addr set" where
  "brokerClusterNamespaceLister_List h ix namespace matches =
     (if namespace = NamespaceAll then brokerClusterLister_List h ix matches
      else {p \<in> ran ix. om_Namespace (bc_ObjectMeta (cluster_at h p)) = namespace \<and>
                         matches (cluster_labels h p)})"

lemma Get_results [simp]:
  "BrokerClusters_Get ix ns n = Inr p \<longleftrightarrow> GetByKey ix (ns @ ''/'' @ n) = Some p"
  "Services_Get jx ns n = Inr s \<longleftrightarrow> GetByKey jx (ns @ ''/'' @ n) = Some s"
  "StatefulSets_Get kx ns n = Inr t \<longleftrightarrow> GetByKey kx (ns @ ''/'' @ n) = Some t"
  by (auto simp: BrokerClusters_Get_def Services_Get_def StatefulSets_Get_def split: option.split)

lemma Get_error_NotFound:
  "BrokerClusters_Get ix ns n = Inl e \<Longrightarrow> IsNotFound (Some e)"
  "Services_Get jx ns n = Inl e \<Longrightarrow> IsNotFound (Some e)"
  "StatefulSets_Get kx ns n = Inl e \<Longrightarrow> IsNotFound (Some e)"
  by (auto simp: BrokerClusters_Get_def Services_Get_def StatefulSets_Get_def split: option.splits)

lemma key_of_namespaced:
  "om_Namespace om \<noteq> '''' \<Longrightarrow> MetaNamespaceKeyFunc om = om_Namespace om @ ''/'' @ om_Name om"
  by (simp add: MetaNamespaceKeyFunc_def)

text \<open>
  The same lookup by the two halves of a queue key, as \<open>syncHandler\<close> makes it, or by
  name: a store filled through \<open>cache_Add\<close> finds a namespaced object under its namespace
  and name, keeps the others, and reports \<open>NotFound\<close> after \<open>cache_Delete\<close>.
\<close>

lemma key_pair_inj:
  assumes "no_slash ns" "no_slash ns'" "no_slash n" "no_slash n'"
  shows "ns @ ''/'' @ n = ns' @ ''/'' @ n' \<longleftrightarrow> ns = ns' \<and> n = n'"
proof
  assume "ns @ ''/'' @ n = ns' @ ''/'' @ n'"
  then have "SplitMetaNamespaceKey (ns @ ''/'' @ n) = SplitMetaNamespaceKey (ns' @ ''/'' @ n')" by simp
  then show "ns = ns' \<and> n = n'"
    unfolding SplitMetaNamespaceKey_pair [OF assms(1,3)] SplitMetaNamespaceKey_pair [OF assms(2,4)]
    by simp
qed simp

text \<open>
  The store and the lister agree on keys: after adding an object with a namespace the
  lister returns it for its namespace and name and its answers for every other valid pair
  are unchanged; after deleting it the lister answers NotFound.
\<close>

theorem lister_after_add_delete:
  fixes s :: Service
  defines "ns \<equiv> om_Namespace (svc_ObjectMeta s)" and "n \<equiv> om_Name (svc_ObjectMeta s)"
  assumes "ns \<noteq> ''''" "no_slash ns" "no_slash n" "no_slash ns'" "no_slash n'"
  shows "Services_Get (cache_Add svc_ObjectMeta ix s) ns' n' =
       (if ns' = ns \<and> n' = n then Inr s else Services_Get ix ns' n')
     \<and> (\<exists>e. Services_Get (cache_Delete svc_ObjectMeta ix s) ns n = Inl e \<and> IsNotFound (Some e))"
proof -
  have key: "MetaNamespaceKeyFunc (svc_ObjectMeta s) = ns @ ''/'' @ n"
    using assms by (simp add: key_of_namespaced)
  have "GetByKey (cache_Add svc_ObjectMeta ix s) (ns' @ ''/'' @ n') =
      (if ns' = ns \<and> n' = n then Some s else GetByKey ix (ns' @ ''/'' @ n'))"
    unfolding cache_Add_def key
    using key_pair_inj [of ns' ns n' n] assms by (simp add: adds.get_put)
  moreover have "GetByKey (cache_Delete svc_ObjectMeta ix s) (ns @ ''/'' @ n) = None"
    unfolding cache_Delete_def key by (rule adds.get_del_same)
  ultimately show ?thesis by (auto simp: Services_Get_def)
qed

theorem lister_after_add_delete_witness:
  "Services_Get (cache_Add svc_ObjectMeta Map.empty (NewHeadlessService sample_cluster 0))
     ''rocketmq-operator'' ''mybrokercluster-svc-0'' = Inr (NewHeadlessService sample_cluster 0)"
proof -
  let ?s = "NewHeadlessService sample_cluster 0"
  have name: "om_Name (svc_ObjectMeta ?s) = ''mybrokercluster-svc-0''"
    using svc_name [of sample_cluster 0]
    by (simp add: dec_int_def dec_nat.simps digit_def digit_chars_def)
  show ?thesis
    using lister_after_add_delete [of ?s "''rocketmq-operator''" "''mybrokercluster-svc-0''" Map.empty]
    unfolding name by (simp add: no_slash_def)
qed

end
