(* ===== verification/Retry.thy ===== *)
theory Retry
  imports K8s_Meta
begin

text \<open>
  \<open>retry.RetryOnConflict\<close> and the loop it runs on, \<open>wait.ExponentialBackoff\<close>. The Go
  functions take closures; here a closure is a function on the state it captures. Sleeping
  between attempts gives the rest of the system time to act: \<open>sleep\<close> is what happens to
  the captured state meanwhile. The durations of the sleeps are not modelled.

  \<open>before fn sleep s i\<close> is the state before attempt \<open>i\<close> if all earlier attempts failed;
  the theorem determines the result and the final state from the attempts alone.
\<close>

definition DefaultRetry_Steps :: nat where
  "DefaultRetry_Steps = 5"

fun ExponentialBackoff :: "nat \<Rightarrow> bool \<Rightarrow> ('s \<Rightarrow> 's) \<Rightarrow> ('s \<Rightarrow> 's \<times> bool \<times> go_error option)
    \<Rightarrow> 's \<Rightarrow> 's \<times> go_error option" where
  "ExponentialBackoff 0 first sleep condition s = (s, Some ErrWaitTimeout)"
| "ExponentialBackoff (Suc n) first sleep condition s =
     (case condition (if first then s else sleep s) of
        (s', ok, err) \<Rightarrow>
          if err \<noteq> None \<or> ok then (s', err)
          else ExponentialBackoff n False sleep condition s')"

definition conflict_condition :: "('s \<Rightarrow> 's \<times> go_error option)
    \<Rightarrow> 's \<times> go_error option \<Rightarrow> ('s \<times> go_error option) \<times> bool \<times> go_error option" where
  "conflict_condition fn sl =
     (case sl of (s, lastConflictErr) \<Rightarrow>
        (case fn s of
           (s', None) \<Rightarrow> ((s', lastConflictErr), True, None)
         | (s', Some e) \<Rightarrow>
             (if IsConflict (Some e) then ((s', Some e), False, None)
              else ((s', lastConflictErr), False, Some e))))"

definition RetryOnConflict :: "nat \<Rightarrow> ('s \<Rightarrow> 's) \<Rightarrow> ('s \<Rightarrow> 's \<times> go_error option)
    \<Rightarrow> 's \<Rightarrow> 's \<times> go_error option" where
  "RetryOnConflict steps sleep fn s =
     (case ExponentialBackoff steps True (\<lambda>(t, l). (sleep t, l)) (conflict_condition fn) (s, None) of
        ((s', lastConflictErr), err) \<Rightarrow>
          (s', if err = Some ErrWaitTimeout then lastConflictErr else err))"

fun before :: "('s \<Rightarrow> 's \<times> go_error option) \<Rightarrow> ('s \<Rightarrow> 's) \<Rightarrow> 's \<Rightarrow> nat \<Rightarrow> 's" where
  "before fn sleep s 0 = s"
| "before fn sleep s (Suc i) = sleep (fst (fn (before fn sleep s i)))"

definition attempt :: "('s \<Rightarrow> 's \<times> go_error option) \<Rightarrow> ('s \<Rightarrow> 's) \<Rightarrow> 's \<Rightarrow> nat \<Rightarrow> go_error option" where
  "attempt fn sleep s i = snd (fn (before fn sleep s i))"

lemma before_shift: "before fn sleep (sleep (fst (fn s))) i = before fn sleep s (Suc i)"
  by (induction i) simp_all

lemma attempt_shift: "attempt fn sleep (sleep (fst (fn s))) i = attempt fn sleep s (Suc i)"
  unfolding attempt_def before_shift ..

text \<open>The loop, from a state before an attempt on.\<close>

lemma conflict_loop:
  assumes "ExponentialBackoff (Suc n) first (\<lambda>(t, l). (sleep t, l)) (conflict_condition fn) (s, l) =
      ((s', l'), err)"
  shows "\<exists>k \<le> n. (\<forall>i < k. IsConflict (attempt fn sleep (if first then s else sleep s) i)) \<and>
     (k < n \<longrightarrow> \<not> IsConflict (attempt fn sleep (if first then s else sleep s) k)) \<and>
     s' = fst (fn (before fn sleep (if first then s else sleep s) k)) \<and>
     (if IsConflict (attempt fn sleep (if first then s else sleep s) k)
      then err = Some ErrWaitTimeout \<and> l' = attempt fn sleep (if first then s else sleep s) k
      else err = attempt fn sleep (if first then s else sleep s) k)"
  using assms
proof (induction n arbitrary: first s l)
  case 0
  then show ?case
    by (auto simp: conflict_condition_def attempt_def split: prod.splits option.splits if_splits)
next
  case (Suc n)
  define t where "t = (if first then s else sleep s)"
  obtain u e where fn: "fn t = (u, e)" by fastforce
  show ?case
  proof (cases "IsConflict e")
    case False
    then have "s' = u \<and> err = e"
      using Suc.prems fn
      by (auto simp: conflict_condition_def t_def split: option.splits if_splits)
    with False fn show ?thesis
      by (intro exI [of _ 0]) (auto simp: attempt_def t_def)
  next
    case True
    then obtain x where "e = Some x" by (cases e) auto
    with True fn have step: "conflict_condition fn (t, l) = ((u, e), False, None)"
      by (simp add: conflict_condition_def)
    have start: "(if first then (s, l) else case (s, l) of (t, l) \<Rightarrow> (sleep t, l)) = (t, l)"
      by (simp add: t_def)
    have "ExponentialBackoff (Suc (Suc n)) first (\<lambda>(t, l). (sleep t, l)) (conflict_condition fn) (s, l) =
        ExponentialBackoff (Suc n) False (\<lambda>(t, l). (sleep t, l)) (conflict_condition fn) (u, e)"
      by (subst ExponentialBackoff.simps(2), subst start, subst step) simp
    with Suc.prems have "ExponentialBackoff (Suc n) False (\<lambda>(t, l). (sleep t, l))
        (conflict_condition fn) (u, e) = ((s', l'), err)" by simp
    note IH = Suc.IH [OF this, unfolded if_False]
    have u: "sleep u = sleep (fst (fn t))" by (simp add: fn)
    from IH [unfolded u attempt_shift before_shift] obtain k where k: "k \<le> n"
      "\<forall>i < k. IsConflict (attempt fn sleep t (Suc i))"
      "k < n \<longrightarrow> \<not> IsConflict (attempt fn sleep t (Suc k))"
      "s' = fst (fn (before fn sleep t (Suc k)))"
      "if IsConflict (attempt fn sleep t (Suc k))
       then err = Some ErrWaitTimeout \<and> l' = attempt fn sleep t (Suc k)
       else err = attempt fn sleep t (Suc k)"
      by blast
    have zero: "IsConflict (attempt fn sleep t 0)"
      using True fn by (simp add: attempt_def)
    have "\<forall>i < Suc k. IsConflict (attempt fn sleep t i)"
    proof (intro allI impI)
      fix i assume "i < Suc k"
      then show "IsConflict (attempt fn sleep t i)"
        using zero k(2) by (cases i) simp_all
    qed
    moreover have "Suc k \<le> Suc n" "Suc k < Suc n \<longrightarrow> \<not> IsConflict (attempt fn sleep t (Suc k))"
      using k(1,3) by simp_all
    ultimately show ?thesis
      unfolding t_def [symmetric] using k(4,5) by blast
  qed
qed

text \<open>The run as a whole; the property below is its statement for the reader.\<close>

lemma RetryOnConflict_run:
  assumes run: "RetryOnConflict steps sleep fn s = (s', err)" and steps: "0 < steps"
    and no_timeout: "\<And>t. snd (fn t) \<noteq> Some ErrWaitTimeout"
  shows "\<exists>k < steps. (\<forall>i < k. IsConflict (attempt fn sleep s i)) \<and>
     (Suc k < steps \<longrightarrow> \<not> IsConflict (attempt fn sleep s k)) \<and>
     err = attempt fn sleep s k \<and> s' = fst (fn (before fn sleep s k))"
proof -
  obtain n where n: "steps = Suc n" using steps by (cases steps) auto
  obtain l' e where loop: "ExponentialBackoff (Suc n) True (\<lambda>(t, l). (sleep t, l))
      (conflict_condition fn) (s, None) = ((s', l'), e)"
    and err: "err = (if e = Some ErrWaitTimeout then l' else e)"
    using run unfolding RetryOnConflict_def n by (auto split: prod.splits)
  from conflict_loop [OF loop] obtain k where k: "k \<le> n"
    "\<forall>i < k. IsConflict (attempt fn sleep s i)" "k < n \<longrightarrow> \<not> IsConflict (attempt fn sleep s k)"
    "s' = fst (fn (before fn sleep s k))"
    "if IsConflict (attempt fn sleep s k) then e = Some ErrWaitTimeout \<and> l' = attempt fn sleep s k
     else e = attempt fn sleep s k"
    by auto
  have "attempt fn sleep s k \<noteq> Some ErrWaitTimeout"
    using no_timeout by (simp add: attempt_def)
  with k err have "err = attempt fn sleep s k" by (auto split: if_splits)
  with k n show ?thesis by (intro exI [of _ k]) auto
qed

text \<open>
  C26: \<open>RetryOnConflict\<close> makes at least one and at most \<open>steps\<close> attempts. It stops at the
  first attempt that does not end in a conflict and returns that attempt's result, nil on
  success; if all attempts end in conflicts it returns the last conflict. So it returns
  nil exactly when the last attempt it made succeeded. (The attempts are assumed not to
  return \<open>ErrWaitTimeout\<close> themselves, which the function cannot tell from its own.)
\<close>

theorem RetryOnConflict_spec:
  assumes run: "RetryOnConflict steps sleep fn s = (s', err)" and steps: "0 < steps"
    and no_timeout: "\<And>t. snd (fn t) \<noteq> Some ErrWaitTimeout"
  shows "\<exists>k < steps. (\<forall>i < k. IsConflict (attempt fn sleep s i)) \<and>
     (Suc k < steps \<longrightarrow> \<not> IsConflict (attempt fn sleep s k)) \<and>
     err = attempt fn sleep s k \<and> s' = fst (fn (before fn sleep s k))"
  by (rule RetryOnConflict_run [OF run steps no_timeout])

text \<open>A closure that conflicts twice and then succeeds.\<close>

definition third_time :: "nat \<Rightarrow> nat \<times> go_error option" where
  "third_time n = (Suc n, if n < 2 then Some (StatusError ReasonConflict ''conflict'') else None)"

theorem RetryOnConflict_spec_witness:
  "\<exists>k < 5. (\<forall>i < k. IsConflict (attempt third_time id 0 i)) \<and>
     (Suc k < 5 \<longrightarrow> \<not> IsConflict (attempt third_time id 0 k)) \<and>
     None = attempt third_time id 0 k \<and> 3 = fst (third_time (before third_time id 0 k))"
proof -
  have "RetryOnConflict 5 id third_time 0 = (3, None)"
    by (simp add: RetryOnConflict_def conflict_condition_def third_time_def numeral_eq_Suc)
  then show ?thesis
    by (rule RetryOnConflict_spec) (auto simp: third_time_def)
qed

end
