(* ===== verification/Client.thy ===== *)
theory Client
  imports Indexer Retry
begin

text \<open>
  The state of the operator process and its calls to the API server.

  \<open>world\<close> holds the heap, the three informer stores the controller reads, the environment
  (the API server and the clock, of any type \<open>'w\<close>), and what the process emits: the trace
  of API calls with their results, recorded events, and errors passed to
  \<open>utilruntime.HandleError\<close>. Log lines are not modelled.

  \<open>client\<close> is everything outside the repository's own code that a call needs: the answers
  of the API server, the clock, JSON marshalling and the strategic merge patch, and what
  other goroutines do while a retry sleeps. It is a parameter of every definition that
  uses it; a property that needs a documented behaviour of it says so in a hypothesis.

  The operations are \<open>service_control.go\<close>, \<open>statefulset_control.go\<close>, \<open>pod_control.go\<close> and
  \<open>pkg/controllers/util/patch.go\<close>.
\<close>

section \<open>Pods, as far as they are passed along\<close>

record Pod =
  pod_ObjectMeta :: "strmap ObjectMeta"
  pod_Body :: string

section \<open>Calls, events, the world\<close>

datatype api_call =
    CallCreateService string Service
  | CallCreateStatefulSet string StatefulSet
  | CallUpdateStatefulSet string StatefulSet
  | CallPatchStatefulSet string string string
  | CallUpdatePod string Pod
  | CallPatchPod string string string
  | CallUpdateCluster string cluster_val

record event =
  ev_Object :: cluster_val
  ev_Type :: string
  ev_Reason :: string
  ev_Message :: string

record 'w world =
  w_heap :: heap
  w_clusters :: "addr indexer"
  w_services :: "Service indexer"
  w_statefulsets :: "StatefulSet indexer"
  w_env :: 'w
  w_trace :: "(api_call \<times> go_error option) list"
  w_events :: "event list"
  w_errors :: "go_error list"

record 'w client =
  cl_CreateService :: "'w \<Rightarrow> string \<Rightarrow> Service \<Rightarrow> 'w \<times> (go_error + Service)"
  cl_CreateStatefulSet :: "'w \<Rightarrow> string \<Rightarrow> StatefulSet \<Rightarrow> 'w \<times> (go_error + StatefulSet)"
  cl_UpdateStatefulSet :: "'w \<Rightarrow> string \<Rightarrow> StatefulSet \<Rightarrow> 'w \<times> (go_error + StatefulSet)"
  cl_PatchStatefulSet :: "'w \<Rightarrow> string \<Rightarrow> string \<Rightarrow> string \<Rightarrow> 'w \<times> (go_error + StatefulSet)"
  cl_UpdatePod :: "'w \<Rightarrow> string \<Rightarrow> Pod \<Rightarrow> 'w \<times> (go_error + Pod)"
  cl_PatchPod :: "'w \<Rightarrow> string \<Rightarrow> string \<Rightarrow> string \<Rightarrow> 'w \<times> (go_error + Pod)"
  cl_UpdateCluster :: "'w \<Rightarrow> string \<Rightarrow> cluster_val \<Rightarrow> 'w \<times> (go_error + cluster_val)"
  cl_MarshalStatefulSet :: "StatefulSet \<Rightarrow> go_error + string"
  cl_MarshalPod :: "Pod \<Rightarrow> go_error + string"
  cl_MergePatchStatefulSet :: "string \<Rightarrow> string \<Rightarrow> go_error + string"
  cl_MergePatchPod :: "string \<Rightarrow> string \<Rightarrow> go_error + string"
  cl_Now :: "'w \<Rightarrow> time"
  cl_Sleep :: "'w world \<Rightarrow> 'w world"

definition err_of :: "go_error + 'a \<Rightarrow> go_error option" where
  "err_of r = (case r of Inl e \<Rightarrow> Some e | Inr _ \<Rightarrow> None)"

lemma err_of_simps [simp]: "err_of (Inl e) = Some e" "err_of (Inr x) = None"
  by (simp_all add: err_of_def)

text \<open>One call: the environment answers, the trace records it.\<close>

definition call_api :: "('w \<Rightarrow> 'w \<times> (go_error + 'r)) \<Rightarrow> api_call \<Rightarrow> 'w world
    \<Rightarrow> 'w world \<times> (go_error + 'r)" where
  "call_api f c w =
     (case f (w_env w) of
        (e, r) \<Rightarrow> (w\<lparr>w_env := e, w_trace := w_trace w @ [(c, err_of r)]\<rparr>, r))"

definition HandleError :: "go_error \<Rightarrow> 'w world \<Rightarrow> 'w world" where
  "HandleError e w = w\<lparr>w_errors := w_errors w @ [e]\<rparr>"

definition record_event :: "cluster_val \<Rightarrow> string \<Rightarrow> string \<Rightarrow> string \<Rightarrow> 'w world \<Rightarrow> 'w world" where
  "record_event obj ty reason msg w =
     w\<lparr>w_events := w_events w @
        [\<lparr>ev_Object = obj, ev_Type = ty, ev_Reason = reason, ev_Message = msg\<rparr>]\<rparr>"

section \<open>Direct updates and patches (patch.go)\<close>

definition UpdateStatefulSet :: "'w client \<Rightarrow> StatefulSet \<Rightarrow> 'w world \<Rightarrow> 'w world \<times> (go_error + StatefulSet)" where
  "UpdateStatefulSet cl newData w =
     (let ns = om_Namespace (ss_ObjectMeta newData) in
      call_api (\<lambda>e. cl_UpdateStatefulSet cl e ns newData) (CallUpdateStatefulSet ns newData) w)"

definition PatchStatefulSet :: "'w client \<Rightarrow> StatefulSet \<Rightarrow> StatefulSet \<Rightarrow> 'w world
    \<Rightarrow> 'w world \<times> (go_error + StatefulSet)" where
  "PatchStatefulSet cl oldData newData w =
     (case cl_MarshalStatefulSet cl oldData of
        Inl err \<Rightarrow> (w, Inl err)
      | Inr originalJSON \<Rightarrow>
     (case cl_MarshalStatefulSet cl newData of
        Inl err \<Rightarrow> (w, Inl err)
      | Inr updatedJSON \<Rightarrow>
     (case cl_MergePatchStatefulSet cl originalJSON updatedJSON of
        Inl err \<Rightarrow> (w, Inl err)
      | Inr patchBytes \<Rightarrow>
          (let ns = om_Namespace (ss_ObjectMeta oldData); name = om_Name (ss_ObjectMeta oldData) in
           call_api (\<lambda>e. cl_PatchStatefulSet cl e ns name patchBytes)
             (CallPatchStatefulSet ns name patchBytes) w))))"

definition Wrap :: "go_error \<Rightarrow> string \<Rightarrow> go_error" where
  "Wrap err msg =
     MessageError (msg @ '': '' @
       (case err of StatusError _ m \<Rightarrow> m | MessageError m \<Rightarrow> m
        | ErrWaitTimeout \<Rightarrow> ''timed out waiting for the condition''))"

definition UpdatePod :: "'w client \<Rightarrow> Pod \<Rightarrow> 'w world \<Rightarrow> 'w world \<times> (go_error + Pod)" where
  "UpdatePod cl newData w =
     (let ns = om_Namespace (pod_ObjectMeta newData) in
      case call_api (\<lambda>e. cl_UpdatePod cl e ns newData) (CallUpdatePod ns newData) w of
        (w', Inl err) \<Rightarrow> (w', Inl (Wrap err ''failed to update pod''))
      | (w', Inr result) \<Rightarrow> (w', Inr result))"

definition PatchPod :: "'w client \<Rightarrow> Pod \<Rightarrow> Pod \<Rightarrow> 'w world \<Rightarrow> 'w world \<times> (go_error + Pod)" where
  "PatchPod cl oldData newData w =
     (case cl_MarshalPod cl oldData of
        Inl err \<Rightarrow> (w, Inl err)
      | Inr currentPodJSON \<Rightarrow>
     (case cl_MarshalPod cl newData of
        Inl err \<Rightarrow> (w, Inl err)
      | Inr updatedPodJSON \<Rightarrow>
     (case cl_MergePatchPod cl currentPodJSON updatedPodJSON of
        Inl err \<Rightarrow> (w, Inl err)
      | Inr patchBytes \<Rightarrow>
          (let ns = om_Namespace (pod_ObjectMeta oldData); name = om_Name (pod_ObjectMeta oldData) in
           case call_api (\<lambda>e. cl_PatchPod cl e ns name patchBytes) (CallPatchPod ns name patchBytes) w of
             (w', Inl err) \<Rightarrow> (w', Inl (Wrap err ''failed to patch pod''))
           | (w', Inr result) \<Rightarrow> (w', Inr result)))))"

section \<open>The controls\<close>

definition CreateService :: "'w client \<Rightarrow> Service \<Rightarrow> 'w world \<Rightarrow> 'w world \<times> go_error option" where
  "CreateService cl s w =
     (let ns = om_Namespace (svc_ObjectMeta s) in
      case call_api (\<lambda>e. cl_CreateService cl e ns s) (CallCreateService ns s) w of
        (w', r) \<Rightarrow> (w', err_of r))"

definition CreateStatefulSet :: "'w client \<Rightarrow> StatefulSet \<Rightarrow> 'w world \<Rightarrow> 'w world \<times> go_error option" where
  "CreateStatefulSet cl ss w =
     (let ns = om_Namespace (ss_ObjectMeta ss) in
      case call_api (\<lambda>e. cl_CreateStatefulSet cl e ns ss) (CallCreateStatefulSet ns ss) w of
        (w', r) \<Rightarrow> (w', err_of r))"

definition Patch :: "'w client \<Rightarrow> StatefulSet \<Rightarrow> StatefulSet \<Rightarrow> 'w world \<Rightarrow> 'w world \<times> go_error option" where
  "Patch cl old new w = (case PatchStatefulSet cl old new w of (w', r) \<Rightarrow> (w', err_of r))"

definition PodControl_PatchPod :: "'w client \<Rightarrow> Pod \<Rightarrow> Pod \<Rightarrow> 'w world \<Rightarrow> 'w world \<times> go_error option" where
  "PodControl_PatchPod cl old new w = (case PatchPod cl old new w of (w', r) \<Rightarrow> (w', err_of r))"

section \<open>The contract of a control operation\<close>

text \<open>
  What an API call leaves alone: everything but the environment and the trace.
\<close>

definition same_local :: "'w world \<Rightarrow> 'w world \<Rightarrow> bool" where
  "same_local w w' \<longleftrightarrow>
     w_heap w' = w_heap w \<and> w_clusters w' = w_clusters w \<and> w_services w' = w_services w \<and>
     w_statefulsets w' = w_statefulsets w \<and> w_events w' = w_events w \<and> w_errors w' = w_errors w"

lemma same_local_refl [simp]: "same_local w w"
  by (simp add: same_local_def)

lemma same_local_trans: "same_local a b \<Longrightarrow> same_local b c \<Longrightarrow> same_local a c"
  by (simp add: same_local_def)

text \<open>
  A control operation makes at most one call, exactly one when it returns nil; the call it
  makes is one of those allowed for its argument, and its error is the call's error.
\<close>

locale control_operation =
  fixes op :: "'a \<Rightarrow> 'w world \<Rightarrow> 'w world \<times> go_error option"
    and allowed :: "'a \<Rightarrow> api_call \<Rightarrow> bool"
  assumes op_local: "op x w = (w', e) \<Longrightarrow> same_local w w'"
    and op_trace: "op x w = (w', e) \<Longrightarrow>
      (w_trace w' = w_trace w \<and> e \<noteq> None) \<or>
      (\<exists>c e'. allowed x c \<and> w_trace w' = w_trace w @ [(c, e')] \<and> (e = None \<longleftrightarrow> e' = None))"
begin

lemma op_success: "op x w = (w', None) \<Longrightarrow> \<exists>c. allowed x c \<and> w_trace w' = w_trace w @ [(c, None)]"
  using op_trace by blast

lemma op_trace_extends:
  "op x w = (w', e) \<Longrightarrow> \<exists>t. w_trace w' = w_trace w @ t \<and> length t \<le> 1 \<and> (\<forall>(c, e') \<in> set t. allowed x c)"
  using op_trace by fastforce

end

lemma call_api_parts:
  assumes "call_api f c w = (w', r)"
  shows "same_local w w'" "w_trace w' = w_trace w @ [(c, err_of r)]" "w_env w' = fst (f (w_env w))"
    "r = snd (f (w_env w))"
  using assms by (auto simp: call_api_def same_local_def split: prod.splits)

interpretation create_service: control_operation "CreateService cl"
    "\<lambda>s c. c = CallCreateService (om_Namespace (svc_ObjectMeta s)) s" for cl
proof (unfold_locales, goal_cases)
  case (1 x w w' e)
  then show ?case by (auto simp: CreateService_def Let_def split: prod.splits dest: call_api_parts)
next
  case (2 x w w' e)
  then show ?case
    by (auto simp: CreateService_def Let_def split: prod.splits dest!: call_api_parts(2))
qed

interpretation create_statefulset: control_operation "CreateStatefulSet cl"
    "\<lambda>s c. c = CallCreateStatefulSet (om_Namespace (ss_ObjectMeta s)) s" for cl
proof (unfold_locales, goal_cases)
  case (1 x w w' e)
  then show ?case by (auto simp: CreateStatefulSet_def Let_def split: prod.splits dest: call_api_parts)
next
  case (2 x w w' e)
  then show ?case
    by (auto simp: CreateStatefulSet_def Let_def split: prod.splits dest!: call_api_parts(2))
qed

text \<open>The patch the two documents give, when both marshal and merge.\<close>

definition merge_patch :: "'w client \<Rightarrow> StatefulSet \<Rightarrow> StatefulSet \<Rightarrow> string option" where
  "merge_patch cl old new =
     (case (cl_MarshalStatefulSet cl old, cl_MarshalStatefulSet cl new) of
        (Inr a, Inr b) \<Rightarrow> (case cl_MergePatchStatefulSet cl a b of Inr p \<Rightarrow> Some p | Inl _ \<Rightarrow> None)
      | _ \<Rightarrow> None)"

interpretation patch_statefulset: control_operation "\<lambda>(old, new). Patch cl old new"
    "\<lambda>(old, new) c. \<exists>p. merge_patch cl old new = Some p \<and>
       c = CallPatchStatefulSet (om_Namespace (ss_ObjectMeta old)) (om_Name (ss_ObjectMeta old)) p"
  for cl
proof (unfold_locales, goal_cases)
  case (1 x w w' e)
  then show ?case
    by (auto simp: Patch_def PatchStatefulSet_def Let_def split: prod.splits sum.splits
        dest: call_api_parts)
next
  case (2 x w w' e)
  then show ?case
    by (auto simp: Patch_def PatchStatefulSet_def merge_patch_def Let_def split: prod.splits sum.splits
        dest!: call_api_parts(2))
qed

interpretation patch_pod: control_operation "\<lambda>(old, new). PodControl_PatchPod cl old new"
    "\<lambda>(old, new) c. \<exists>p. c = CallPatchPod (om_Namespace (pod_ObjectMeta old)) (om_Name (pod_ObjectMeta old)) p"
  for cl
proof (unfold_locales, goal_cases)
  case (1 x w w' e)
  then show ?case
    by (auto simp: PodControl_PatchPod_def PatchPod_def Let_def split: prod.splits sum.splits
        dest: call_api_parts)
next
  case (2 x w w' e)
  then show ?case
    by (auto simp: PodControl_PatchPod_def PatchPod_def Let_def split: prod.splits sum.splits
        dest!: call_api_parts(2))
qed

text \<open>
  A patch of a stateful set sends nothing unless both objects could be marshalled and
  merged; then it sends exactly one strategic merge patch, computed from the two
  documents, to the old object's namespace and name, and its error is the server's.
\<close>

theorem Patch_spec:
  assumes "Patch cl old new w = (w', e)"
  shows "(\<exists>a b p. cl_MarshalStatefulSet cl old = Inr a \<and> cl_MarshalStatefulSet cl new = Inr b \<and>
      cl_MergePatchStatefulSet cl a b = Inr p \<and>
      w_trace w' = w_trace w @
        [(CallPatchStatefulSet (om_Namespace (ss_ObjectMeta old)) (om_Name (ss_ObjectMeta old)) p, e)])
    \<or> (w' = w \<and> e \<noteq> None)"
proof (cases "cl_MarshalStatefulSet cl old")
  case (Inl x)
  with assms show ?thesis by (auto simp: Patch_def PatchStatefulSet_def)
next
  case old: (Inr a)
  show ?thesis
  proof (cases "cl_MarshalStatefulSet cl new")
    case (Inl x)
    with old assms show ?thesis by (auto simp: Patch_def PatchStatefulSet_def)
  next
    case new: (Inr b)
    show ?thesis
    proof (cases "cl_MergePatchStatefulSet cl a b")
      case (Inl x)
      with old new assms show ?thesis by (auto simp: Patch_def PatchStatefulSet_def)
    next
      case (Inr p)
      with old new assms show ?thesis
        by (auto simp: Patch_def PatchStatefulSet_def Let_def call_api_def split: prod.splits)
    qed
  qed
qed

section \<open>A sample client\<close>

text \<open>
  An API server that accepts everything and a server that refuses cluster updates, for
  witnesses. The environment is the time of the clock.
\<close>

definition accepting_client :: "time client" where
  "accepting_client =
     \<lparr>cl_CreateService = (\<lambda>e ns s. (e + 1, Inr s)), cl_CreateStatefulSet = (\<lambda>e ns s. (e + 1, Inr s)),
      cl_UpdateStatefulSet = (\<lambda>e ns s. (e + 1, Inr s)),
      cl_PatchStatefulSet = (\<lambda>e ns n p. (e + 1, Inl (MessageError ''not used''))),
      cl_UpdatePod = (\<lambda>e ns p. (e + 1, Inr p)),
      cl_PatchPod = (\<lambda>e ns n p. (e + 1, Inl (MessageError ''not used''))),
      cl_UpdateCluster = (\<lambda>e ns c. (e + 1, Inr c)),
      cl_MarshalStatefulSet = (\<lambda>s. Inr (om_Name (ss_ObjectMeta s))),
      cl_MarshalPod = (\<lambda>p. Inr (pod_Body p)),
      cl_MergePatchStatefulSet = (\<lambda>a b. Inr b), cl_MergePatchPod = (\<lambda>a b. Inr b),
      cl_Now = id, cl_Sleep = id\<rparr>"

definition refusing_client :: "time client" where
  "refusing_client = accepting_client\<lparr>cl_UpdateCluster :=
     (\<lambda>e ns c. (e + 1, Inl (StatusError ReasonServerTimeout ''etcdserver: request timed out'')))\<rparr>"

definition sample_world :: "time world" where
  "sample_world =
     \<lparr>w_heap = sample_heap, w_clusters = [''rocketmq-operator/mybrokercluster'' \<mapsto> 0],
      w_services = Map.empty, w_statefulsets = Map.empty, w_env = 100, w_trace = [], w_events = [],
      w_errors = []\<rparr>"

lemma sample_world_simps [simp]:
  "w_heap sample_world = sample_heap" "w_services sample_world = Map.empty"
  "w_clusters sample_world = [''rocketmq-operator/mybrokercluster'' \<mapsto> 0]"
  "w_statefulsets sample_world = Map.empty" "w_env sample_world = 100" "w_trace sample_world = []"
  "w_events sample_world = []" "w_errors sample_world = []"
  by (simp_all add: sample_world_def)

theorem Patch_spec_witness:
  "\<exists>p. w_trace (fst (Patch accepting_client (NewStatefulSet sample_cluster 0)
      (NewStatefulSet sample_cluster 0) sample_world)) =
    [(CallPatchStatefulSet ''rocketmq-operator'' (om_Name (ss_ObjectMeta (NewStatefulSet sample_cluster 0))) p,
      Some (MessageError ''not used''))]"
proof -
  let ?r = "Patch accepting_client (NewStatefulSet sample_cluster 0) (NewStatefulSet sample_cluster 0)
    sample_world"
  have "snd ?r = Some (MessageError ''not used'')" "w_trace (fst ?r) \<noteq> w_trace sample_world"
    by (simp_all add: Patch_def PatchStatefulSet_def accepting_client_def call_api_def)
  moreover from this have "fst ?r \<noteq> sample_world" by metis
  ultimately show ?thesis
    using Patch_spec [of accepting_client "NewStatefulSet sample_cluster 0"
        "NewStatefulSet sample_cluster 0" sample_world, OF prod.collapse [symmetric]]
    by auto
qed

end
