(* ===== verification/Cluster_Updater.thy ===== *)
theory Cluster_Updater
  imports Client
begin

text \<open>
  The cluster updater (\<open>cluster_control.go\<close>): writing the status or the labels of a cluster,
  retrying on conflicts with a fresh copy from the lister.

  The Go closures capture the variable \<open>cluster\<close> and reassign it, so the state of the retry
  loop is the world together with that pointer. \<open>update_closure\<close> is what the two closures
  have in common, and its lemmas say what a run of \<open>RetryOnConflict\<close> over such a closure
  sends; between the attempts the rest of the system runs (\<open>cl_Sleep\<close>).
\<close>

section \<open>The operations\<close>

text \<open>\<open>brokerClusters(ns).Update(cluster)\<close> sends the value of the struct.\<close>

definition BrokerClusters_Update :: "'w client \<Rightarrow> string \<Rightarrow> addr \<Rightarrow> 'w world
    \<Rightarrow> 'w world \<times> (go_error + cluster_val)" where
  "BrokerClusters_Update cl ns p w =
     (let v = cluster_at (w_heap w) p in
      call_api (\<lambda>e. cl_UpdateCluster cl e ns v) (CallUpdateCluster ns v) w)"

text \<open>
  After a failed update: a copy of the cached cluster for the next attempt, or the lister's
  error when the cluster is gone.
\<close>

definition reload_cluster :: "addr \<Rightarrow> go_error \<Rightarrow> 'w world \<Rightarrow> ('w world \<times> addr) \<times> go_error option" where
  "reload_cluster p updateErr w =
     (let om = bc_ObjectMeta (h_clusters (w_heap w) p) in
      case BrokerClusters_Get (w_clusters w) (om_Namespace om) (om_Name om) of
        Inl err \<Rightarrow> ((w, p), Some err)
      | Inr updated \<Rightarrow>
          (case BrokerCluster_DeepCopy (w_heap w) (Some updated) of
             (h, None) \<Rightarrow> ((w\<lparr>w_heap := h\<rparr>, p), Some updateErr)
           | (h, Some q) \<Rightarrow> ((w\<lparr>w_heap := h\<rparr>, q), Some updateErr)))"

definition update_status_attempt :: "'w client \<Rightarrow> addr \<Rightarrow> 'w world \<times> addr
    \<Rightarrow> ('w world \<times> addr) \<times> go_error option" where
  "update_status_attempt cl status = (\<lambda>(w, p).
     (let w1 = w\<lparr>w_heap := store_status (w_heap w) (StatusOf p) (h_statuses (w_heap w) status)\<rparr>;
          ns = om_Namespace (bc_ObjectMeta (h_clusters (w_heap w1) p))
      in case BrokerClusters_Update cl ns p w1 of
           (w2, Inr _) \<Rightarrow> ((w2, p), None)
         | (w2, Inl updateErr) \<Rightarrow> reload_cluster p updateErr w2))"

definition UpdateClusterStatus :: "'w client \<Rightarrow> addr \<Rightarrow> addr \<Rightarrow> 'w world
    \<Rightarrow> ('w world \<times> addr) \<times> go_error option" where
  "UpdateClusterStatus cl p status w =
     RetryOnConflict DefaultRetry_Steps (\<lambda>(w, p). (cl_Sleep cl w, p))
       (update_status_attempt cl status) (w, p)"

text \<open>\<open>labels.Merge\<close> makes a new map; a nil map of labels merges as an empty one.\<close>

definition merge_labels :: "strmap \<Rightarrow> addr \<Rightarrow> heap \<Rightarrow> heap" where
  "merge_labels lbls p h =
     (let c = h_clusters h p;
          old = (case om_Labels (bc_ObjectMeta c) of None \<Rightarrow> Map.empty | Some a \<Rightarrow> h_maps h a)
      in case alloc_map h (labels_Merge old lbls) of
           (h1, a) \<Rightarrow>
             h1\<lparr>h_clusters := (h_clusters h1)
                  (p := c\<lparr>bc_ObjectMeta := (bc_ObjectMeta c)\<lparr>om_Labels := Some a\<rparr>\<rparr>)\<rparr>)"

definition update_labels_attempt :: "'w client \<Rightarrow> strmap \<Rightarrow> 'w world \<times> addr
    \<Rightarrow> ('w world \<times> addr) \<times> go_error option" where
  "update_labels_attempt cl lbls = (\<lambda>(w, p).
     (let w1 = w\<lparr>w_heap := merge_labels lbls p (w_heap w)\<rparr>;
          ns = om_Namespace (bc_ObjectMeta (h_clusters (w_heap w1) p))
      in case BrokerClusters_Update cl ns p w1 of
           (w2, Inr _) \<Rightarrow> ((w2, p), None)
         | (w2, Inl updateErr) \<Rightarrow> reload_cluster p updateErr w2))"

definition UpdateClusterLabels :: "'w client \<Rightarrow> addr \<Rightarrow> strmap \<Rightarrow> 'w world
    \<Rightarrow> ('w world \<times> addr) \<times> go_error option" where
  "UpdateClusterLabels cl p lbls w =
     RetryOnConflict DefaultRetry_Steps (\<lambda>(w, p). (cl_Sleep cl w, p))
       (update_labels_attempt cl lbls) (w, p)"

section \<open>What an update closure promises\<close>

text \<open>
  An attempt makes one call; it returns nil exactly when the call succeeded, and its error
  is the call's error or says that the cluster is gone. \<open>inv\<close> is what an attempt needs and
  keeps.
\<close>

definition ends_as :: "go_error option \<Rightarrow> go_error option \<Rightarrow> bool" where
  "ends_as e e' \<longleftrightarrow> (e = None \<longleftrightarrow> e' = None) \<and> (e = e' \<or> IsNotFound e)"

definition retried :: "(api_call \<Rightarrow> bool) \<Rightarrow> (api_call \<times> go_error option) list \<Rightarrow> go_error option \<Rightarrow> bool" where
  "retried wanted t err \<longleftrightarrow>
     1 \<le> length t \<and> length t \<le> DefaultRetry_Steps \<and>
     (\<forall>(c, e) \<in> set t. wanted c) \<and> (\<forall>(c, e) \<in> set (butlast t). IsConflict e) \<and>
     ends_as err (snd (last t))"

lemma ends_as_Conflict: "ends_as e e' \<Longrightarrow> IsConflict e \<Longrightarrow> IsConflict e'"
  using NotFound_not_Conflict by (auto simp: ends_as_def)

locale update_closure =
  fixes fn :: "'s \<Rightarrow> 's \<times> go_error option"
    and trace :: "'s \<Rightarrow> (api_call \<times> go_error option) list"
    and inv :: "'s \<Rightarrow> bool"
    and wanted :: "api_call \<Rightarrow> bool"
  assumes fn_inv: "inv s \<Longrightarrow> fn s = (s', e) \<Longrightarrow> inv s'"
    and fn_call: "inv s \<Longrightarrow> fn s = (s', e) \<Longrightarrow>
      \<exists>c e'. wanted c \<and> trace s' = trace s @ [(c, e')] \<and> ends_as e e'"
begin

lemma before_inv:
  assumes "inv s" and sleep: "\<And>s. inv s \<Longrightarrow> inv (sleep s) \<and> trace (sleep s) = trace s"
  shows "inv (before fn sleep s i)"
proof (induction i)
  case 0
  then show ?case using assms(1) by simp
next
  case (Suc i)
  then show ?case
    using fn_inv [OF Suc, of "fst (fn (before fn sleep s i))"] sleep
    by (metis before.simps(2) prod.collapse)
qed

lemma before_trace:
  assumes "inv s" and sleep: "\<And>s. inv s \<Longrightarrow> inv (sleep s) \<and> trace (sleep s) = trace s"
    and conf: "\<forall>i < k. IsConflict (attempt fn sleep s i)"
  shows "\<exists>t. length t = k \<and> trace (before fn sleep s k) = trace s @ t \<and>
     (\<forall>(c, e) \<in> set t. wanted c \<and> IsConflict e)"
  using conf
proof (induction k)
  case 0
  then show ?case by simp
next
  case (Suc k)
  then obtain t where t: "length t = k" "trace (before fn sleep s k) = trace s @ t"
    "\<forall>(c, e) \<in> set t. wanted c \<and> IsConflict e"
    by auto
  let ?b = "before fn sleep s k"
  obtain u e where fn: "fn ?b = (u, e)" by fastforce
  have inv: "inv ?b" by (rule before_inv [OF assms(1,2)])
  obtain c e' where c: "wanted c" "trace u = trace ?b @ [(c, e')]" "ends_as e e'"
    using fn_call [OF inv fn] by blast
  have "IsConflict e" using Suc.prems fn by (simp add: attempt_def) (metis lessI snd_conv)
  with c(3) have "IsConflict e'" by (rule ends_as_Conflict)
  moreover have "trace (before fn sleep s (Suc k)) = trace s @ t @ [(c, e')]"
    using fn c(2) t(2) sleep fn_inv [OF inv fn] by simp
  ultimately show ?case
    using t(1,3) c(1) by (intro exI [of _ "t @ [(c, e')]"]) auto
qed

lemma run_retried:
  assumes run: "RetryOnConflict DefaultRetry_Steps sleep fn s = (s', err)" and "inv s"
    and sleep: "\<And>s. inv s \<Longrightarrow> inv (sleep s) \<and> trace (sleep s) = trace s"
    and no_timeout: "\<And>s. snd (fn s) \<noteq> Some ErrWaitTimeout"
  shows "\<exists>t. trace s' = trace s @ t \<and> retried wanted t err" and "inv s'"
proof -
  have "0 < DefaultRetry_Steps" by (simp add: DefaultRetry_Steps_def)
  from RetryOnConflict_run [OF run this no_timeout] obtain k where k: "k < DefaultRetry_Steps"
    "\<forall>i < k. IsConflict (attempt fn sleep s i)" "err = attempt fn sleep s k"
    "s' = fst (fn (before fn sleep s k))"
    by blast
  let ?b = "before fn sleep s k"
  have inv: "inv ?b" by (rule before_inv [OF assms(2,3)])
  have fn: "fn ?b = (s', err)" using k(3,4) by (simp add: attempt_def prod_eq_iff)
  show "inv s'" by (rule fn_inv [OF inv fn])
  obtain t where t: "length t = k" "trace ?b = trace s @ t"
    "\<forall>(c, e) \<in> set t. wanted c \<and> IsConflict e"
    using before_trace [OF assms(2) sleep k(2)] by blast
  obtain c e' where "wanted c" "trace s' = trace ?b @ [(c, e')]" "ends_as err e'"
    using fn_call [OF inv fn] by blast
  with t k(1) show "\<exists>t. trace s' = trace s @ t \<and> retried wanted t err"
    by (intro exI [of _ "t @ [(c, e')]"]) (auto simp: retried_def)
qed

end

section \<open>The two closures\<close>

lemma DeepCopy_not_nil [simp]: "BrokerCluster_DeepCopy h (Some p) \<noteq> (h', None)"
  by (auto simp: BrokerCluster_DeepCopy_def split: prod.split)

lemma reload_cluster_parts:
  assumes "reload_cluster p e w = ((w', q), err)"
  shows "w_trace w' = w_trace w" "w_heap w \<le> w_heap w'" "q = p \<or> h_next (w_heap w) \<le> q"
    "err = Some e \<or> (err \<noteq> None \<and> IsNotFound err)"
  using assms
  by (auto simp: reload_cluster_def Let_def dest: Get_error_NotFound DeepCopy_ptr(1,2)
      split: sum.splits prod.splits option.splits)

lemma Update_parts:
  assumes "BrokerClusters_Update cl ns p w = (w', r)"
  shows "w_heap w' = w_heap w"
    "w_trace w' = w_trace w @ [(CallUpdateCluster ns (cluster_at (w_heap w) p), err_of r)]"
  using assms call_api_parts(1,2) unfolding BrokerClusters_Update_def Let_def same_local_def by blast+

text \<open>
  An update followed by a reload, as both closures end: one call with the object as it is,
  a heap that only grows, and a pointer that is the old one or new.
\<close>

lemma update_or_reload:
  assumes "(case BrokerClusters_Update cl ns p w of
           (w2, Inr _) \<Rightarrow> ((w2, p), None)
         | (w2, Inl updateErr) \<Rightarrow> reload_cluster p updateErr w2) = ((w', q), err)"
  shows "\<exists>e'. w_trace w' = w_trace w @ [(CallUpdateCluster ns (cluster_at (w_heap w) p), e')] \<and>
      ends_as err e' \<and> w_heap w \<le> w_heap w' \<and> (q = p \<or> h_next (w_heap w) \<le> q)"
proof -
  obtain w2 r where up: "BrokerClusters_Update cl ns p w = (w2, r)" by fastforce
  note parts = Update_parts [OF up]
  show ?thesis
  proof (cases r)
    case (Inl e)
    then have "reload_cluster p e w2 = ((w', q), err)" using assms up by simp
    from reload_cluster_parts [OF this] parts Inl show ?thesis by (auto simp: ends_as_def)
  next
    case (Inr x)
    with assms up parts show ?thesis by (auto simp: ends_as_def)
  qed
qed

text \<open>
  The status to write is a struct of its own, and another cluster \<open>r\<close>, say one in the
  cache, is to be left as it is.
\<close>

definition status_inv :: "addr \<Rightarrow> status_val \<Rightarrow> addr \<Rightarrow> cluster_val \<Rightarrow> 'w world \<times> addr \<Rightarrow> bool" where
  "status_inv s v r x = (\<lambda>(w, p).
     let h = w_heap w in
     s < h_next h \<and> wf_status h (h_statuses h s) \<and> status_val_of h (h_statuses h s) = v \<and>
     wf_ptr h r \<and> r \<noteq> p \<and> cluster_at h r = x)"

definition wanted_status :: "status_val \<Rightarrow> api_call \<Rightarrow> bool" where
  "wanted_status v c \<longleftrightarrow>
     (case c of CallUpdateCluster ns x \<Rightarrow> ns = om_Namespace (bc_ObjectMeta x) \<and> Status x = v | _ \<Rightarrow> False)"

lemma store_status_of:
  "h_statuses (store_status h (StatusOf p) s) = h_statuses h"
  "h_arrays (store_status h (StatusOf p) s) = h_arrays h"
  "h_maps (store_status h (StatusOf p) s) = h_maps h"
  "h_blobs (store_status h (StatusOf p) s) = h_blobs h"
  "h_next (store_status h (StatusOf p) s) = h_next h"
  "h_clusters (store_status h (StatusOf p) s) = (h_clusters h)(p := (h_clusters h p)\<lparr>Status := s\<rparr>)"
  by simp_all

lemma cluster_at_store_status:
  "Status (cluster_at (store_status h (StatusOf p) s) p) = status_val_of h s"
  "bc_ObjectMeta (cluster_at (store_status h (StatusOf p) s) p) = bc_ObjectMeta (cluster_at h p)"
  "Spec (cluster_at (store_status h (StatusOf p) s) p) = Spec (cluster_at h p)"
  by (simp_all add: cluster_at_def cluster_val_of_def status_val_of_def slice_val_def [abs_def]
      status_map_def cluster_map_def)

lemma same_cells_store_status:
  "r \<noteq> p \<Longrightarrow> cluster_at (store_status h (StatusOf p) s) r = cluster_at h r"
  "r \<noteq> p \<Longrightarrow> wf_ptr (store_status h (StatusOf p) s) r = wf_ptr h r"
  "wf_status (store_status h (StatusOf p) s) t = wf_status h t"
  "status_val_of (store_status h (StatusOf p) s) t = status_val_of h t"
  by (simp_all add: cluster_at_def cluster_val_of_def slice_val_def [abs_def] wf_ptr_def wf_cluster_def
      slice_ok_def [abs_def] wf_status_def status_val_of_def)

lemma status_inv_grows:
  assumes inv: "status_inv s v r x (w, p)" and le: "w_heap w \<le> w_heap w'"
    and q: "q = p \<or> h_next (w_heap w) \<le> q"
  shows "status_inv s v r x (w', q)"
proof -
  let ?h = "w_heap w" and ?h' = "w_heap w'"
  from inv have s: "s < h_next ?h" "wf_status ?h (h_statuses ?h s)"
    "status_val_of ?h (h_statuses ?h s) = v" and r: "wf_ptr ?h r" "r \<noteq> p" "cluster_at ?h r = x"
    by (simp_all add: status_inv_def Let_def)
  have "h_statuses ?h' s = h_statuses ?h s" using heap_le_reads(2) [OF le s(1)] .
  moreover have "r \<noteq> q" using r q by (auto simp: wf_ptr_def)
  ultimately show ?thesis
    using s r heap_le_next [OF le] status_copy.ok_extends [OF le s(2)] status_copy.val_extends [OF le s(2)]
      wf_ptr_extends [OF le r(1)] cluster_at_extends [OF le r(1)]
    by (simp add: status_inv_def Let_def)
qed

lemma status_attempt_step:
  assumes "update_status_attempt cl s (w, p) = ((w', q), e)"
    and "w1 = w\<lparr>w_heap := store_status (w_heap w) (StatusOf p) (h_statuses (w_heap w) s)\<rparr>"
  shows "(case BrokerClusters_Update cl (om_Namespace (bc_ObjectMeta (h_clusters (w_heap w1) p))) p w1 of
           (w2, Inr _) \<Rightarrow> ((w2, p), None)
         | (w2, Inl updateErr) \<Rightarrow> reload_cluster p updateErr w2) = ((w', q), e)"
  using assms by (simp add: update_status_attempt_def Let_def)

interpretation status_closure: update_closure "update_status_attempt cl s" "\<lambda>(w, p). w_trace w"
    "status_inv s v r x" "wanted_status v" for cl s v r x
proof (unfold_locales, goal_cases)
  case (1 st st' e)
  obtain w p where st: "st = (w, p)" by fastforce
  obtain w' q where st': "st' = (w', q)" by fastforce
  define w1 where "w1 = w\<lparr>w_heap := store_status (w_heap w) (StatusOf p) (h_statuses (w_heap w) s)\<rparr>"
  have inv: "status_inv s v r x (w1, p)"
    using 1(1) unfolding st w1_def
    by (simp add: status_inv_def Let_def same_cells_store_status del: store_status.simps)
       (simp add: store_status_of)
  show ?case
    using update_or_reload [OF status_attempt_step [OF 1(2) [unfolded st st'] w1_def]]
      status_inv_grows [OF inv, of w' q]
    unfolding st' by blast
next
  case (2 st st' e)
  obtain w p where st: "st = (w, p)" by fastforce
  obtain w' q where st': "st' = (w', q)" by fastforce
  define w1 where "w1 = w\<lparr>w_heap := store_status (w_heap w) (StatusOf p) (h_statuses (w_heap w) s)\<rparr>"
  let ?v = "cluster_at (w_heap w1) p"
  have "Status ?v = v"
    using 2(1) unfolding st w1_def
    by (simp add: status_inv_def Let_def cluster_at_store_status del: store_status.simps)
  moreover have "om_Namespace (bc_ObjectMeta ?v) = om_Namespace (bc_ObjectMeta (h_clusters (w_heap w1) p))"
    by (simp add: cluster_at_def)
  moreover have "w_trace w1 = w_trace w" by (simp add: w1_def)
  ultimately show ?case
    using update_or_reload [OF status_attempt_step [OF 2(2) [unfolded st st'] w1_def]]
    unfolding st st' by (fastforce simp: wanted_status_def)
qed

text \<open>The same for labels: every update carries the given labels.\<close>

definition labels_inv :: "addr \<Rightarrow> cluster_val \<Rightarrow> 'w world \<times> addr \<Rightarrow> bool" where
  "labels_inv r x = (\<lambda>(w, p). wf_ptr (w_heap w) r \<and> r \<noteq> p \<and> cluster_at (w_heap w) r = x)"

definition wanted_labels :: "strmap \<Rightarrow> api_call \<Rightarrow> bool" where
  "wanted_labels lbls c \<longleftrightarrow>
     (case c of CallUpdateCluster ns x \<Rightarrow>
        ns = om_Namespace (bc_ObjectMeta x) \<and> (\<exists>m. om_Labels (bc_ObjectMeta x) = Some m \<and> lbls \<subseteq>\<^sub>m m)
      | _ \<Rightarrow> False)"

lemma labels_Merge_le: "lbls \<subseteq>\<^sub>m labels_Merge old lbls"
  by (auto simp: map_le_def labels_Merge_def)

lemma merge_labels_parts:
  "\<exists>m. om_Labels (bc_ObjectMeta (cluster_at (merge_labels lbls p h) p)) = Some m \<and> lbls \<subseteq>\<^sub>m m"
  "om_Namespace (bc_ObjectMeta (h_clusters (merge_labels lbls p h) p)) =
     om_Namespace (bc_ObjectMeta (h_clusters h p))"
  by (auto simp: merge_labels_def Let_def alloc_map_def cluster_at_def labels_Merge_le
      split: option.split)

lemma merge_labels_other:
  assumes "wf_ptr h r" "r \<noteq> p"
  shows "wf_ptr (merge_labels lbls p h) r" "cluster_at (merge_labels lbls p h) r = cluster_at h r"
proof -
  define old where "old = (case om_Labels (bc_ObjectMeta (h_clusters h p)) of
    None \<Rightarrow> Map.empty | Some a \<Rightarrow> h_maps h a)"
  obtain h1 a where al: "alloc_map h (labels_Merge old lbls) = (h1, a)" by fastforce
  then have m: "merge_labels lbls p h = h1\<lparr>h_clusters := (h_clusters h1)(p := (h_clusters h p)
        \<lparr>bc_ObjectMeta := (bc_ObjectMeta (h_clusters h p))\<lparr>om_Labels := Some a\<rparr>\<rparr>)\<rparr>"
    by (simp add: merge_labels_def Let_def old_def)
  have le: "h \<le> h1" by (rule maps.alloc_extends [OF al])
  show "wf_ptr (merge_labels lbls p h) r"
    using wf_ptr_extends [OF le assms(1)] assms(2)
    by (simp add: m wf_ptr_def wf_cluster_def slice_ok_def [abs_def])
  have "cluster_at (merge_labels lbls p h) r = cluster_at h1 r"
    using assms(2) by (simp add: m cluster_at_def cluster_val_of_def slice_val_def [abs_def])
  then show "cluster_at (merge_labels lbls p h) r = cluster_at h r"
    using cluster_at_extends [OF le assms(1)] by simp
qed

lemma labels_inv_grows:
  assumes inv: "labels_inv r x (w, p)" and le: "w_heap w \<le> w_heap w'"
    and q: "q = p \<or> h_next (w_heap w) \<le> q"
  shows "labels_inv r x (w', q)"
  using inv q wf_ptr_extends [OF le, of r] cluster_at_extends [OF le, of r]
  by (auto simp: labels_inv_def wf_ptr_def)

lemma labels_attempt_step:
  assumes "update_labels_attempt cl lbls (w, p) = ((w', q), e)"
    and "w1 = w\<lparr>w_heap := merge_labels lbls p (w_heap w)\<rparr>"
  shows "(case BrokerClusters_Update cl (om_Namespace (bc_ObjectMeta (h_clusters (w_heap w1) p))) p w1 of
           (w2, Inr _) \<Rightarrow> ((w2, p), None)
         | (w2, Inl updateErr) \<Rightarrow> reload_cluster p updateErr w2) = ((w', q), e)"
  using assms by (simp add: update_labels_attempt_def Let_def)

interpretation labels_closure: update_closure "update_labels_attempt cl lbls" "\<lambda>(w, p). w_trace w"
    "labels_inv r x" "wanted_labels lbls" for cl lbls r x
proof (unfold_locales, goal_cases)
  case (1 st st' e)
  obtain w p where st: "st = (w, p)" by fastforce
  obtain w' q where st': "st' = (w', q)" by fastforce
  define w1 where "w1 = w\<lparr>w_heap := merge_labels lbls p (w_heap w)\<rparr>"
  have inv: "labels_inv r x (w1, p)"
    using 1(1) merge_labels_other [of "w_heap w" r p] unfolding st w1_def
    by (simp add: labels_inv_def)
  show ?case
    using update_or_reload [OF labels_attempt_step [OF 1(2) [unfolded st st'] w1_def]]
      labels_inv_grows [OF inv, of w' q]
    unfolding st' by blast
next
  case (2 st st' e)
  obtain w p where st: "st = (w, p)" by fastforce
  obtain w' q where st': "st' = (w', q)" by fastforce
  define w1 where "w1 = w\<lparr>w_heap := merge_labels lbls p (w_heap w)\<rparr>"
  let ?v = "cluster_at (w_heap w1) p"
  have "\<exists>m. om_Labels (bc_ObjectMeta ?v) = Some m \<and> lbls \<subseteq>\<^sub>m m"
    using merge_labels_parts(1) [of lbls p "w_heap w"] by (simp add: w1_def)
  moreover have "om_Namespace (bc_ObjectMeta ?v) = om_Namespace (bc_ObjectMeta (h_clusters (w_heap w1) p))"
    by (simp add: cluster_at_def)
  moreover have "w_trace w1 = w_trace w" by (simp add: w1_def)
  ultimately show ?case
    using update_or_reload [OF labels_attempt_step [OF 2(2) [unfolded st st'] w1_def]]
    unfolding st st' by (fastforce simp: wanted_labels_def)
qed

section \<open>Runs\<close>

text \<open>
  What a run relies on: the API client does not return the retry package's own timeout
  error, and while a retry sleeps, the other goroutines leave the given facts about the
  heap alone and the trace (of this worker's calls) does not grow.
\<close>

definition no_wait_timeout :: "'w client \<Rightarrow> bool" where
  "no_wait_timeout cl \<longleftrightarrow> (\<forall>e ns v. snd (cl_UpdateCluster cl e ns v) \<noteq> Inl ErrWaitTimeout)"

definition quiet_sleep :: "'w client \<Rightarrow> ('w world \<times> addr \<Rightarrow> bool) \<Rightarrow> bool" where
  "quiet_sleep cl keep \<longleftrightarrow>
     (\<forall>w p. keep (w, p) \<longrightarrow> keep (cl_Sleep cl w, p) \<and> w_trace (cl_Sleep cl w) = w_trace w)"

lemma attempt_not_timeout:
  assumes "no_wait_timeout cl"
  shows "snd (update_status_attempt cl s st) \<noteq> Some ErrWaitTimeout"
    and "snd (update_labels_attempt cl lbls st) \<noteq> Some ErrWaitTimeout"
proof -
  have up: "snd (case BrokerClusters_Update cl ns p w of
           (w2, Inr _) \<Rightarrow> ((w2, p), None)
         | (w2, Inl updateErr) \<Rightarrow> reload_cluster p updateErr w2) \<noteq> Some ErrWaitTimeout" for ns p w
  proof -
    obtain w2 r where r: "BrokerClusters_Update cl ns p w = (w2, r)" by fastforce
    then have "r \<noteq> Inl ErrWaitTimeout"
      using assms unfolding no_wait_timeout_def BrokerClusters_Update_def call_api_def Let_def
      by (metis (no_types, lifting) case_prod_beta snd_conv)
    moreover have "snd (reload_cluster p e w2) \<noteq> Some ErrWaitTimeout" if "e \<noteq> ErrWaitTimeout" for e
      using that reload_cluster_parts(4) [of p e w2] by (cases "reload_cluster p e w2") fastforce
    ultimately show ?thesis using r by (cases r) auto
  qed
  show "snd (update_status_attempt cl s st) \<noteq> Some ErrWaitTimeout"
    using up by (cases st) (simp add: update_status_attempt_def Let_def)
  show "snd (update_labels_attempt cl lbls st) \<noteq> Some ErrWaitTimeout"
    using up by (cases st) (simp add: update_labels_attempt_def Let_def)
qed

text \<open>
  C16: \<open>UpdateClusterStatus\<close> sends at least one and at most five updates; every update, also
  of a cluster read again from the lister, carries exactly the requested status and goes
  to the cluster's namespace; all updates but the last ended in a conflict; the function
  returns nil exactly when the last one succeeded, and otherwise its error or that the
  cluster is gone from the cache. Any cluster other than the caller's own copy, such as
  the cached one, is unchanged.
\<close>

theorem UpdateClusterStatus_spec:
  assumes run: "UpdateClusterStatus cl p s w = ((w', q), err)"
    and start: "status_inv s v r x (w, p)"
    and env: "no_wait_timeout cl" "quiet_sleep cl (status_inv s v r x)"
  shows "(\<exists>t. w_trace w' = w_trace w @ t \<and> retried (wanted_status v) t err) \<and>
     cluster_at (w_heap w') r = x"
proof -
  have sleep: "status_inv s v r x ((\<lambda>(w, p). (cl_Sleep cl w, p)) st) \<and>
      (case (\<lambda>(w, p). (cl_Sleep cl w, p)) st of (w, p) \<Rightarrow> w_trace w) = (case st of (w, p) \<Rightarrow> w_trace w)"
    if "status_inv s v r x st" for st
    using that env(2) by (cases st) (auto simp: quiet_sleep_def)
  note runs = status_closure.run_retried [OF run [unfolded UpdateClusterStatus_def] start sleep
      attempt_not_timeout(1) [OF env(1)]]
  show ?thesis using runs by (simp add: status_inv_def Let_def)
qed

lemma sample_client_env:
  "no_wait_timeout accepting_client" "quiet_sleep accepting_client keep"
  "no_wait_timeout refusing_client" "quiet_sleep refusing_client keep"
  by (simp_all add: no_wait_timeout_def quiet_sleep_def accepting_client_def refusing_client_def)

lemma sample_status_inv:
  "status_inv 1 (status_val_of sample_heap (Status sample_obj)) 0 (cluster_at sample_heap 0) (sample_world, 1)"
  using sample_wf
  by (auto simp: status_inv_def Let_def wf_ptr_def wf_cluster_parts sample_heap_def)

theorem UpdateClusterStatus_spec_witness:
  "\<exists>t. w_trace (fst (fst (UpdateClusterStatus refusing_client 1 1 sample_world))) = t \<and>
     retried (wanted_status (status_val_of sample_heap (Status sample_obj))) t
       (snd (UpdateClusterStatus refusing_client 1 1 sample_world))"
proof -
  obtain w' q err where run: "UpdateClusterStatus refusing_client 1 1 sample_world = ((w', q), err)"
    by (metis prod.collapse)
  show ?thesis
    using UpdateClusterStatus_spec [OF run sample_status_inv sample_client_env(3,4)]
    unfolding run by simp
qed

text \<open>
  \<open>UpdateClusterLabels\<close> sends at least one and at most five updates; each carries all
  requested labels, added to the labels the cluster has at that time; conflicts alone are
  retried, the result is that of the last update, and no other cluster changes.
\<close>

theorem UpdateClusterLabels_spec:
  assumes run: "UpdateClusterLabels cl p lbls w = ((w', q), err)"
    and start: "wf_ptr (w_heap w) r" "r \<noteq> p" "cluster_at (w_heap w) r = x"
    and env: "no_wait_timeout cl" "quiet_sleep cl (labels_inv r x)"
  shows "(\<exists>t. w_trace w' = w_trace w @ t \<and> retried (wanted_labels lbls) t err) \<and>
     cluster_at (w_heap w') r = x"
proof -
  have inv: "labels_inv r x (w, p)" using start by (simp add: labels_inv_def)
  have sleep: "labels_inv r x ((\<lambda>(w, p). (cl_Sleep cl w, p)) st) \<and>
      (case (\<lambda>(w, p). (cl_Sleep cl w, p)) st of (w, p) \<Rightarrow> w_trace w) = (case st of (w, p) \<Rightarrow> w_trace w)"
    if "labels_inv r x st" for st
    using that env(2) by (cases st) (auto simp: quiet_sleep_def)
  note runs = labels_closure.run_retried [OF run [unfolded UpdateClusterLabels_def] inv sleep
      attempt_not_timeout(2) [OF env(1)]]
  show ?thesis using runs by (simp add: labels_inv_def)
qed

theorem UpdateClusterLabels_spec_witness:
  "\<exists>t. w_trace (fst (fst (UpdateClusterLabels accepting_client 1 [''a'' \<mapsto> ''b''] sample_world))) = t \<and>
     retried (wanted_labels [''a'' \<mapsto> ''b'']) t
       (snd (UpdateClusterLabels accepting_client 1 [''a'' \<mapsto> ''b''] sample_world))"
proof -
  obtain w' q err
    where run: "UpdateClusterLabels accepting_client 1 [''a'' \<mapsto> ''b''] sample_world = ((w', q), err)"
    by (metis prod.collapse)
  have "wf_ptr (w_heap sample_world) 0" using sample_wf by simp
  then show ?thesis
    using UpdateClusterLabels_spec [OF run _ _ refl sample_client_env(1,2), of 0]
    unfolding run by simp
qed

end
