(* ===== verification/Sync_Loops.thy ===== *)
theory Sync_Loops
  imports Cluster_Updater
begin

text \<open>
  The two loops of \<open>BrokerController.syncHandler\<close> (\<open>controller.go\<close>): one headless service and
  one stateful set per broker group.

  A pass through a loop body returns from the handler, panics (a nil \<open>Replicas\<close> pointer is
  dereferenced) or continues; \<open>step\<close> is that result. \<open>p\<close> is the pointer the lister gave
  for the cluster. Properties: what a pass may call (\<open>loop_body\<close>, an interface both bodies
  satisfy), what holds of a group after a pass that continued, and when a loop stops.
\<close>

section \<open>Constants and messages\<close>

definition SuccessSynced :: string where
  "SuccessSynced = ''Synced''"

definition MessageResourceSynced :: string where
  "MessageResourceSynced = ''Cluster synced successfully''"

definition ErrResourceExists :: string where
  "ErrResourceExists = ''ErrResourceExists''"

definition EventTypeNormal :: string where
  "EventTypeNormal = ''Normal''"

definition EventTypeWarning :: string where
  "EventTypeWarning = ''Warning''"

text \<open>\<open>fmt.Sprintf(MessageResourceExists, kind, namespace, name)\<close>\<close>

definition MessageResourceExists :: "string \<Rightarrow> string \<Rightarrow> string \<Rightarrow> string" where
  "MessageResourceExists kind namespace name =
     kind @ '' '' @ namespace @ ''/'' @ name @ '' already exists and is not managed by Cluster''"

text \<open>
  \<open>fmt.Errorf(msg)\<close> with no operands reads \<open>msg\<close> as a format: a percent sign and the
  character after it become an error mark (flags and widths after the sign are not
  modelled; object names hold no percent sign).
\<close>

fun Sprintf_none :: "string \<Rightarrow> string" where
  "Sprintf_none [] = []"
| "Sprintf_none [c] = (if c = CHR ''%'' then ''%!(NOVERB)'' else [c])"
| "Sprintf_none (c # d # s) =
     (if c = CHR ''%'' then (if d = CHR ''%'' then CHR ''%'' # Sprintf_none s
                             else ''%!'' @ [d] @ ''(MISSING)'' @ Sprintf_none s)
      else c # Sprintf_none (d # s))"

lemma Sprintf_none_id: "no_verb s \<Longrightarrow> Sprintf_none s = s"
  by (induction s rule: Sprintf_none.induct) (auto simp: no_verb_def)

section \<open>One pass\<close>

datatype 'a step = Return "go_error option" | Panic | Continue 'a

text \<open>
  \<open>Get\<close>, and \<open>New\<close> followed by \<open>Create\<close> when the object is not found; \<open>err\<close> is the error of
  the last of these.
\<close>

definition get_or_create_service :: "'w client \<Rightarrow> cluster_val \<Rightarrow> int \<Rightarrow> 'w world
    \<Rightarrow> 'w world \<times> (go_error + Service)" where
  "get_or_create_service cl cluster index w =
     (case Services_Get (w_services w) (om_Namespace (bc_ObjectMeta cluster))
             (Sprintf_d (svc_name_format cluster) index) of
        Inr svc \<Rightarrow> (w, Inr svc)
      | Inl err \<Rightarrow>
          (if IsNotFound (Some err)
           then (let svc = NewHeadlessService cluster index in
                 case CreateService cl svc w of
                   (w1, None) \<Rightarrow> (w1, Inr svc)
                 | (w1, Some e) \<Rightarrow> (w1, Inl e))
           else (w, Inl err)))"

definition sync_service :: "'w client \<Rightarrow> addr \<Rightarrow> int \<Rightarrow> unit \<Rightarrow> 'w world \<Rightarrow> 'w world \<times> unit step" where
  "sync_service cl p index acc w =
     (let cluster = cluster_at (w_heap w) p in
      case get_or_create_service cl cluster index w of
        (w1, Inl err) \<Rightarrow> (w1, Return (Some err))
      | (w1, Inr svc) \<Rightarrow>
          (if \<not> IsControlledBy (svc_ObjectMeta svc) (bc_ObjectMeta cluster)
           then (let msg = MessageResourceExists ''Service'' (om_Namespace (svc_ObjectMeta svc))
                             (om_Name (svc_ObjectMeta svc)) in
                 (record_event cluster EventTypeWarning ErrResourceExists msg w1,
                  Return (Some (MessageError msg))))
           else (w1, Continue ())))"

definition get_or_create_statefulset :: "'w client \<Rightarrow> cluster_val \<Rightarrow> int \<Rightarrow> 'w world
    \<Rightarrow> 'w world \<times> (go_error + StatefulSet)" where
  "get_or_create_statefulset cl cluster index w =
     (case StatefulSets_Get (w_statefulsets w) (om_Namespace (bc_ObjectMeta cluster))
             (Sprintf_d (group_name_format cluster) index) of
        Inr ss \<Rightarrow> (w, Inr ss)
      | Inl err \<Rightarrow>
          (if IsNotFound (Some err)
           then (let ss = NewStatefulSet cluster index in
                 case CreateStatefulSet cl ss w of
                   (w1, None) \<Rightarrow> (w1, Inr ss)
                 | (w1, Some e) \<Rightarrow> (w1, Inl e))
           else (w, Inl err)))"

text \<open>
  The replica count: a patch to a newly built stateful set when the desired number of
  members differs from the stateful set's.
\<close>

definition resize_statefulset :: "'w client \<Rightarrow> cluster_val \<Rightarrow> int \<Rightarrow> StatefulSet \<Rightarrow> 'w world
    \<Rightarrow> 'w world \<times> StatefulSet step" where
  "resize_statefulset cl cluster index ss w =
     (case ss_SpecReplicas (ss_Spec ss) of
        None \<Rightarrow> (w, Panic)
      | Some replicas \<Rightarrow>
          (if MembersPerGroup (Spec cluster) \<noteq> replicas
           then (let old = ss; ss' = NewStatefulSet cluster index in
                 case Patch cl old ss' w of
                   (w1, Some err) \<Rightarrow> (w1, Return (Some err))
                 | (w1, None) \<Rightarrow> (w1, Continue ss'))
           else (w, Continue ss)))"

text \<open>The counters are the number of ready groups and of their members.\<close>

definition count_ready :: "StatefulSet \<Rightarrow> int \<times> int \<Rightarrow> int \<times> int" where
  "count_ready ss = (\<lambda>(readyGroups, readyMembers).
     if ss_ReadyReplicas (ss_Status ss) = ss_Replicas (ss_Status ss)
     then (readyGroups + 1, readyMembers + sint (ss_Replicas (ss_Status ss)))
     else (readyGroups, readyMembers))"

definition sync_statefulset :: "'w client \<Rightarrow> addr \<Rightarrow> int \<Rightarrow> int \<times> int \<Rightarrow> 'w world
    \<Rightarrow> 'w world \<times> (int \<times> int) step" where
  "sync_statefulset cl p index counts w =
     (let cluster = cluster_at (w_heap w) p in
      case get_or_create_statefulset cl cluster index w of
        (w1, Inl err) \<Rightarrow> (w1, Return (Some err))
      | (w1, Inr ss) \<Rightarrow>
          (if \<not> IsControlledBy (ss_ObjectMeta ss) (bc_ObjectMeta cluster)
           then (let msg = MessageResourceExists ''StatefulSet'' (om_Namespace (ss_ObjectMeta ss))
                             (om_Name (ss_ObjectMeta ss)) in
                 (record_event cluster EventTypeWarning ErrResourceExists msg w1,
                  Return (Some (MessageError (Sprintf_none msg)))))
           else
             (case resize_statefulset cl cluster index ss w1 of
                (w2, Return e) \<Rightarrow> (w2, Return e)
              | (w2, Panic) \<Rightarrow> (w2, Panic)
              | (w2, Continue ss') \<Rightarrow> (w2, Continue (count_ready ss' counts)))))"

section \<open>The loops\<close>

text \<open>\<open>for index := 0; index < groupReplica; index++\<close> over a body with an accumulator\<close>

fun for_loop :: "(int \<Rightarrow> 'a \<Rightarrow> 's \<Rightarrow> 's \<times> 'a step) \<Rightarrow> int list \<Rightarrow> 'a \<Rightarrow> 's \<Rightarrow> 's \<times> 'a step" where
  "for_loop body [] a s = (s, Continue a)"
| "for_loop body (i # is) a s =
     (case body i a s of
        (s', Return e) \<Rightarrow> (s', Return e)
      | (s', Panic) \<Rightarrow> (s', Panic)
      | (s', Continue a') \<Rightarrow> for_loop body is a' s')"

definition sync_services :: "'w client \<Rightarrow> addr \<Rightarrow> int \<Rightarrow> 'w world \<Rightarrow> 'w world \<times> unit step" where
  "sync_services cl p groupReplica = for_loop (sync_service cl p) (indices groupReplica) ()"

definition sync_statefulsets :: "'w client \<Rightarrow> addr \<Rightarrow> int \<Rightarrow> 'w world \<Rightarrow> 'w world \<times> (int \<times> int) step" where
  "sync_statefulsets cl p groupReplica =
     for_loop (sync_statefulset cl p) (indices groupReplica) (0, 0)"

section \<open>Loops in general\<close>

lemma for_loop_append:
  "for_loop body (is @ js) a s =
     (case for_loop body is a s of
        (s', Continue a') \<Rightarrow> for_loop body js a' s'
      | (s', Return e) \<Rightarrow> (s', Return e)
      | (s', Panic) \<Rightarrow> (s', Panic))"
  by (induction "is" arbitrary: a s) (auto split: prod.split step.split)

lemma for_loop_ConsE:
  assumes "for_loop body (i # is) a s = (s', r)"
  obtains (stop) "body i a s = (s', r)" "\<nexists>a'. r = Continue a'"
  | (go) s1 a1 where "body i a s = (s1, Continue a1)" "for_loop body is a1 s1 = (s', r)"
  using assms by (cases "body i a s"; cases "snd (body i a s)") auto

text \<open>A loop that does not continue stopped in one of its passes.\<close>

lemma for_loop_stop:
  assumes "for_loop body is a s = (s', r)" "\<nexists>a'. r = Continue a'"
  shows "\<exists>pre i post a1 s1. is = pre @ i # post \<and> for_loop body pre a s = (s1, Continue a1) \<and>
     body i a1 s1 = (s', r)"
  using assms(1)
proof (induction "is" arbitrary: a s)
  case Nil
  then show ?case using assms(2) by auto
next
  case (Cons i "is")
  show ?case
  proof (rule for_loop_ConsE [OF Cons.prems], goal_cases)
    case 1
    then show ?case by (intro exI [of _ "[]"]) auto
  next
    case (2 s1 a1)
    from Cons.IH [OF 2(2)] obtain pre j post a2 s2 where
      j: "is = pre @ j # post" "for_loop body pre a1 s1 = (s2, Continue a2)" "body j a2 s2 = (s', r)"
      by blast
    have "i # is = (i # pre) @ j # post" "for_loop body (i # pre) a s = (s2, Continue a2)"
      using 2(1) j(1,2) by simp_all
    with j(3) show ?case by blast
  qed
qed

section \<open>The contract of a loop body\<close>

text \<open>
  What the passes leave alone: the heap and what the listers return. Events may be
  recorded, calls made.
\<close>

definition same_store :: "'w world \<Rightarrow> 'w world \<Rightarrow> bool" where
  "same_store w w' \<longleftrightarrow>
     w_heap w' = w_heap w \<and> w_clusters w' = w_clusters w \<and> w_services w' = w_services w \<and>
     w_statefulsets w' = w_statefulsets w \<and> w_errors w' = w_errors w"

lemma same_store_refl [simp]: "same_store w w"
  by (simp add: same_store_def)

lemma same_store_trans: "same_store a b \<Longrightarrow> same_store b c \<Longrightarrow> same_store a c"
  by (simp add: same_store_def)

lemma same_local_store: "same_local w w' \<Longrightarrow> same_store w w' \<and> w_events w' = w_events w"
  by (simp add: same_store_def same_local_def)

lemma same_store_event [simp]: "same_store w (record_event c ty r m w') = same_store w w'"
  by (simp add: same_store_def record_event_def)

lemma record_event_trace [simp]: "w_trace (record_event c ty r m w) = w_trace w"
  by (simp add: record_event_def)

lemma record_event_events [simp]:
  "w_events (record_event c ty r m w) =
     w_events w @ [\<lparr>ev_Object = c, ev_Type = ty, ev_Reason = r, ev_Message = m\<rparr>]"
  by (simp add: record_event_def)

text \<open>
  \<open>allowed i w c\<close>: a pass for index \<open>i\<close> in a world like \<open>w\<close> may make the call \<open>c\<close>;
  \<open>established i w T\<close>: after the calls \<open>T\<close> the group has what the pass is to provide;
  \<open>account i w\<close> is what the pass does to the accumulator.
\<close>

locale loop_body =
  fixes body :: "int \<Rightarrow> 'a \<Rightarrow> 'w world \<Rightarrow> 'w world \<times> 'a step"
    and allowed :: "int \<Rightarrow> 'w world \<Rightarrow> api_call \<Rightarrow> bool"
    and established :: "int \<Rightarrow> 'w world \<Rightarrow> (api_call \<times> go_error option) set \<Rightarrow> bool"
    and account :: "int \<Rightarrow> 'w world \<Rightarrow> 'a \<Rightarrow> 'a"
  assumes body_store: "body i a w = (w', r) \<Longrightarrow> same_store w w'"
    and body_calls: "body i a w = (w', r) \<Longrightarrow>
      \<exists>t. w_trace w' = w_trace w @ t \<and> (\<forall>(c, e) \<in> set t. allowed i w c) \<and>
          (\<forall>a'. r = Continue a' \<longrightarrow> established i w (set t) \<and> (\<forall>(c, e) \<in> set t. e = None))"
    and body_continue: "body i a w = (w', Continue a') \<Longrightarrow>
      a' = account i w a \<and> w_events w' = w_events w"
    and allowed_store: "same_store w w' \<Longrightarrow> allowed i w' = allowed i w"
    and established_store: "same_store w w' \<Longrightarrow> established i w' = established i w"
    and account_store: "same_store w w' \<Longrightarrow> account i w' = account i w"
    and established_mono: "established i w T \<Longrightarrow> T \<subseteq> T' \<Longrightarrow> established i w T'"
begin

lemma loop_store: "for_loop body is a w = (w', r) \<Longrightarrow> same_store w w'"
proof (induction "is" arbitrary: a w)
  case Nil
  then show ?case by simp
next
  case (Cons i "is")
  show ?case
    by (rule for_loop_ConsE [OF Cons.prems])
       (blast intro: body_store same_store_trans Cons.IH)+
qed

lemma loop_calls:
  assumes "for_loop body is a w = (w', r)"
  shows "\<exists>t. w_trace w' = w_trace w @ t \<and> (\<forall>(c, e) \<in> set t. \<exists>i \<in> set is. allowed i w c) \<and>
     (\<forall>a'. r = Continue a' \<longrightarrow> (\<forall>i \<in> set is. established i w (set t)) \<and> (\<forall>(c, e) \<in> set t. e = None))"
  using assms
proof (induction "is" arbitrary: a w)
  case Nil
  then show ?case by simp
next
  case (Cons i "is")
  show ?case
  proof (rule for_loop_ConsE [OF Cons.prems], goal_cases)
    case 1
    then show ?case using body_calls [OF 1(1)] by fastforce
  next
    case (2 w1 a1)
    have st: "same_store w w1" by (rule body_store [OF 2(1)])
    from body_calls [OF 2(1)] obtain t1 where
      t1: "w_trace w1 = w_trace w @ t1" "\<forall>(c, e) \<in> set t1. allowed i w c"
        "established i w (set t1)" "\<forall>(c, e) \<in> set t1. e = None" by blast
    from Cons.IH [OF 2(2)] obtain t2 where
      t2: "w_trace w' = w_trace w1 @ t2" "\<forall>(c, e) \<in> set t2. \<exists>j \<in> set is. allowed j w c"
        "\<forall>a'. r = Continue a' \<longrightarrow> (\<forall>j \<in> set is. established j w (set t2)) \<and> (\<forall>(c, e) \<in> set t2. e = None)"
      unfolding allowed_store [OF st] established_store [OF st] by blast
    have "established j w (set (t1 @ t2))" if "r = Continue a'" "j \<in> set (i # is)" for a' j
      using that t1(3) t2(3) established_mono [of j w _ "set (t1 @ t2)"] by auto
    with t1 t2 show ?case by (intro exI [of _ "t1 @ t2"]) auto
  qed
qed

lemma loop_continue:
  assumes "for_loop body is a w = (w', Continue a')"
  shows "a' = fold (\<lambda>i. account i w) is a" and "w_events w' = w_events w"
proof -
  have "a' = fold (\<lambda>i. account i w) is a \<and> w_events w' = w_events w"
    using assms
  proof (induction "is" arbitrary: a w)
    case Nil
    then show ?case by simp
  next
    case (Cons i "is")
    show ?case
    proof (rule for_loop_ConsE [OF Cons.prems], goal_cases)
      case 1
      then show ?case by simp
    next
      case (2 w1 a1)
      have "account i w1 = account i w" for i by (rule account_store [OF body_store [OF 2(1)]])
      with body_continue [OF 2(1)] Cons.IH [OF 2(2)] show ?case by simp
    qed
  qed
  then show "a' = fold (\<lambda>i. account i w) is a" "w_events w' = w_events w" by auto
qed

text \<open>A pass that stops the loop ran in a world like the first one.\<close>

lemma loop_stop:
  assumes "for_loop body is a w = (w', r)" "\<nexists>a'. r = Continue a'"
  obtains i a1 w1 where "i \<in> set is" "body i a1 w1 = (w', r)" "same_store w w1"
    "w_events w1 = w_events w"
proof -
  from for_loop_stop [OF assms] obtain pre i post a1 w1 where "is = pre @ i # post"
    and pre: "for_loop body pre a w = (w1, Continue a1)" and "body i a1 w1 = (w', r)"
    by blast
  then show thesis using that [of i a1 w1] loop_store [OF pre] loop_continue(2) [OF pre] by simp
qed

end

section \<open>Services\<close>

definition lister_service :: "addr \<Rightarrow> int \<Rightarrow> 'w world \<Rightarrow> Service option" where
  "lister_service p i w =
     (let c = cluster_at (w_heap w) p in
      GetByKey (w_services w) (om_Namespace (bc_ObjectMeta c) @ ''/'' @ Sprintf_d (svc_name_format c) i))"

definition create_service_call :: "addr \<Rightarrow> int \<Rightarrow> 'w world \<Rightarrow> api_call" where
  "create_service_call p i w =
     (let c = cluster_at (w_heap w) p in
      CallCreateService (om_Namespace (bc_ObjectMeta c)) (NewHeadlessService c i))"

definition owns_service :: "addr \<Rightarrow> 'w world \<Rightarrow> Service \<Rightarrow> bool" where
  "owns_service p w s \<longleftrightarrow> IsControlledBy (svc_ObjectMeta s) (bc_ObjectMeta (cluster_at (w_heap w) p))"

definition service_allowed :: "addr \<Rightarrow> int \<Rightarrow> 'w world \<Rightarrow> api_call \<Rightarrow> bool" where
  "service_allowed p i w c \<longleftrightarrow> lister_service p i w = None \<and> c = create_service_call p i w"

definition service_present :: "addr \<Rightarrow> int \<Rightarrow> 'w world \<Rightarrow> (api_call \<times> go_error option) set \<Rightarrow> bool" where
  "service_present p i w T \<longleftrightarrow>
     (case lister_service p i w of
        Some s \<Rightarrow> owns_service p w s
      | None \<Rightarrow> (create_service_call p i w, None) \<in> T)"

lemmas service_views =
  lister_service_def create_service_call_def owns_service_def service_allowed_def service_present_def

lemma get_or_create_service_cases:
  assumes "get_or_create_service cl (cluster_at (w_heap w) p) i w = (w', r)"
  obtains (found) s where "lister_service p i w = Some s" "w' = w" "r = Inr s"
  | (created) e where "lister_service p i w = None" "same_local w w'"
      "w_trace w' = w_trace w @ [(create_service_call p i w, e)]"
      "r = (case e of None \<Rightarrow> Inr (NewHeadlessService (cluster_at (w_heap w) p) i) | Some err \<Rightarrow> Inl err)"
proof (cases "lister_service p i w")
  case (Some s)
  then show thesis
    using found assms
    by (auto simp: get_or_create_service_def lister_service_def Services_Get_def Let_def)
next
  case None
  let ?c = "cluster_at (w_heap w) p"
  obtain w1 x where call: "CreateService cl (NewHeadlessService ?c i) w = (w1, x)" by fastforce
  have "w_trace w1 = w_trace w @ [(create_service_call p i w, x)]"
    using call call_api_parts(2)
    by (fastforce simp: CreateService_def create_service_call_def Let_def split: prod.splits)
  moreover have "w' = w1" "r = (case x of None \<Rightarrow> Inr (NewHeadlessService ?c i) | Some err \<Rightarrow> Inl err)"
    using assms None call
    by (auto simp: get_or_create_service_def lister_service_def Services_Get_def Let_def
        split: option.splits)
  ultimately show thesis using created [of x] None create_service.op_local [OF call] by blast
qed

text \<open>What one pass of the service loop does, case by case.\<close>

lemma sync_service_cases:
  assumes "sync_service cl p i a w = (w', r)"
  obtains (present) s where "lister_service p i w = Some s" "owns_service p w s" "w' = w" "r = Continue ()"
  | (foreign) s msg where "lister_service p i w = Some s" "\<not> owns_service p w s"
      "msg = MessageResourceExists ''Service'' (om_Namespace (svc_ObjectMeta s)) (om_Name (svc_ObjectMeta s))"
      "w' = record_event (cluster_at (w_heap w) p) EventTypeWarning ErrResourceExists msg w"
      "r = Return (Some (MessageError msg))"
  | (created) e where "lister_service p i w = None" "same_local w w'"
      "w_trace w' = w_trace w @ [(create_service_call p i w, e)]"
      "r = (case e of None \<Rightarrow> Continue () | Some err \<Rightarrow> Return (Some err))"
proof -
  let ?c = "cluster_at (w_heap w) p"
  obtain w1 x where get: "get_or_create_service cl ?c i w = (w1, x)" by fastforce
  show thesis
  proof (rule get_or_create_service_cases [OF get], goal_cases)
    case (1 s)
    then show ?case
      using present [of s] foreign [of s, OF _ _ refl] assms get
      by (cases "owns_service p w s") (auto simp: sync_service_def Let_def owns_service_def)
  next
    case (2 e)
    then show ?case
      using created [of e] assms get
      by (cases e) (auto simp: sync_service_def Let_def)
  qed
qed

lemma same_store_views:
  assumes "same_store w w'"
  shows "lister_service p i w' = lister_service p i w"
    "create_service_call p i w' = create_service_call p i w" "owns_service p w' = owns_service p w"
  using assms by (auto simp: same_store_def service_views Let_def)

interpretation service_body: loop_body "sync_service cl p" "service_allowed p" "service_present p"
    "\<lambda>i w a. a" for cl p
proof (unfold_locales, goal_cases)
  case (1 i a w w' r)
  then show ?case
    by (rule sync_service_cases) (auto dest: same_local_store)
next
  case (2 i a w w' r)
  then show ?case
  proof (rule sync_service_cases, goal_cases)
    case (3 e)
    then show ?case
      by (intro exI [of _ "[(create_service_call p i w, e)]"])
         (auto simp: service_allowed_def service_present_def split: option.splits)
  qed (auto simp: service_present_def)
next
  case (3 i a w w' a')
  then show ?case
    by (elim sync_service_cases) (auto dest: same_local_store)
qed (auto simp: service_allowed_def [abs_def] service_present_def [abs_def] same_store_views
    split: option.splits)

section \<open>Stateful sets\<close>

definition lister_ss :: "addr \<Rightarrow> int \<Rightarrow> 'w world \<Rightarrow> StatefulSet option" where
  "lister_ss p i w =
     (let c = cluster_at (w_heap w) p in
      GetByKey (w_statefulsets w)
        (om_Namespace (bc_ObjectMeta c) @ ''/'' @ Sprintf_d (group_name_format c) i))"

definition wanted_ss :: "addr \<Rightarrow> int \<Rightarrow> 'w world \<Rightarrow> StatefulSet" where
  "wanted_ss p i w = NewStatefulSet (cluster_at (w_heap w) p) i"

definition create_ss_call :: "addr \<Rightarrow> int \<Rightarrow> 'w world \<Rightarrow> api_call" where
  "create_ss_call p i w =
     CallCreateStatefulSet (om_Namespace (bc_ObjectMeta (cluster_at (w_heap w) p))) (wanted_ss p i w)"

definition patch_ss_call :: "StatefulSet \<Rightarrow> string \<Rightarrow> api_call" where
  "patch_ss_call ss = CallPatchStatefulSet (om_Namespace (ss_ObjectMeta ss)) (om_Name (ss_ObjectMeta ss))"

definition owns_ss :: "addr \<Rightarrow> 'w world \<Rightarrow> StatefulSet \<Rightarrow> bool" where
  "owns_ss p w s \<longleftrightarrow> IsControlledBy (ss_ObjectMeta s) (bc_ObjectMeta (cluster_at (w_heap w) p))"

definition right_size :: "addr \<Rightarrow> 'w world \<Rightarrow> StatefulSet \<Rightarrow> bool" where
  "right_size p w s \<longleftrightarrow> ss_SpecReplicas (ss_Spec s) = Some (MembersPerGroup (Spec (cluster_at (w_heap w) p)))"

definition ss_allowed :: "'w client \<Rightarrow> addr \<Rightarrow> int \<Rightarrow> 'w world \<Rightarrow> api_call \<Rightarrow> bool" where
  "ss_allowed cl p i w c \<longleftrightarrow>
     (case lister_ss p i w of
        None \<Rightarrow> c = create_ss_call p i w
      | Some s \<Rightarrow> owns_ss p w s \<and> \<not> right_size p w s \<and> 
         (\<exists>patch. merge_patch cl s (wanted_ss p i w) = Some patch \<and> c = patch_ss_call s patch))"

definition ss_present :: "'w client \<Rightarrow> addr \<Rightarrow> int \<Rightarrow> 'w world \<Rightarrow> (api_call \<times> go_error option) set \<Rightarrow> bool" where
  "ss_present cl p i w T \<longleftrightarrow>
     (case lister_ss p i w of
        None \<Rightarrow> (create_ss_call p i w, None) \<in> T
      | Some s \<Rightarrow> owns_ss p w s \<and> (right_size p w s \<or> 
         (\<exists>patch. merge_patch cl s (wanted_ss p i w) = Some patch \<and> (patch_ss_call s patch, None) \<in> T)))"

text \<open>The stateful set whose status is counted: the cached one unless it was just built.\<close>

definition counted_ss :: "addr \<Rightarrow> int \<Rightarrow> 'w world \<Rightarrow> StatefulSet" where
  "counted_ss p i w =
     (case lister_ss p i w of
        None \<Rightarrow> wanted_ss p i w
      | Some s \<Rightarrow> if right_size p w s then s else wanted_ss p i w)"

lemmas ss_views =
  lister_ss_def wanted_ss_def create_ss_call_def owns_ss_def right_size_def

lemma get_or_create_ss_cases:
  assumes "get_or_create_statefulset cl (cluster_at (w_heap w) p) i w = (w', r)"
  obtains (found) s where "lister_ss p i w = Some s" "w' = w" "r = Inr s"
  | (created) e where "lister_ss p i w = None" "same_local w w'"
      "w_trace w' = w_trace w @ [(create_ss_call p i w, e)]"
      "r = (case e of None \<Rightarrow> Inr (wanted_ss p i w) | Some err \<Rightarrow> Inl err)"
proof (cases "lister_ss p i w")
  case (Some s)
  then show thesis
    using found assms
    by (auto simp: get_or_create_statefulset_def lister_ss_def StatefulSets_Get_def Let_def)
next
  case None
  let ?s = "wanted_ss p i w"
  obtain w1 x where call: "CreateStatefulSet cl ?s w = (w1, x)" by fastforce
  have "w_trace w1 = w_trace w @ [(create_ss_call p i w, x)]"
    using call call_api_parts(2)
    by (fastforce simp: CreateStatefulSet_def create_ss_call_def wanted_ss_def Let_def split: prod.splits)
  moreover have "w' = w1" "r = (case x of None \<Rightarrow> Inr ?s | Some err \<Rightarrow> Inl err)"
    using assms None call
    by (auto simp: get_or_create_statefulset_def lister_ss_def wanted_ss_def StatefulSets_Get_def
        Let_def split: option.splits)
  ultimately show thesis using created [of x] None create_statefulset.op_local [OF call] by blast
qed

text \<open>A patch makes at most one call, and a successful one if it returns nil.\<close>

lemma Patch_cases:
  assumes "Patch cl old new w = (w', e)"
  shows "same_local w w'"
    and "\<exists>t. w_trace w' = w_trace w @ t \<and> (\<forall>(c, x) \<in> set t. \<exists>patch. merge_patch cl old new = Some patch \<and> c = patch_ss_call old patch) \<and>
      (e = None \<longrightarrow> (\<exists>patch. merge_patch cl old new = Some patch \<and> t = [(patch_ss_call old patch, None)]))"
proof -
  have run: "(case (old, new) of (old, new) \<Rightarrow> Patch cl old new) w = (w', e)" using assms by simp
  show "same_local w w'" by (rule patch_statefulset.op_local [OF run])
  show "\<exists>t. w_trace w' = w_trace w @ t \<and> (\<forall>(c, x) \<in> set t. \<exists>patch. merge_patch cl old new = Some patch \<and> c = patch_ss_call old patch) \<and>
      (e = None \<longrightarrow> (\<exists>patch. merge_patch cl old new = Some patch \<and> t = [(patch_ss_call old patch, None)]))"
    using patch_statefulset.op_trace [OF run] by (auto simp: patch_ss_call_def)
qed

text \<open>What one pass of the stateful set loop does.\<close>

lemma sync_ss_cases:
  assumes "sync_statefulset cl p i a w = (w', r)"
  obtains (present) s where "lister_ss p i w = Some s" "owns_ss p w s" "right_size p w s" "w' = w"
      "r = Continue (count_ready s a)"
  | (foreign) s msg where "lister_ss p i w = Some s" "\<not> owns_ss p w s"
      "msg = MessageResourceExists ''StatefulSet'' (om_Namespace (ss_ObjectMeta s)) (om_Name (ss_ObjectMeta s))"
      "w' = record_event (cluster_at (w_heap w) p) EventTypeWarning ErrResourceExists msg w"
      "r = Return (Some (MessageError (Sprintf_none msg)))"
  | (nil) s where "lister_ss p i w = Some s" "owns_ss p w s" "ss_SpecReplicas (ss_Spec s) = None"
      "w' = w" "r = Panic"
  | (resized) s e where "lister_ss p i w = Some s" "owns_ss p w s" "\<not> right_size p w s"
      "Patch cl s (wanted_ss p i w) w = (w', e)"
      "r = (case e of None \<Rightarrow> Continue (count_ready (wanted_ss p i w) a) | Some err \<Rightarrow> Return (Some err))"
  | (created) e where "lister_ss p i w = None" "same_local w w'"
      "w_trace w' = w_trace w @ [(create_ss_call p i w, e)]"
      "r = (case e of None \<Rightarrow> Continue (count_ready (wanted_ss p i w) a) | Some err \<Rightarrow> Return (Some err))"
proof -
  let ?c = "cluster_at (w_heap w) p"
  obtain w1 x where get: "get_or_create_statefulset cl ?c i w = (w1, x)" by fastforce
  have wanted: "wanted_ss p i w = NewStatefulSet ?c i" by (simp add: wanted_ss_def)
  show thesis
  proof (rule get_or_create_ss_cases [OF get], goal_cases)
    case (1 s)
    show ?case
    proof (cases "owns_ss p w s")
      case False
      then show ?thesis
        using 1 foreign [of s, OF _ _ refl] assms get by (simp add: sync_statefulset_def Let_def owns_ss_def)
    next
      case own: True
      show ?thesis
      proof (cases "ss_SpecReplicas (ss_Spec s)")
        case None
        then show ?thesis
          using 1 own nil [of s] assms get
          by (simp add: sync_statefulset_def Let_def owns_ss_def resize_statefulset_def)
      next
        case (Some n)
        obtain w2 e where patch: "Patch cl s (NewStatefulSet ?c i) w = (w2, e)" by fastforce
        show ?thesis
          using 1 own Some patch present [of s] resized [of s e] assms get wanted
          by (cases e)
             (auto simp: sync_statefulset_def Let_def owns_ss_def resize_statefulset_def right_size_def
              split: if_splits)
      qed
    qed
  next
    case (2 e)
    then show ?case
      using created [of e] assms get wanted
      by (cases e) (auto simp: sync_statefulset_def Let_def resize_statefulset_def)
  qed
qed

lemma same_store_ss_views:
  assumes "same_store w w'"
  shows "lister_ss p i w' = lister_ss p i w" "wanted_ss p i w' = wanted_ss p i w"
    "create_ss_call p i w' = create_ss_call p i w" "owns_ss p w' = owns_ss p w"
    "right_size p w' = right_size p w"
  using assms by (auto simp: same_store_def ss_views Let_def)

interpretation ss_body: loop_body "sync_statefulset cl p" "ss_allowed cl p" "ss_present cl p"
    "\<lambda>i w. count_ready (counted_ss p i w)" for cl p
proof (unfold_locales, goal_cases)
  case (1 i a w w' r)
  then show ?case
    by (rule sync_ss_cases) (auto dest: same_local_store Patch_cases(1))
next
  case (2 i a w w' r)
  then show ?case
  proof (rule sync_ss_cases, goal_cases)
    case (4 s e)
    with Patch_cases(2) [OF 4(4)] show ?case
      by (fastforce simp: ss_allowed_def ss_present_def split: option.splits)
  next
    case (5 e)
    then show ?case
      by (intro exI [of _ "[(create_ss_call p i w, e)]"])
         (auto simp: ss_allowed_def ss_present_def split: option.splits)
  qed (auto simp: ss_present_def)
next
  case (3 i a w w' a')
  then show ?case
  proof (rule sync_ss_cases, goal_cases)
    case (4 s e)
    with Patch_cases(1) [OF 4(4)] show ?case
      by (auto simp: counted_ss_def dest: same_local_store split: option.splits)
  qed (auto simp: counted_ss_def dest: same_local_store split: option.splits)
next
  case (7 i w T T')
  then show ?case by (fastforce simp: ss_present_def split: option.splits)
qed (auto simp: ss_allowed_def [abs_def] ss_present_def [abs_def] counted_ss_def same_store_ss_views
    split: option.splits)

section \<open>Counting ready groups\<close>

definition group_ready :: "addr \<Rightarrow> 'w world \<Rightarrow> int \<Rightarrow> bool" where
  "group_ready p w i \<longleftrightarrow>
     ss_ReadyReplicas (ss_Status (counted_ss p i w)) = ss_Replicas (ss_Status (counted_ss p i w))"

definition group_members :: "addr \<Rightarrow> 'w world \<Rightarrow> int \<Rightarrow> int" where
  "group_members p w i = sint (ss_Replicas (ss_Status (counted_ss p i w)))"

lemma fold_count_ready:
  "fold (\<lambda>i. count_ready (counted_ss p i w)) is (g, m) =
     (g + int (length (filter (group_ready p w) is)),
      m + (\<Sum>i \<leftarrow> filter (group_ready p w) is. group_members p w i))"
  by (induction "is" arbitrary: g m) (simp_all add: count_ready_def group_ready_def group_members_def)

lemma sum_list_bound:
  "(\<And>x. x \<in> set xs \<Longrightarrow> \<bar>f x\<bar> \<le> (b :: int)) \<Longrightarrow> \<bar>\<Sum>x \<leftarrow> xs. f x\<bar> \<le> int (length xs) * b"
proof (induction xs)
  case (Cons x xs)
  then have "\<bar>f x\<bar> \<le> b" "\<bar>\<Sum>x \<leftarrow> xs. f x\<bar> \<le> int (length xs) * b" by auto
  then show ?case by (simp add: algebra_simps)
qed simp

lemma sint32_abs: "\<bar>sint (x :: int32)\<bar> \<le> 2 ^ 31"
  using sint32_bounds [of x] by (simp add: abs_if)

lemma length_filter_indices:
  "int (length (filter P (indices n))) = int (card {i. 0 \<le> i \<and> i < n \<and> P i})"
proof -
  have "card (set (filter P (indices n))) = length (filter P (indices n))"
    by (rule distinct_card) (simp add: distinct_filter)
  moreover have "set (filter P (indices n)) = {i. 0 \<le> i \<and> i < n \<and> P i}" by auto
  ultimately show ?thesis by simp
qed

lemma sum_filter_indices:
  "(\<Sum>i \<leftarrow> filter P (indices n). f i) = (\<Sum>i | 0 \<le> i \<and> i < n \<and> P i. f i)"
proof -
  have "{i. 0 \<le> i \<and> i < n \<and> P i} = set (filter P (indices n))" by auto
  then show ?thesis by (simp add: sum_list_distinct_conv_sum_set distinct_filter)
qed

text \<open>
  C28: The counters of a finished pass over all groups: \<open>readyGroups\<close> is the number of groups
  whose stateful set reports as many ready as total replicas, \<open>readyMembers\<close> the sum of
  the replicas of these groups; a stateful set built in this very pass counts as ready with
  no members. Both stay far inside Go's 64-bit \<open>int\<close>, so neither the sum nor the product
  it is compared with can overflow.
\<close>

theorem ready_counts:
  fixes n :: int32
  assumes "sync_statefulsets cl p (sint n) w = (w', Continue (g, m))"
  shows "g = int (card {i. 0 \<le> i \<and> i < sint n \<and> group_ready p w i}) \<and>
    m = (\<Sum>i | 0 \<le> i \<and> i < sint n \<and> group_ready p w i. group_members p w i) \<and>
    0 \<le> g \<and> g \<le> max 0 (sint n) \<and> \<bar>m\<bar> < 2 ^ 63 \<and> \<bar>sint n * sint (k :: int32)\<bar> < 2 ^ 63"
proof -
  let ?r = "filter (group_ready p w) (indices (sint n))"
  have gm: "g = int (length ?r)" "m = (\<Sum>i \<leftarrow> ?r. group_members p w i)"
    using ss_body.loop_continue(1) [OF assms [unfolded sync_statefulsets_def]]
    by (simp_all add: fold_count_ready)
  have len: "length ?r \<le> nat (sint n)"
    using length_filter_le [of "group_ready p w" "indices (sint n)"] by simp
  have n: "sint n < 2 ^ 31" by (rule sint32_upper)
  have "\<bar>m\<bar> \<le> int (length ?r) * 2 ^ 31"
    unfolding gm(2) by (rule sum_list_bound) (unfold group_members_def, rule sint32_abs)
  also have "\<dots> \<le> 2 ^ 31 * 2 ^ 31" using len n by (intro mult_right_mono) auto
  finally have m: "\<bar>m\<bar> < 2 ^ 63" by simp
  have "\<bar>sint n * sint k\<bar> \<le> 2 ^ 31 * 2 ^ 31"
    unfolding abs_mult by (intro mult_mono sint32_abs) auto
  then have "\<bar>sint n * sint k\<bar> < 2 ^ 63" by simp
  with m len show ?thesis
    using gm length_filter_indices sum_filter_indices by auto
qed

text \<open>In the sample world there is no stateful set yet: a pass creates two.\<close>

lemma sample_ss_pass:
  assumes "w_statefulsets w = Map.empty"
  shows "\<exists>w'. sync_statefulset accepting_client p i (g, m) w = (w', Continue (g + 1, m)) \<and>
     w_statefulsets w' = Map.empty"
  using assms
  by (simp add: sync_statefulset_def Let_def get_or_create_statefulset_def StatefulSets_Get_def
      GetByKey_def CreateStatefulSet_def call_api_def accepting_client_def resize_statefulset_def
      count_ready_def)

lemma sample_ss_run:
  assumes "w_statefulsets w = Map.empty"
  shows "\<exists>w'. sync_statefulsets accepting_client p 2 w = (w', Continue (2, 0))"
proof -
  obtain w1 where 1: "sync_statefulset accepting_client p 0 (0, 0) w = (w1, Continue (1, 0))"
    "w_statefulsets w1 = Map.empty"
    using sample_ss_pass [OF assms, of p 0 0 0] by auto
  obtain w2 where "sync_statefulset accepting_client p 1 (1, 0) w1 = (w2, Continue (2, 0))"
    using sample_ss_pass [OF 1(2), of p 1 1 0] by auto
  with 1(1) show ?thesis
    by (simp add: sync_statefulsets_def indices_def upt_rec)
qed

lemma sample_service_pass:
  assumes "w_services w = Map.empty"
  shows "\<exists>w'. sync_service accepting_client p i a w = (w', Continue ()) \<and> w_services w' = Map.empty"
  using assms
  by (simp add: sync_service_def Let_def get_or_create_service_def Services_Get_def
      GetByKey_def CreateService_def call_api_def accepting_client_def)

lemma sample_service_run:
  assumes "w_services w = Map.empty"
  shows "\<exists>w'. sync_services accepting_client p 2 w = (w', Continue ())"
proof -
  obtain w1 where 1: "sync_service accepting_client p 0 () w = (w1, Continue ())"
    "w_services w1 = Map.empty"
    using sample_service_pass [OF assms, of p 0] by auto
  obtain w2 where "sync_service accepting_client p 1 () w1 = (w2, Continue ())"
    using sample_service_pass [OF 1(2), of p 1] by auto
  with 1(1) show ?thesis
    by (simp add: sync_services_def indices_def upt_rec)
qed

theorem ready_counts_witness:
  "card {i. 0 \<le> i \<and> i < 2 \<and> group_ready 0 sample_world i} = 2 \<and>
   (\<Sum>i | 0 \<le> i \<and> i < 2 \<and> group_ready 0 sample_world i. group_members 0 sample_world i) = 0"
proof -
  obtain w' where "sync_statefulsets accepting_client 0 (sint (2 :: int32)) sample_world =
      (w', Continue (2, 0))"
    using sample_ss_run [of sample_world 0] by auto
  from ready_counts [OF this, of 0] show ?thesis by simp
qed

end
