(* ===== verification/Ready_Condition.thy ===== *)
theory Ready_Condition
  imports Conditions
begin

text \<open>
  The heap part of \<open>updateClusterStatus\<close> (\<open>controller.go\<close>): setting the Ready condition.

  The function takes the pointer to the Ready condition inside the cached cluster, or to a
  new struct when there is none, sets its status from the counters, and updates a copy of
  the cluster's status with it. \<open>ready_update\<close> is the meaning of this for the list of
  conditions; \<open>keeps_below\<close> says which cells an operation leaves alone.
\<close>

section \<open>The operation\<close>

definition ready_condition_ptr :: "heap \<Rightarrow> addr \<Rightarrow> heap \<times> cond_ptr" where
  "ready_condition_ptr h p =
     (case GetClusterCondition h (Some (StatusOf p)) BrokerClusterReady of
        (_, Some c) \<Rightarrow> (h, c)
      | (_, None) \<Rightarrow>
          (case alloc_cond h \<lparr>cond_Type = BrokerClusterReady, cond_Status = '''',
                  LastTransitionTime = 0, cond_Reason = '''', cond_Message = ''''\<rparr> of
             (h', a) \<Rightarrow> (h', CondCell a)))"

definition ready_status :: "int \<Rightarrow> int \<Rightarrow> ('m, 'p) BrokerClusterSpec \<Rightarrow> string" where
  "ready_status readyGroups readyMembers spec =
     (if readyGroups = sint (GroupReplica spec) \<and>
         readyMembers = sint (GroupReplica spec) * sint (MembersPerGroup spec)
      then ConditionTrue else ConditionFalse)"

text \<open>\<open>DeepCopy\<close> of a status that is there returns a pointer.\<close>

definition set_ready_condition :: "time \<Rightarrow> addr \<Rightarrow> int \<Rightarrow> int \<Rightarrow> heap \<Rightarrow> heap \<times> addr \<times> bool" where
  "set_ready_condition now p readyGroups readyMembers h =
     (case BrokerClusterStatus_DeepCopy h (Some (Status (h_clusters h p))) of
        (h1, status) \<Rightarrow>
      case ready_condition_ptr h1 p of
        (h2, condition) \<Rightarrow>
          (let h3 = store_cond h2 condition ((load_cond h2 condition)
                      \<lparr>cond_Status := ready_status readyGroups readyMembers (Spec (h_clusters h2 p))\<rparr>)
           in case UpdateClusterCondition now h3 (StatusCell (the status)) condition of
                (h4, updated) \<Rightarrow> (h4, the status, updated)))"

section \<open>Its meaning for the list of conditions\<close>

text \<open>
  \<open>ready_update now st cs\<close> is what setting the Ready condition to the status \<open>st\<close> means for
  the list of conditions.
\<close>

definition ready_condition :: "BrokerClusterCondition list \<Rightarrow> BrokerClusterCondition" where
  "ready_condition cs =
     (case condition_of cs BrokerClusterReady of
        Some c \<Rightarrow> c
      | None \<Rightarrow> \<lparr>cond_Type = BrokerClusterReady, cond_Status = '''', LastTransitionTime = 0,
                 cond_Reason = '''', cond_Message = ''''\<rparr>)"

definition ready_update :: "time \<Rightarrow> string \<Rightarrow> BrokerClusterCondition list
    \<Rightarrow> BrokerClusterCondition list \<times> bool" where
  "ready_update now st cs = update_conditions now cs ((ready_condition cs)\<lparr>cond_Status := st\<rparr>)"

definition cluster_conditions :: "heap \<Rightarrow> addr \<Rightarrow> BrokerClusterCondition list" where
  "cluster_conditions h p = conditions_of h (Status (h_clusters h p))"

lemma ready_condition_type [simp]: "cond_Type (ready_condition cs) = BrokerClusterReady"
  by (auto simp: ready_condition_def condition_of_def find_Some_iff split: option.split)

lemma conditions_of_val: "conditions_of h s = (case Conditions (status_val_of h s) of None \<Rightarrow> [] | Some cs \<Rightarrow> cs)"
  by (simp add: conditions_of_def split: option.split)

text \<open>Cells below \<open>n\<close> other than the array \<open>b\<close> are untouched.\<close>

definition keeps_below :: "addr \<Rightarrow> addr set \<Rightarrow> heap \<Rightarrow> heap \<Rightarrow> bool" where
  "keeps_below n B h h' \<longleftrightarrow>
     h_next h \<le> h_next h' \<and> (\<forall>a < n. a \<notin> B \<longrightarrow> same_cells a h h') \<and>
     (\<forall>a < n. h_clusters h' a = h_clusters h a \<and> h_statuses h' a = h_statuses h a \<and>
        h_conds h' a = h_conds h a \<and> h_maps h' a = h_maps h a \<and> h_blobs h' a = h_blobs h a)"

lemma keeps_below_refl [simp]: "keeps_below n B h h"
  by (simp add: keeps_below_def)

lemma keeps_below_trans:
  assumes 1: "keeps_below n B h h'" and 2: "keeps_below n B h' h''"
  shows "keeps_below n B h h''"
  unfolding keeps_below_def
proof (intro conjI allI impI)
  show "h_next h \<le> h_next h''" using 1 2 by (simp add: keeps_below_def)
  fix a assume a: "a < n"
  show "same_cells a h h''" if "a \<notin> B"
    using 1 2 a that unfolding keeps_below_def by (meson same_cells_trans)
qed (use 1 2 in \<open>simp_all add: keeps_below_def\<close>)

lemma keeps_below_le: "h \<le> h' \<Longrightarrow> n \<le> h_next h \<Longrightarrow> keeps_below n B h h'"
  unfolding keeps_below_def less_eq_heap_ext_def same_cells_def by auto

lemma keeps_below_empty: "keeps_below (h_next h) {} h h' \<Longrightarrow> h \<le> h'"
  by (simp add: keeps_below_def less_eq_heap_ext_def)

lemma keeps_below_store:
  "n \<le> a \<Longrightarrow> keeps_below n B h (store_cond h (CondElem a i) c)"
  "a \<in> B \<Longrightarrow> keeps_below n B h (store_cond h (CondElem a i) c)"
  "n \<le> a \<Longrightarrow> keeps_below n B h (store_cond h (CondCell a) c)"
  "n \<le> a \<Longrightarrow> keeps_below n B h (store_status h (StatusCell a) s)"
  by (auto simp: keeps_below_def same_cells_def store_cond.simps)

lemma append_condition_keeps:
  assumes sp: "n \<le> s" and n: "n \<le> h_next h"
    and sl: "\<And>sl. Conditions (h_statuses h s) = Some sl \<Longrightarrow> n \<le> sl_array sl"
  shows "keeps_below n B h (append_condition h (StatusCell s) c)"
proof (cases "Conditions (h_statuses h s)")
  case None
  obtain h1 a where al: "alloc_array h [c] = (h1, a)" by fastforce
  show ?thesis
    using None al keeps_below_le [OF arrays.alloc_extends [OF al] n] keeps_below_store(4) [OF sp]
    by (auto simp: append_condition_def Let_def simp del: store_status.simps
        intro: keeps_below_trans [where h' = h1])
next
  case (Some sl)
  show ?thesis
  proof (cases "sl_len sl < length (h_arrays h (sl_array sl))")
    case True
    then show ?thesis
      using Some keeps_below_trans [OF keeps_below_store(1) [OF sl [OF Some]] keeps_below_store(4) [OF sp]]
      by (simp add: append_condition_def Let_def del: store_status.simps)
  next
    case False
    obtain h1 a where al: "alloc_array h (slice_val h sl @ [c]) = (h1, a)" by fastforce
    show ?thesis
      using Some False al keeps_below_le [OF arrays.alloc_extends [OF al] n] keeps_below_store(4) [OF sp]
      by (auto simp: append_condition_def Let_def simp del: store_status.simps
          intro: keeps_below_trans [where h' = h1])
  qed
qed

lemma wf_status_store [simp]: "wf_status (store_cond h cp c) x = wf_status h x"
  by (auto simp: wf_status_def slice_ok_def opt_all_def split: option.splits)

lemma conditions_of_store:
  "(\<And>sl. Conditions s = Some sl \<Longrightarrow> h_arrays (store_cond h cp c) (sl_array sl) = h_arrays h (sl_array sl)) \<Longrightarrow>
     conditions_of (store_cond h cp c) s = conditions_of h s"
  by (auto simp: conditions_of_def slice_val_def split: option.split)

lemma wf_ptr_status: "wf_ptr h p \<Longrightarrow> wf_status h (Status (h_clusters h p))"
  by (auto simp: wf_ptr_def wf_cluster_parts)

text \<open>
  The state before \<open>UpdateClusterCondition\<close> is called: the copied status has the cluster's
  conditions, the condition pointer is valid, outside that copy, and holds the new status.
\<close>

lemma set_ready_start:
  fixes h :: heap and p :: addr and g m :: int
  defines "st \<equiv> Status (h_clusters h p)" and "cs \<equiv> cluster_conditions h p" and "n \<equiv> h_next h"
    and "target \<equiv> ready_status g m (Spec (h_clusters h p))"
  assumes wf: "wf_ptr h p" and run: "set_ready_condition now p g m h = (h4, s, updated)"
  obtains h3 cp B where "UpdateClusterCondition now h3 (StatusCell s) cp = (h4, updated)"
    "wf_status h3 (h_statuses h3 s)" "conditions_of h3 (h_statuses h3 s) = cs"
    "load_cond h3 cp = (ready_condition cs)\<lparr>cond_Status := target\<rparr>"
    "cond_valid h3 cp" "separate h3 (StatusCell s) cp" "keeps_below n B h h3"
    "n \<le> s" "s < h_next h3" "\<And>sl. Conditions (h_statuses h3 s) = Some sl \<Longrightarrow> n \<le> sl_array sl"
    "(\<exists>a \<ge> n. cp = CondCell a \<and> B = {} \<and> condition_of cs BrokerClusterReady = None) \<or>
     (\<exists>sl i. Conditions st = Some sl \<and> cp = CondElem (sl_array sl) i \<and> B = {sl_array sl} \<and>
        find_index (\<lambda>c. cond_Type c = BrokerClusterReady) (slice_val h sl) = Some i \<and>
        h_arrays h3 (sl_array sl) = (h_arrays h (sl_array sl))
          [i := (ready_condition cs)\<lparr>cond_Status := target\<rparr>])"
proof -
  have pn: "p < n" using wf by (simp add: wf_ptr_def n_def)
  have wst: "wf_status h st" using wf_ptr_status [OF wf] by (simp add: st_def)
  obtain h1 r where dc: "BrokerClusterStatus_DeepCopy h (Some st) = (h1, r)" by fastforce
  then obtain s' where r: "r = Some s'" by (auto elim: Status_DeepCopy_Some)
  note copy = Status_DeepCopy_ptr [OF dc [unfolded r]]
  have cl: "h_clusters h1 p = h_clusters h p" using heap_le_reads(1) [OF copy(1)] pn by (simp add: n_def)
  have slval: "slice_val h1 sl = slice_val h sl" if "Conditions st = Some sl" for sl
    using heap_le_reads(6) [OF copy(1), of "sl_array sl"] that wst
    by (auto simp: slice_val_def wf_status_def refs_defs)
  have cond1: "conditions_of h1 (h_statuses h1 s') = cs"
    using copy(5) [OF wst] by (simp add: conditions_of_val cs_def cluster_conditions_def st_def)
  have arr1: "n \<le> sl_array sl" "sl_array sl < h_next h1" if "Conditions (h_statuses h1 s') = Some sl" for sl
    using copy(4) [of "sl_array sl"] that by (auto simp: status_refs_def n_def)
  have k1: "keeps_below n B h h1" for B by (rule keeps_below_le [OF copy(1)]) (simp add: n_def)
  have n1: "n \<le> h_next h1" using heap_le_next [OF copy(1)] by (simp add: n_def)
  note copy_facts = copy(2,3) cond1 copy(6) [OF wst]
  show thesis
  proof (cases "condition_of cs BrokerClusterReady")
    case None
    let ?blank = "\<lparr>cond_Type = BrokerClusterReady, cond_Status = '''', LastTransitionTime = 0,
      cond_Reason = '''', cond_Message = ''''\<rparr>"
    obtain h2 a where al: "alloc_cond h1 ?blank = (h2, a)" by fastforce
    note al_facts = conds.alloc_facts [OF al]
    have none: "find_index (\<lambda>c. cond_Type c = BrokerClusterReady) (slice_val h1 sl) = None"
      if "Conditions st = Some sl" for sl
      using None that slval [OF that]
      by (simp add: cs_def cluster_conditions_def st_def conditions_of_def condition_of_None find_index_None)
    have ptr: "ready_condition_ptr h1 p = (h2, CondCell a)"
      using none al
      by (auto simp: ready_condition_ptr_def GetClusterCondition_def cl st_def split: option.splits)
    have new: "ready_condition cs = ?blank" using None by (simp add: ready_condition_def)
    let ?h3 = "store_cond h2 (CondCell a) (?blank\<lparr>cond_Status := target\<rparr>)"
    have cl2: "h_clusters h2 p = h_clusters h p"
      using heap_le_reads(1) [OF al_facts(4), of p] cl pn n1 by simp
    have s2: "s' < h_next h2" "h_statuses h2 s' = h_statuses h1 s'"
      using heap_le_reads(2) [OF al_facts(4) copy(3)] heap_le_next [OF al_facts(4)] copy(3) by auto
    have run3: "UpdateClusterCondition now ?h3 (StatusCell s') (CondCell a) = (h4, updated)" "s' = s"
      using run dc r ptr al_facts(3) cl2
      by (auto simp: set_ready_condition_def st_def target_def Let_def split: prod.splits)
    have an: "n \<le> a" using al_facts(6) n1 by simp
    have c2: "conditions_of h2 (h_statuses h2 s') = cs"
      using cond1 heap_le_reads(6) [OF al_facts(4)] arr1 s2(2)
      by (auto simp: conditions_of_def slice_val_def split: option.splits)
    show thesis
    proof (rule that [of ?h3 "CondCell a" "{}"], goal_cases)
      case 2
      show ?case using run3(2) copy_facts(4) s2(2) status_copy.ok_extends [OF al_facts(4)] by simp
    next
      case 3
      show ?case using run3(2) c2 by (subst conditions_of_store) auto
    next
      case 7
      show ?case
        by (rule keeps_below_trans [OF k1 keeps_below_trans [OF keeps_below_le [OF al_facts(4) n1]
              keeps_below_store(3) [OF an]]])
    qed (use run3 new copy_facts s2 an None arr1 al_facts(5) in \<open>auto simp: separate_def n_def split: option.split\<close>)
  next
    case (Some c)
    then obtain sl i where sl: "Conditions st = Some sl"
      and ix: "find_index (\<lambda>c. cond_Type c = BrokerClusterReady) (slice_val h sl) = Some i"
      and c: "c = slice_val h sl ! i"
      by (auto simp: cs_def cluster_conditions_def st_def conditions_of_def condition_of_def
          find_index_find split: option.splits)
    have i: "i < sl_len sl" "i < length (h_arrays h (sl_array sl))" "sl_array sl < n"
      using find_index_bound [OF ix] sl wst by (auto simp: slice_val_def wf_status_def refs_defs n_def)
    have arr: "h_arrays h1 (sl_array sl) = h_arrays h (sl_array sl)"
      using heap_le_reads(6) [OF copy(1)] i(3) by (simp add: n_def)
    let ?cp = "CondElem (sl_array sl) i"
    have ptr: "ready_condition_ptr h1 p = (h1, ?cp)"
      using sl ix slval [OF sl] by (simp add: ready_condition_ptr_def GetClusterCondition_def cl st_def [symmetric])
    have ld: "load_cond h1 ?cp = ready_condition cs"
      using Some c i slval [OF sl] load_cond_slice [OF i(1), of h1] by (simp add: ready_condition_def)
    let ?h3 = "store_cond h1 ?cp ((ready_condition cs)\<lparr>cond_Status := target\<rparr>)"
    have run3: "UpdateClusterCondition now ?h3 (StatusCell s') ?cp = (h4, updated)" "s' = s"
      using run dc r ptr ld cl
      by (auto simp: set_ready_condition_def st_def target_def Let_def split: prod.splits)
    have sep: "sl_array sl' \<noteq> sl_array sl" if "Conditions (h_statuses h1 s') = Some sl'" for sl'
      using arr1(1) [OF that] i(3) by simp
    show thesis
    proof (rule that [of ?h3 ?cp "{sl_array sl}"], goal_cases)
      case 3
      show ?case using run3(2) cond1 sep by (subst conditions_of_store) auto
    next
      case 7
      show ?case by (rule keeps_below_trans [OF k1 keeps_below_store(2)]) simp
    next
      case 6
      show ?case using sep run3(2) by (auto simp: separate_def split: option.split)
    next
      case 11
      show ?case using sl ix arr by auto
    qed (use run3 copy_facts i arr1 arr n1 in \<open>auto simp: n_def\<close>)
  qed
qed

lemma append_condition_wf:
  assumes wf: "wf_status h (h_statuses h s)" and s: "s < h_next h"
  shows "wf_status (append_condition h (StatusCell s) c) (h_statuses (append_condition h (StatusCell s) c) s)"
    and "s < h_next (append_condition h (StatusCell s) c)"
proof -
  show "s < h_next (append_condition h (StatusCell s) c)"
    using s by (auto simp: append_condition_def Let_def alloc_array_def split: option.split)
  show "wf_status (append_condition h (StatusCell s) c) (h_statuses (append_condition h (StatusCell s) c) s)"
  proof (cases "Conditions (h_statuses h s)")
    case None
    with wf show ?thesis
      by (auto simp: append_condition_def Let_def alloc_array_def wf_status_def refs_defs slice_ok_def)
  next
    case (Some sl)
    with wf show ?thesis
      by (auto simp: append_condition_def Let_def alloc_array_def wf_status_def refs_defs slice_ok_def
          slice_val_def)
  qed
qed

text \<open>What the update of a separate condition leaves alone.\<close>

lemma UpdateClusterCondition_keeps:
  assumes upd: "UpdateClusterCondition now h (StatusCell s) cp = (h', changed)"
    and wf: "wf_status h (h_statuses h s)" and s: "n \<le> s" "s < h_next h"
    and valid: "cond_valid h cp" and sep: "separate h (StatusCell s) cp"
    and sl: "\<And>sl. Conditions (h_statuses h s) = Some sl \<Longrightarrow> n \<le> sl_array sl"
    and cp: "\<And>c h. keeps_below n B h (store_cond h cp c)"
  shows "keeps_below n B h h'" "wf_status h' (h_statuses h' s)" "s < h_next h'"
proof -
  let ?d = "(load_cond h cp)\<lparr>LastTransitionTime := now\<rparr>"
  have n: "n \<le> h_next h" using s by simp
  have "keeps_below n B h h' \<and> wf_status h' (h_statuses h' s) \<and> s < h_next h'"
  proof (cases "snd (GetClusterCondition h (Some (StatusCell s)) (cond_Type (load_cond h cp)))")
    case None
    then obtain k where "GetClusterCondition h (Some (StatusCell s)) (cond_Type (load_cond h cp)) = (k, None)"
      by (metis prod.collapse)
    note eq = UpdateClusterCondition_missing [OF sep valid this, of now]
    have h': "h' = append_condition (store_cond h cp ?d) (StatusCell s) ?d"
      using upd eq by simp
    show ?thesis
      using keeps_below_trans [OF cp append_condition_keeps] append_condition_wf [of "store_cond h cp ?d" s ?d]
        s n sl wf
      by (simp add: h')
  next
    case (Some q)
    then obtain sl' i where sl': "Conditions (load_status h (StatusCell s)) = Some sl'"
      and ix: "find_index (\<lambda>c. cond_Type c = cond_Type (load_cond h cp)) (slice_val h sl') = Some i"
      using Get_Some by (metis prod.collapse)
    note eq = UpdateClusterCondition_found [OF sep valid sl' ix, of now]
    let ?t = "touched now (slice_val h sl' ! i) (load_cond h cp)"
    have h': "h' = store_cond (store_cond h cp ?t) (CondElem (sl_array sl') i) ?t"
      using upd eq by simp
    have "n \<le> sl_array sl'" using sl sl' by simp
    then show ?thesis
      using keeps_below_trans [OF cp keeps_below_store(1)] wf s by (simp add: h')
  qed
  then show "keeps_below n B h h'" "wf_status h' (h_statuses h' s)" "s < h_next h'" by auto
qed

lemma set_ready_condition_effect:
  assumes wf: "wf_ptr h p" and run: "set_ready_condition now p g m h = (h4, s, updated)"
  defines "cs \<equiv> cluster_conditions h p" and "u \<equiv> ready_update now
      (ready_status g m (Spec (h_clusters h p))) (cluster_conditions h p)"
  shows "updated = snd u" "conditions_of h4 (h_statuses h4 s) = fst u"
    "cluster_conditions h4 p = (if condition_of cs BrokerClusterReady = None then cs else fst u)"
    "h_clusters h4 p = h_clusters h p" "wf_ptr h4 p" "wf_status h4 (h_statuses h4 s)"
    "h_next h \<le> s" "s < h_next h4"
    "\<exists>B \<subseteq> sl_array ` set_option (Conditions (Status (h_clusters h p))). keeps_below (h_next h) B h h4"
proof -
  let ?c = "(ready_condition cs)\<lparr>cond_Status := ready_status g m (Spec (h_clusters h p))\<rparr>"
    and ?n = "h_next h" and ?st = "Status (h_clusters h p)"
  have u: "u = update_conditions now cs ?c" by (simp add: u_def cs_def ready_update_def)
  have p: "p < ?n" using wf by (simp add: wf_ptr_def)
  from set_ready_start [OF wf run] obtain h3 cp B where
    upd: "UpdateClusterCondition now h3 (StatusCell s) cp = (h4, updated)"
    and w3: "wf_status h3 (h_statuses h3 s)" and c3: "conditions_of h3 (h_statuses h3 s) = cs"
    and l3: "load_cond h3 cp = ?c" and v3: "cond_valid h3 cp" and sep: "separate h3 (StatusCell s) cp"
    and k3: "keeps_below ?n B h h3" and s: "?n \<le> s" "s < h_next h3"
    and sl3: "\<And>sl. Conditions (h_statuses h3 s) = Some sl \<Longrightarrow> ?n \<le> sl_array sl"
    and alt: "(\<exists>a \<ge> ?n. cp = CondCell a \<and> B = {} \<and> condition_of cs BrokerClusterReady = None) \<or>
     (\<exists>sl i. Conditions ?st = Some sl \<and> cp = CondElem (sl_array sl) i \<and> B = {sl_array sl} \<and>
        find_index (\<lambda>c. cond_Type c = BrokerClusterReady) (slice_val h sl) = Some i \<and>
        h_arrays h3 (sl_array sl) = (h_arrays h (sl_array sl))[i := ?c])"
    unfolding cs_def by blast
  have cpk: "keeps_below ?n B h' (store_cond h' cp c)" for h' c
    using alt keeps_below_store by auto
  note keeps = UpdateClusterCondition_keeps [OF upd w3 s v3 sep sl3 cpk]
  have k4: "keeps_below ?n B h h4" by (rule keeps_below_trans [OF k3 keeps(1)])
  note refines = UpdateClusterCondition_refines [OF upd _ v3 sep]
  show upd_list: "conditions_of h4 (h_statuses h4 s) = fst u" "updated = snd u"
    using refines w3 c3 l3 by (simp_all add: u)
  show cl: "h_clusters h4 p = h_clusters h p" using k4 p by (simp add: keeps_below_def)
  show "wf_status h4 (h_statuses h4 s)" "s < h_next h4" using keeps by auto
  show "?n \<le> s" by (rule s(1))
  have B: "B \<subseteq> sl_array ` set_option (Conditions ?st)" using alt by auto
  with k4 show "\<exists>B \<subseteq> sl_array ` set_option (Conditions (Status (h_clusters h p))). keeps_below ?n B h h4"
    by blast
  have arrays: "length (h_arrays h4 (sl_array sl)) = length (h_arrays h (sl_array sl)) \<and>
      slice_val h4 sl = (if condition_of cs BrokerClusterReady = None then cs else fst u)"
    if sl: "Conditions ?st = Some sl" for sl
  proof -
    have an: "sl_array sl < ?n" using wf_ptr_status [OF wf] sl by (auto simp: wf_status_def refs_defs)
    have cs: "cs = slice_val h sl" using sl by (simp add: cs_def cluster_conditions_def conditions_of_def)
    from alt show ?thesis
    proof (elim disjE exE conjE)
      fix a assume "B = {}" "condition_of cs BrokerClusterReady = None"
      then show ?thesis using k4 an cs by (simp add: keeps_below_def same_cells_def slice_val_def)
    next
      fix sl2 i assume "Conditions ?st = Some sl2" and cp: "cp = CondElem (sl_array sl2) i"
        and ix: "find_index (\<lambda>c. cond_Type c = BrokerClusterReady) (slice_val h sl2) = Some i"
        and arr: "h_arrays h3 (sl_array sl2) = (h_arrays h (sl_array sl2))[i := ?c]"
      then have eq: "sl2 = sl" using sl by simp
      from ix have some: "condition_of cs BrokerClusterReady \<noteq> None"
        by (simp add: condition_of_def find_index_find cs eq)
      have i: "i < sl_len sl" using find_index_bound [OF ix] by (simp add: eq slice_val_def)
      obtain sl3 where sl3': "Conditions (h_statuses h3 s) = Some sl3" "slice_val h3 sl3 = cs"
        using c3 ix by (auto simp: conditions_of_def cs eq split: option.splits)
      have ne: "sl_array sl3 \<noteq> sl_array sl" using sl3 [OF sl3'(1)] an by simp
      have ix3: "find_index (\<lambda>c. cond_Type c = cond_Type (load_cond h3 cp)) (slice_val h3 sl3) = Some i"
        using ix by (simp add: sl3'(2) cs eq l3)
      let ?t = "touched now (cs ! i) ?c"
      have h4: "h4 = store_cond (store_cond h3 cp ?t) (CondElem (sl_array sl3) i) ?t"
        using UpdateClusterCondition_found [OF sep v3 _ ix3, of now] sl3' upd by (simp add: l3)
      have "h_arrays h4 (sl_array sl) = (h_arrays h (sl_array sl))[i := ?t]"
        using ne arr by (simp add: h4 cp eq)
      moreover have "fst u = cs[i := ?t]"
        using ix by (simp add: u update_conditions_def cs eq)
      moreover have "slice_val h4 sl = take (sl_len sl) ((h_arrays h (sl_array sl))[i := ?t])"
        using calculation(1) by (simp add: slice_val_def)
      moreover have "take (sl_len sl) ((h_arrays h (sl_array sl))[i := ?t]) = cs[i := ?t]"
        using i unfolding cs slice_val_def by (simp add: take_update_swap)
      ultimately show ?thesis using some by auto
    qed
  qed
  show "cluster_conditions h4 p = (if condition_of cs BrokerClusterReady = None then cs else fst u)"
    using arrays cl by (cases "Conditions ?st")
      (auto simp: cluster_conditions_def conditions_of_def cs_def condition_of_def)
  have "h_next h \<le> h_next h4" using k4 by (simp add: keeps_below_def)
  then show "wf_ptr h4 p"
    using wf cl arrays by (cases "Conditions ?st")
      (auto simp: wf_ptr_def wf_cluster_def slice_ok_def intro: less_le_trans)
qed

section \<open>Properties of the update\<close>

definition status_conditions :: "status_val \<Rightarrow> BrokerClusterCondition list" where
  "status_conditions v = (case Conditions v of None \<Rightarrow> [] | Some cs \<Rightarrow> cs)"

lemma conditions_of_status: "conditions_of h s = status_conditions (status_val_of h s)"
  by (simp add: conditions_of_val status_conditions_def)

lemma cluster_conditions_at: "cluster_conditions h p = status_conditions (Status (cluster_at h p))"
  by (simp add: cluster_conditions_def conditions_of_status cluster_at_def)

lemma condition_of_ready_update:
  "condition_of (fst (ready_update now st cs)) BrokerClusterReady =
     Some (case condition_of cs BrokerClusterReady of
        None \<Rightarrow> (ready_condition cs)\<lparr>cond_Status := st, LastTransitionTime := now\<rparr>
      | Some old \<Rightarrow> touched now old (old\<lparr>cond_Status := st\<rparr>))"
proof (cases "find_index (\<lambda>c. cond_Type c = BrokerClusterReady) cs")
  case None
  then have "condition_of cs BrokerClusterReady = None" by (simp add: condition_of_def find_index_find)
  with None show ?thesis by (simp add: ready_update_def update_conditions_def condition_of_append)
next
  case (Some i)
  then have old: "condition_of cs BrokerClusterReady = Some (cs ! i)"
    by (simp add: condition_of_def find_index_find)
  then have rc: "ready_condition cs = cs ! i" by (simp add: ready_condition_def)
  let ?t = "touched now (cs ! i) ((cs ! i)\<lparr>cond_Status := st\<rparr>)"
  have ty: "cond_Type (cs ! i) = BrokerClusterReady" using find_index_holds [OF Some] .
  then have "find_index (\<lambda>o'. cond_Type o' = cond_Type ?t) cs = Some i" using Some by simp
  from condition_of_update [OF this, of BrokerClusterReady] show ?thesis
    using Some old rc ty by (simp add: ready_update_def update_conditions_def)
qed

text \<open>Setting the same status again changes nothing, at whatever time.\<close>

lemma ready_update_unchanged:
  assumes "condition_of cs BrokerClusterReady = Some c" "cond_Status c = st"
  shows "ready_update now st cs = (cs, False)"
proof -
  obtain i where ix: "find_index (\<lambda>c. cond_Type c = BrokerClusterReady) cs = Some i" "c = cs ! i"
    using assms(1) by (auto simp: condition_of_def find_index_find)
  have rc: "ready_condition cs = c" using assms(1) by (simp add: ready_condition_def)
  have "touched now c (c\<lparr>cond_Status := st\<rparr>) = c"
    using assms(2) by (simp add: touched_def)
  then show ?thesis
    using ix find_index_holds [OF ix(1)] by (simp add: ready_update_def update_conditions_def rc)
qed

lemma ready_update_again:
  "ready_update later st (fst (ready_update now st cs)) = (fst (ready_update now st cs), False)"
  by (rule ready_update_unchanged [OF condition_of_ready_update])
     (auto simp: touched_def split: option.split)

lemma ready_update_changed:
  "snd (ready_update now st cs) \<longleftrightarrow>
     (case condition_of cs BrokerClusterReady of None \<Rightarrow> True | Some c \<Rightarrow>
        cond_Status c \<noteq> st)"
proof (cases "find_index (\<lambda>c. cond_Type c = BrokerClusterReady) cs")
  case None
  then have "condition_of cs BrokerClusterReady = None" by (simp add: condition_of_def find_index_find)
  with None show ?thesis by (simp add: ready_update_def update_conditions_def)
next
  case (Some i)
  then have old: "condition_of cs BrokerClusterReady = Some (cs ! i)"
    by (simp add: condition_of_def find_index_find)
  then have rc: "ready_condition cs = cs ! i" by (simp add: ready_condition_def)
  have ty: "cond_Type (cs ! i) = BrokerClusterReady" using find_index_holds [OF Some] .
  show ?thesis
  proof (cases "cond_Status (cs ! i) = st")
    case True
    with ready_update_unchanged [OF old True] old show ?thesis by simp
  next
    case False
    then have "touched now (cs ! i) ((cs ! i)\<lparr>cond_Status := st\<rparr>) \<noteq> cs ! i"
      by (metis touched_status BrokerClusterCondition.select_convs(2) BrokerClusterCondition.surjective
          BrokerClusterCondition.update_convs(2))
    with False Some old show ?thesis by (simp add: ready_update_def update_conditions_def rc ty)
  qed
qed

text \<open>
  C17: Setting the Ready condition from the counters. The copied status gets exactly the
  cluster's conditions with Ready set to True when all groups and all members are ready and
  to False otherwise, and is reported as changed exactly when the cluster had no Ready
  condition or one with the other status. The cached cluster itself is changed as well: a
  Ready condition it already had is overwritten in place, before anything is sent; only
  when it had none is it left as it was.
\<close>

theorem set_ready_condition_spec:
  assumes wf: "wf_ptr h p" and run: "set_ready_condition now p g m h = (h', s, updated)"
  defines "cs \<equiv> cluster_conditions h p" and "st \<equiv> ready_status g m (Spec (h_clusters h p))"
  shows "conditions_of h' (h_statuses h' s) = fst (ready_update now st cs) \<and>
    (updated \<longleftrightarrow> (case condition_of cs BrokerClusterReady of None \<Rightarrow> True | Some c \<Rightarrow> cond_Status c \<noteq> st)) \<and>
    cluster_conditions h' p =
      (if condition_of cs BrokerClusterReady = None then cs else fst (ready_update now st cs)) \<and>
    (\<exists>c. condition_of (conditions_of h' (h_statuses h' s)) BrokerClusterReady = Some c \<and> cond_Status c = st)"
  using set_ready_condition_effect [OF wf run]
  by (auto simp: cs_def st_def ready_update_changed condition_of_ready_update touched_def split: option.splits)

theorem set_ready_condition_spec_witness:
  "cluster_conditions (fst (set_ready_condition 9 0 2 4 sample_heap)) 0 =
     [sample_condition\<lparr>cond_Status := ConditionTrue, LastTransitionTime := 9\<rparr>]"
proof -
  obtain h' s u where run: "set_ready_condition 9 0 2 4 sample_heap = (h', s, u)" by (metis surj_pair)
  have "cluster_conditions sample_heap 0 = [sample_condition]"
    by (simp add: cluster_conditions_def conditions_of_def sample_heap_def sample_obj_def slice_val_def)
  moreover have "ready_status 2 4 (Spec (h_clusters sample_heap 0)) = ConditionTrue"
    by (simp add: ready_status_def sample_heap_def sample_obj_def)
  ultimately show ?thesis
    using set_ready_condition_spec [OF sample_wf run]
    by (simp add: run condition_of_def sample_condition_def ready_update_def ready_condition_def
        update_conditions_def touched_def)
qed

end
