(* ===== verification/Controller.thy ===== *)
theory Controller
  imports Sync_Loops Ready_Condition
begin

text \<open>
  \<open>BrokerController.syncHandler\<close> and \<open>updateClusterStatus\<close> (\<open>controller.go\<close>): one
  reconciliation of one cluster, from a queue key to the status update and the event.

  The handler works on the pointer the lister returns, so the defaults, the member count of
  an all-master cluster and the Ready condition are written into the informer's cache. An
  \<open>outcome\<close> is what the call does: return an error or nil, or panic.
\<close>

section \<open>The status update\<close>

definition updateClusterStatus :: "'w client \<Rightarrow> addr \<Rightarrow> int \<Rightarrow> int \<Rightarrow> 'w world
    \<Rightarrow> 'w world \<times> go_error option" where
  "updateClusterStatus cl p readyGroups readyMembers w =
     (case set_ready_condition (cl_Now cl (w_env w)) p readyGroups readyMembers (w_heap w) of
        (h4, status, updated) \<Rightarrow>
          (if updated
           then (case BrokerCluster_DeepCopy h4 (Some p) of
                   (h5, q) \<Rightarrow>
                     (case UpdateClusterStatus cl (the q) status (w\<lparr>w_heap := h5\<rparr>) of
                        ((w', _), err) \<Rightarrow> (w', err)))
           else (w\<lparr>w_heap := h4\<rparr>, None)))"

section \<open>The handler\<close>

datatype outcome = Returned "go_error option" | Panicked

text \<open>\<open>if cluster.Spec.AllMaster { cluster.Spec.MembersPerGroup = 1 }\<close>\<close>

definition force_single_member :: "addr \<Rightarrow> heap \<Rightarrow> heap" where
  "force_single_member p h =
     (let c = h_clusters h p in
      if AllMaster (Spec c)
      then h\<lparr>h_clusters := (h_clusters h)(p := c\<lparr>Spec := (Spec c)\<lparr>MembersPerGroup := 1\<rparr>\<rparr>)\<rparr>
      else h)"

definition sync_cluster :: "'w client \<Rightarrow> addr \<Rightarrow> 'w world \<Rightarrow> 'w world \<times> outcome" where
  "sync_cluster cl p w =
     (let w1 = w\<lparr>w_heap := EnsureDefaults (w_heap w) p\<rparr>;
          groupReplica = sint (GroupReplica (Spec (h_clusters (w_heap w1) p)))
      in case sync_services cl p groupReplica w1 of
           (w2, Return err) \<Rightarrow> (w2, Returned err)
         | (w2, Panic) \<Rightarrow> (w2, Panicked)
         | (w2, Continue _) \<Rightarrow>
             (let membersPerGroup = sint (MembersPerGroup (Spec (h_clusters (w_heap w2) p))) in
              if membersPerGroup = 0
              then (HandleError (MessageError ''invalid membersPerGroup %!s(int=0)'') w2, Returned None)
              else
                (let w3 = w2\<lparr>w_heap := force_single_member p (w_heap w2)\<rparr> in
                 case sync_statefulsets cl p groupReplica w3 of
                   (w4, Return err) \<Rightarrow> (w4, Returned err)
                 | (w4, Panic) \<Rightarrow> (w4, Panicked)
                 | (w4, Continue (readyGroups, readyMembers)) \<Rightarrow>
                     (case updateClusterStatus cl p readyGroups readyMembers w4 of
                        (w5, Some err) \<Rightarrow> (w5, Returned (Some err))
                      | (w5, None) \<Rightarrow>
                          (record_event (cluster_at (w_heap w5) p) EventTypeNormal SuccessSynced
                             MessageResourceSynced w5,
                           Returned None)))))"

definition syncHandler :: "'w client \<Rightarrow> string \<Rightarrow> 'w world \<Rightarrow> 'w world \<times> outcome" where
  "syncHandler cl key w =
     (case SplitMetaNamespaceKey key of
        Inl _ \<Rightarrow> (HandleError (MessageError (''invalid resource key: '' @ key)) w, Returned None)
      | Inr (namespace, name) \<Rightarrow>
          (case BrokerClusters_Get (w_clusters w) namespace name of
             Inl err \<Rightarrow>
               (if IsNotFound (Some err)
                then (HandleError (MessageError (''brokercluster '' @ CHR 0x27 # key @ CHR 0x27 #
                          '' in work queue no longer exists'')) w,
                      Returned None)
                else (w, Returned (Some err)))
           | Inr p \<Rightarrow> sync_cluster cl p w))"

section \<open>What the status update sends and leaves\<close>

text \<open>
  While a retry sleeps, the other goroutines leave the worker's private status struct and
  the cached cluster \<open>p\<close> alone: the queue gives a key to one worker at a time, and informers
  replace cached objects without writing into them.
\<close>

definition quiet_for :: "'w client \<Rightarrow> addr \<Rightarrow> bool" where
  "quiet_for cl p \<longleftrightarrow> no_wait_timeout cl \<and> (\<forall>s v x. quiet_sleep cl (status_inv s v p x))"

lemma quiet_for_samples: "quiet_for accepting_client p" "quiet_for refusing_client p"
  by (simp_all add: quiet_for_def sample_client_env)

lemma UpdateClusterStatus_run:
  assumes run: "UpdateClusterStatus cl q s w = ((w', q'), err)" and quiet: "quiet_for cl p"
    and start: "status_inv s v p x (w, q)"
  shows "\<exists>t. w_trace w' = w_trace w @ t \<and> retried (wanted_status v) t err"
    and "wf_ptr (w_heap w') p" "cluster_at (w_heap w') p = x"
proof -
  have sleep: "status_inv s v p x ((\<lambda>(w, p). (cl_Sleep cl w, p)) st) \<and>
      (case (\<lambda>(w, p). (cl_Sleep cl w, p)) st of (w, p) \<Rightarrow> w_trace w) = (case st of (w, p) \<Rightarrow> w_trace w)"
    if "status_inv s v p x st" for st
    using that quiet by (cases st) (auto simp: quiet_for_def quiet_sleep_def)
  have no_timeout: "snd (update_status_attempt cl s st) \<noteq> Some ErrWaitTimeout" for st
    by (rule attempt_not_timeout(1)) (use quiet in \<open>simp add: quiet_for_def\<close>)
  note runs = status_closure.run_retried [OF run [unfolded UpdateClusterStatus_def] start sleep no_timeout]
  show "\<exists>t. w_trace w' = w_trace w @ t \<and> retried (wanted_status v) t err"
    "wf_ptr (w_heap w') p" "cluster_at (w_heap w') p = x"
    using runs by (simp_all add: status_inv_def Let_def)
qed

lemma set_ready_condition_parts:
  assumes wf: "wf_ptr h p" and set: "set_ready_condition now p g m h = (h4, s, updated)"
  shows "Spec (cluster_at h4 p) = Spec (cluster_at h p)" "bc_ObjectMeta (cluster_at h4 p) = bc_ObjectMeta (cluster_at h p)"
proof -
  note eff = set_ready_condition_effect [OF wf set]
  obtain B where k: "keeps_below (h_next h) B h h4" using eff(9) by blast
  have "map_option (h_maps h4) x = map_option (h_maps h) x" "map_option (h_blobs h4) x = map_option (h_blobs h) x"
    if "set_option x \<subseteq> cluster_refs (h_clusters h p)" for x
    using that k wf by (cases x; force simp: keeps_below_def wf_ptr_def wf_cluster_def)+
  then show "Spec (cluster_at h4 p) = Spec (cluster_at h p)"
    "bc_ObjectMeta (cluster_at h4 p) = bc_ObjectMeta (cluster_at h p)"
    by (simp_all add: cluster_at_def eff(4) spec_val_of_def spec_map_def meta_val_of_def meta_map_def
        cluster_refs_def spec_refs_def meta_refs_def le_supI1 le_supI2)
qed

text \<open>
  The copy sent and the cached cluster after the update, in terms of \<open>ready_update\<close>; \<open>u\<close> is
  the new list of conditions and whether it differs.
\<close>

lemma updateClusterStatus_run:
  assumes run: "updateClusterStatus cl p g m w = (w', err)" and wf: "wf_ptr (w_heap w) p"
    and quiet: "quiet_for cl p"
  defines "cs \<equiv> cluster_conditions (w_heap w) p"
  defines "u \<equiv> ready_update (cl_Now cl (w_env w)) (ready_status g m (Spec (h_clusters (w_heap w) p))) cs"
  shows "if snd u
      then \<exists>t v. w_trace w' = w_trace w @ t \<and> retried (wanted_status v) t err \<and> status_conditions v = fst u
      else w_trace w' = w_trace w \<and> err = None"
    and "wf_ptr (w_heap w') p"
    and "cluster_conditions (w_heap w') p = (if condition_of cs BrokerClusterReady = None then cs else fst u)"
    and "Spec (cluster_at (w_heap w') p) = Spec (cluster_at (w_heap w) p)"
    and "bc_ObjectMeta (cluster_at (w_heap w') p) = bc_ObjectMeta (cluster_at (w_heap w) p)"
proof -
  let ?h = "w_heap w"
  obtain h4 s updated where set: "set_ready_condition (cl_Now cl (w_env w)) p g m ?h = (h4, s, updated)"
    by (metis surj_pair)
  note eff = set_ready_condition_effect [OF wf set, folded cs_def, folded u_def]
  note parts = set_ready_condition_parts [OF wf set]
  have result: "(if snd u
      then \<exists>t v. w_trace w' = w_trace w @ t \<and> retried (wanted_status v) t err \<and> status_conditions v = fst u
      else w_trace w' = w_trace w \<and> err = None) \<and>
      wf_ptr (w_heap w') p \<and> cluster_at (w_heap w') p = cluster_at h4 p"
  proof (cases updated)
    case False
    with run set eff show ?thesis by (auto simp: updateClusterStatus_def)
  next
    case True
    obtain h5 r where dc: "BrokerCluster_DeepCopy h4 (Some p) = (h5, r)" by fastforce
    then obtain q where r: "r = Some q" by (auto elim: DeepCopy_Some)
    note copy = DeepCopy_ptr [OF dc [unfolded r]]
    obtain q' where ucs: "UpdateClusterStatus cl q s (w\<lparr>w_heap := h5\<rparr>) = ((w', q'), err)"
      using run set True dc r by (auto simp: updateClusterStatus_def split: prod.splits)
    have s5: "h_statuses h5 s = h_statuses h4 s" by (rule heap_le_reads(2) [OF copy(1) eff(8)])
    let ?v = "status_val_of h5 (h_statuses h5 s)"
    have v: "status_conditions ?v = fst u"
      using eff(2) status_copy.val_extends [OF copy(1) eff(6)] s5 by (simp add: conditions_of_status)
    have "status_inv s ?v p (cluster_at h4 p) (w\<lparr>w_heap := h5\<rparr>, q)"
      using eff(8) heap_le_next [OF copy(1)] status_copy.ok_extends [OF copy(1) eff(6)] s5
        wf_ptr_extends [OF copy(1) eff(5)] cluster_at_extends [OF copy(1) eff(5)] copy(2) eff(5)
      by (auto simp: status_inv_def Let_def wf_ptr_def)
    note inner = UpdateClusterStatus_run [OF ucs quiet this]
    show ?thesis using inner v True eff(1) by auto
  qed
  show "if snd u
      then \<exists>t v. w_trace w' = w_trace w @ t \<and> retried (wanted_status v) t err \<and> status_conditions v = fst u
      else w_trace w' = w_trace w \<and> err = None"
    by (rule result [THEN conjunct1])
  from result show "wf_ptr (w_heap w') p"
    and "cluster_conditions (w_heap w') p = (if condition_of cs BrokerClusterReady = None then cs else fst u)"
    and "Spec (cluster_at (w_heap w') p) = Spec (cluster_at (w_heap w) p)"
    and "bc_ObjectMeta (cluster_at (w_heap w') p) = bc_ObjectMeta (cluster_at (w_heap w) p)"
    using parts eff(3) by (simp_all add: cluster_conditions_at)
qed

text \<open>
  C13: \<open>updateClusterStatus\<close> sends nothing when the cached cluster's Ready condition already
  has the status the counters ask for. Otherwise it sends at least one and at most five
  status updates, retrying on conflicts only; each carries the cluster's conditions with
  Ready set, and its result is that of the last one. What remains in the cache is the
  changed list of conditions, whether or not an update succeeded, unless the cluster had
  no Ready condition before.
\<close>

theorem updateClusterStatus_spec:
  assumes run: "updateClusterStatus cl p g m w = (w', err)" and wf: "wf_ptr (w_heap w) p"
    and quiet: "quiet_for cl p"
  defines "cs \<equiv> cluster_conditions (w_heap w) p"
    and "st \<equiv> ready_status g m (Spec (h_clusters (w_heap w) p))"
  shows "(if (\<exists>c. condition_of cs BrokerClusterReady = Some c \<and> cond_Status c = st)
      then w_trace w' = w_trace w \<and> err = None
      else \<exists>t v. w_trace w' = w_trace w @ t \<and> retried (wanted_status v) t err \<and>
             status_conditions v = fst (ready_update (cl_Now cl (w_env w)) st cs)) \<and>
    cluster_conditions (w_heap w') p =
      (if condition_of cs BrokerClusterReady = None then cs
       else fst (ready_update (cl_Now cl (w_env w)) st cs))"
proof -
  note parts = updateClusterStatus_run [OF run wf quiet, folded cs_def st_def]
  have "(\<exists>c. condition_of cs BrokerClusterReady = Some c \<and> cond_Status c = st) \<longleftrightarrow>
      \<not> snd (ready_update (cl_Now cl (w_env w)) st cs)"
    by (simp add: ready_update_changed split: option.split)
  then show ?thesis using parts(1,3) by (auto split: if_splits)
qed

lemma refusing_attempt: "snd (update_status_attempt refusing_client s st) \<noteq> None"
proof -
  obtain w p where st: "st = (w, p)" by fastforce
  have up: "\<exists>w2 e. BrokerClusters_Update refusing_client ns p w = (w2, Inl e)" for ns p w
    by (simp add: BrokerClusters_Update_def call_api_def refusing_client_def)
  have rel: "snd (reload_cluster p e w2) \<noteq> None" for p e w2
    using reload_cluster_parts(4) [of p e w2] by (cases "reload_cluster p e w2") fastforce
  define w1 where "w1 = w\<lparr>w_heap := store_status (w_heap w) (StatusOf p) (h_statuses (w_heap w) s)\<rparr>"
  obtain w2 e where "BrokerClusters_Update refusing_client
      (om_Namespace (bc_ObjectMeta (h_clusters (w_heap w1) p))) p w1 = (w2, Inl e)" using up by blast
  then show ?thesis using rel by (simp add: st update_status_attempt_def Let_def w1_def)
qed

lemma refusing_update: "snd (UpdateClusterStatus refusing_client q s w) \<noteq> None"
proof -
  obtain w' q' err where run: "UpdateClusterStatus refusing_client q s w = ((w', q'), err)"
    by (metis prod.collapse)
  obtain k where "err = attempt (update_status_attempt refusing_client s)
      (\<lambda>(w, p). (cl_Sleep refusing_client w, p)) (w, q) k"
    using RetryOnConflict_run [OF run [unfolded UpdateClusterStatus_def] _
        attempt_not_timeout(1) [OF sample_client_env(3)]]
    by (auto simp: DefaultRetry_Steps_def)
  then show ?thesis using refusing_attempt by (simp add: run attempt_def)
qed

lemma refused_status_update:
  "\<exists>w' e. updateClusterStatus refusing_client 0 2 4 sample_world = (w', Some e)"
proof -
  obtain h' s u where run: "set_ready_condition 100 0 2 4 sample_heap = (h', s, u)" by (metis surj_pair)
  have "cluster_conditions sample_heap 0 = [sample_condition]"
    by (simp add: cluster_conditions_def conditions_of_def sample_heap_def sample_obj_def slice_val_def)
  moreover have "ready_status 2 4 (Spec (h_clusters sample_heap 0)) = ConditionTrue"
    by (simp add: ready_status_def sample_heap_def sample_obj_def)
  ultimately have u: "u"
    using set_ready_condition_effect(1) [OF sample_wf run]
    by (simp add: ready_update_changed condition_of_def sample_condition_def)
  obtain h5 q where dc: "BrokerCluster_DeepCopy h' (Some 0) = (h5, q)" by fastforce
  obtain w' q' err where ucs: "UpdateClusterStatus refusing_client (the q) s (sample_world\<lparr>w_heap := h5\<rparr>) =
      ((w', q'), err)" by (metis prod.collapse)
  have "err \<noteq> None" using refusing_update [of "the q" s "sample_world\<lparr>w_heap := h5\<rparr>"] ucs by simp
  moreover have "cl_Now refusing_client 100 = 100" by (simp add: refusing_client_def accepting_client_def)
  ultimately show ?thesis using run u dc ucs by (auto simp: updateClusterStatus_def)
qed

theorem updateClusterStatus_spec_witness:
  "cluster_conditions (w_heap (fst (updateClusterStatus refusing_client 0 2 4 sample_world))) 0 =
     [sample_condition\<lparr>cond_Status := ConditionTrue, LastTransitionTime := 100\<rparr>]"
proof -
  obtain w' e where run: "updateClusterStatus refusing_client 0 2 4 sample_world = (w', e)" by fastforce
  have "cluster_conditions sample_heap 0 = [sample_condition]"
    by (simp add: cluster_conditions_def conditions_of_def sample_heap_def sample_obj_def slice_val_def)
  moreover have "ready_status 2 4 (Spec (h_clusters sample_heap 0)) = ConditionTrue"
    by (simp add: ready_status_def sample_heap_def sample_obj_def)
  moreover have "cl_Now refusing_client 100 = 100" by (simp add: refusing_client_def accepting_client_def)
  ultimately show ?thesis
    using updateClusterStatus_spec [OF run _ quiet_for_samples(2)] sample_wf
    by (simp add: run condition_of_def sample_condition_def ready_update_def ready_condition_def
        update_conditions_def touched_def)
qed

text \<open>
  C12: A status update that failed is lost. When the cluster had a Ready condition and
  \<open>updateClusterStatus\<close> returned an error, so that the item is to be processed again, the
  next call with the same counters sends nothing and reports success: the cached condition,
  which the new one is compared with, was already overwritten by the failed call.
\<close>

theorem lost_status_update:
  assumes first: "updateClusterStatus cl p g m w = (w1, Some e)" and wf: "wf_ptr (w_heap w) p"
    and quiet: "quiet_for cl p"
    and had: "condition_of (cluster_conditions (w_heap w) p) BrokerClusterReady = Some c"
    and second: "updateClusterStatus cl p g m w1 = (w2, r)"
  shows "r = None \<and> w_trace w2 = w_trace w1"
proof -
  let ?st = "ready_status g m (Spec (h_clusters (w_heap w) p))"
  note run1 = updateClusterStatus_run [OF first wf quiet]
  note run2 = updateClusterStatus_run [OF second run1(2) quiet]
  have "ready_status g m (Spec (h_clusters (w_heap w1) p)) = ?st"
    using arg_cong [OF run1(4), of GroupReplica] arg_cong [OF run1(4), of MembersPerGroup]
    by (simp add: ready_status_def cluster_at_def)
  moreover have "cluster_conditions (w_heap w1) p =
      fst (ready_update (cl_Now cl (w_env w)) ?st (cluster_conditions (w_heap w) p))"
    using run1(3) had by simp
  ultimately show ?thesis using run2(1) by (simp add: ready_update_again)
qed

theorem lost_status_update_witness:
  "\<exists>w1 e. updateClusterStatus refusing_client 0 2 4 sample_world = (w1, Some e) \<and>
     snd (updateClusterStatus refusing_client 0 2 4 w1) = None"
proof -
  obtain w1 e where first: "updateClusterStatus refusing_client 0 2 4 sample_world = (w1, Some e)"
    using refused_status_update by blast
  obtain w2 r where second: "updateClusterStatus refusing_client 0 2 4 w1 = (w2, r)" by fastforce
  have wf: "wf_ptr (w_heap sample_world) 0" using sample_wf by simp
  have had: "condition_of (cluster_conditions (w_heap sample_world) 0) BrokerClusterReady =
      Some sample_condition"
    by (simp add: cluster_conditions_def conditions_of_def sample_heap_def sample_obj_def slice_val_def
        condition_of_def sample_condition_def)
  show ?thesis
    using lost_status_update [OF first wf quiet_for_samples(2) had second] first second by simp
qed

end
