(* ===== verification/Reconcile.thy ===== *)
theory Reconcile
  imports Controller
begin

text \<open>
  What one run of \<open>syncHandler\<close> achieves and what it may touch.

  The specification is by group: \<open>service_present\<close> and \<open>ss_present\<close> (from the loops) say
  that a group has its service and its stateful set of the right size, in the lister or by
  a successful call of this run; \<open>service_allowed\<close>, \<open>ss_allowed\<close> and \<open>wanted_status\<close> say
  which calls a run may make. \<open>sync_cluster_cases\<close> is the one case analysis of the handler
  all properties below use.
\<close>

section \<open>The handler, case by case\<close>

text \<open>The world in which the service loop starts, and the one for the stateful sets.\<close>

definition defaulted_world :: "addr \<Rightarrow> 'w world \<Rightarrow> 'w world" where
  "defaulted_world p w = w\<lparr>w_heap := EnsureDefaults (w_heap w) p\<rparr>"

definition sized_world :: "addr \<Rightarrow> 'w world \<Rightarrow> 'w world" where
  "sized_world p w = w\<lparr>w_heap := force_single_member p (EnsureDefaults (w_heap w) p)\<rparr>"

definition groups :: "addr \<Rightarrow> 'w world \<Rightarrow> int" where
  "groups p w = sint (GroupReplica (Spec (cluster_at (w_heap (sized_world p w)) p)))"

lemma world_simps [simp]:
  "w_trace (defaulted_world p w) = w_trace w" "w_trace (sized_world p w) = w_trace w"
  "w_services (defaulted_world p w) = w_services w" "w_services (sized_world p w) = w_services w"
  "w_statefulsets (defaulted_world p w) = w_statefulsets w"
  "w_statefulsets (sized_world p w) = w_statefulsets w"
  "w_events (defaulted_world p w) = w_events w" "w_events (sized_world p w) = w_events w"
  "w_clusters (defaulted_world p w) = w_clusters w" "w_clusters (sized_world p w) = w_clusters w"
  "w_env (defaulted_world p w) = w_env w" "w_env (sized_world p w) = w_env w"
  "w_errors (defaulted_world p w) = w_errors w" "w_errors (sized_world p w) = w_errors w"
  "w_heap (defaulted_world p w) = EnsureDefaults (w_heap w) p"
  "w_heap (sized_world p w) = force_single_member p (EnsureDefaults (w_heap w) p)"
  by (simp_all add: defaulted_world_def sized_world_def)

lemma force_single_member_simps [simp]:
  "GroupReplica (Spec (h_clusters (force_single_member p h) p)) = GroupReplica (Spec (h_clusters h p))"
  "Status (h_clusters (force_single_member p h) q) = Status (h_clusters h q)"
  "bc_ObjectMeta (h_clusters (force_single_member p h) q) = bc_ObjectMeta (h_clusters h q)"
  "h_maps (force_single_member p h) = h_maps h" "h_arrays (force_single_member p h) = h_arrays h"
  "h_blobs (force_single_member p h) = h_blobs h" "h_next (force_single_member p h) = h_next h"
  by (simp_all add: force_single_member_def Let_def)

lemma force_single_member_wf:
  "wf_ptr h p \<Longrightarrow> wf_ptr (force_single_member p h) p"
  by (auto simp: force_single_member_def Let_def wf_ptr_def wf_cluster_def refs_defs slice_ok_def [abs_def])

lemma defaults_set_members:
  "MembersPerGroup (Spec (h_clusters (EnsureDefaults h p) p)) \<noteq> 0"
  "GroupReplica (Spec (h_clusters (EnsureDefaults h p) p)) \<noteq> 0"
  by (simp_all add: EnsureDefaults_struct)

lemma groups_alt:
  "groups p w = sint (GroupReplica (Spec (h_clusters (EnsureDefaults (w_heap w) p) p)))"
  by (simp add: groups_def cluster_at_def)

lemma sync_services_result:
  assumes run: "sync_services cl p n w = (w', r)"
  shows "r = Continue () \<or> (\<exists>e. r = Return (Some e))"
proof (cases "\<exists>a. r = Continue a")
  case True
  then show ?thesis by simp
next
  case False
  obtain i a1 w1 where "sync_service cl p i a1 w1 = (w', r)"
    using service_body.loop_stop [OF run [unfolded sync_services_def] False] .
  then show ?thesis by (rule sync_service_cases) (auto split: option.splits)
qed

lemma sync_statefulsets_result:
  assumes run: "sync_statefulsets cl p n w = (w', r)"
  shows "(\<exists>gm. r = Continue gm) \<or> (\<exists>e. r = Return (Some e)) \<or> r = Panic"
proof (cases "\<exists>a. r = Continue a")
  case True
  then show ?thesis by simp
next
  case False
  obtain i a1 w1 where "sync_statefulset cl p i a1 w1 = (w', r)"
    using ss_body.loop_stop [OF run [unfolded sync_statefulsets_def] False] .
  then show ?thesis by (rule sync_ss_cases) (auto split: option.splits)
qed

lemma same_store_sized:
  assumes "same_store (defaulted_world p w) w2"
  shows "same_store (sized_world p w) (w2\<lparr>w_heap := force_single_member p (w_heap w2)\<rparr>)"
  using assms by (simp add: same_store_def)

text \<open>
  The ways through the handler for a cluster. The branch for a zero member count is not
  among them: the defaults have set it.
\<close>

lemma sync_cluster_cases:
  assumes run: "sync_cluster cl p w = (w', out)"
  obtains (services_stop) e where
      "sync_services cl p (groups p w) (defaulted_world p w) = (w', Return (Some e))"
      "out = Returned (Some e)"
  | (ss_stop) w2 w3 e where
      "sync_services cl p (groups p w) (defaulted_world p w) = (w2, Continue ())"
      "w3 = w2\<lparr>w_heap := force_single_member p (w_heap w2)\<rparr>" "same_store (sized_world p w) w3"
      "sync_statefulsets cl p (groups p w) w3 = (w', Return (Some e))" "out = Returned (Some e)"
  | (ss_panic) w2 w3 where
      "sync_services cl p (groups p w) (defaulted_world p w) = (w2, Continue ())"
      "w3 = w2\<lparr>w_heap := force_single_member p (w_heap w2)\<rparr>" "same_store (sized_world p w) w3"
      "sync_statefulsets cl p (groups p w) w3 = (w', Panic)" "out = Panicked"
  | (status_stop) w2 w3 w4 g m e where
      "sync_services cl p (groups p w) (defaulted_world p w) = (w2, Continue ())"
      "w3 = w2\<lparr>w_heap := force_single_member p (w_heap w2)\<rparr>" "same_store (sized_world p w) w3"
      "sync_statefulsets cl p (groups p w) w3 = (w4, Continue (g, m))"
      "updateClusterStatus cl p g m w4 = (w', Some e)" "out = Returned (Some e)"
  | (success) w2 w3 w4 w5 g m where
      "sync_services cl p (groups p w) (defaulted_world p w) = (w2, Continue ())"
      "w3 = w2\<lparr>w_heap := force_single_member p (w_heap w2)\<rparr>" "same_store (sized_world p w) w3"
      "sync_statefulsets cl p (groups p w) w3 = (w4, Continue (g, m))"
      "updateClusterStatus cl p g m w4 = (w5, None)"
      "w' = record_event (cluster_at (w_heap w5) p) EventTypeNormal SuccessSynced MessageResourceSynced w5"
      "out = Returned None"
proof -
  obtain w2 r2 where services: "sync_services cl p (groups p w) (defaulted_world p w) = (w2, r2)"
    by fastforce
  have st2: "same_store (defaulted_world p w) w2"
    using service_body.loop_store services unfolding sync_services_def by blast
  then have heap2: "w_heap w2 = EnsureDefaults (w_heap w) p" by (simp add: same_store_def)
  consider e where "r2 = Return (Some e)" | "r2 = Continue ()"
    using sync_services_result [OF services] by blast
  then show thesis
  proof cases
    case (1 e)
    then show ?thesis using services_stop [of e] services run
      by (simp add: sync_cluster_def Let_def groups_alt defaulted_world_def)
  next
    case 2
    define w3 where "w3 = w2\<lparr>w_heap := force_single_member p (w_heap w2)\<rparr>"
    have st3: "same_store (sized_world p w) w3"
      unfolding w3_def by (rule same_store_sized [OF st2])
    obtain w4 r4 where ss: "sync_statefulsets cl p (groups p w) w3 = (w4, r4)" by fastforce
    have rest: "sync_cluster cl p w = (case sync_statefulsets cl p (groups p w) w3 of
          (w4, Return err) \<Rightarrow> (w4, Returned err)
        | (w4, Panic) \<Rightarrow> (w4, Panicked)
        | (w4, Continue (readyGroups, readyMembers)) \<Rightarrow>
            (case updateClusterStatus cl p readyGroups readyMembers w4 of
               (w5, Some err) \<Rightarrow> (w5, Returned (Some err))
             | (w5, None) \<Rightarrow>
                 (record_event (cluster_at (w_heap w5) p) EventTypeNormal SuccessSynced
                    MessageResourceSynced w5, Returned None)))"
      using services 2 defaults_set_members(1) [of "w_heap w" p]
      by (simp add: sync_cluster_def Let_def groups_alt defaulted_world_def heap2 w3_def)
    consider g m where "r4 = Continue (g, m)" | e where "r4 = Return (Some e)" | "r4 = Panic"
      using sync_statefulsets_result [OF ss] by fastforce
    then show ?thesis
    proof cases
      case (1 g m)
      obtain w5 x where up: "updateClusterStatus cl p g m w4 = (w5, x)" by fastforce
      show ?thesis
      proof (cases x)
        case None
        with up 1 ss rest run show ?thesis
          using success [OF services [unfolded 2] w3_def st3, of w4 g m w5] by simp
      next
        case (Some e)
        with up 1 ss rest run show ?thesis
          using status_stop [OF services [unfolded 2] w3_def st3, of w4 g m e] by simp
      qed
    next
      case (2 e)
      with ss rest run show ?thesis
        using ss_stop [OF services [unfolded \<open>r2 = Continue ()\<close>] w3_def st3, of e] by simp
    next
      case 3
      with ss rest run show ?thesis
        using ss_panic [OF services [unfolded 2] w3_def st3] by simp
    qed
  qed
qed

section \<open>Calls of a run\<close>

lemma services_run:
  assumes "sync_services cl p n w = (w', r)"
  shows "same_store w w'"
    and "\<exists>t. w_trace w' = w_trace w @ t \<and> (\<forall>(c, e) \<in> set t. \<exists>i. 0 \<le> i \<and> i < n \<and> service_allowed p i w c) \<and>
      (r = Continue () \<longrightarrow> (\<forall>i. 0 \<le> i \<and> i < n \<longrightarrow> service_present p i w (set t)))"
  using service_body.loop_store service_body.loop_calls assms unfolding sync_services_def
  by (blast, fastforce)

lemma statefulsets_run:
  assumes "sync_statefulsets cl p n w = (w', r)"
  shows "same_store w w'"
    and "\<exists>t. w_trace w' = w_trace w @ t \<and> (\<forall>(c, e) \<in> set t. \<exists>i. 0 \<le> i \<and> i < n \<and> ss_allowed cl p i w c) \<and>
      ((\<exists>gm. r = Continue gm) \<longrightarrow> (\<forall>i. 0 \<le> i \<and> i < n \<longrightarrow> ss_present cl p i w (set t)))"
  using ss_body.loop_store ss_body.loop_calls assms unfolding sync_statefulsets_def
  by (blast, fastforce)

lemma syncHandler_found:
  assumes "SplitMetaNamespaceKey key = Inr (ns, n)" "GetByKey (w_clusters w) (ns @ ''/'' @ n) = Some p"
  shows "syncHandler cl key w = sync_cluster cl p w"
  using assms by (simp add: syncHandler_def BrokerClusters_Get_def)

text \<open>
  The whole trace of a run on a cluster: service calls, then stateful set calls, then
  status updates, and what each part means for the outcome.
\<close>

definition status_call :: "api_call \<Rightarrow> bool" where
  "status_call c \<longleftrightarrow>
     (\<exists>v k. wanted_status v c \<and> condition_of (status_conditions v) BrokerClusterReady = Some k)"

definition run_trace :: "'w client \<Rightarrow> addr \<Rightarrow> 'w world \<Rightarrow> (api_call \<times> go_error option) list
    \<Rightarrow> (api_call \<times> go_error option) list \<Rightarrow> (api_call \<times> go_error option) list \<Rightarrow> bool" where
  "run_trace cl p w t1 t2 t3 \<longleftrightarrow>
     (\<forall>(c, e) \<in> set t1. \<exists>i. 0 \<le> i \<and> i < groups p w \<and> service_allowed p i (defaulted_world p w) c) \<and>
     (\<forall>(c, e) \<in> set t2. \<exists>i. 0 \<le> i \<and> i < groups p w \<and> ss_allowed cl p i (sized_world p w) c) \<and>
     (\<forall>(c, e) \<in> set t3. status_call c)"

definition all_services :: "addr \<Rightarrow> 'w world \<Rightarrow> (api_call \<times> go_error option) list \<Rightarrow> bool" where
  "all_services p w t \<longleftrightarrow>
     (\<forall>i. 0 \<le> i \<and> i < groups p w \<longrightarrow> service_present p i (defaulted_world p w) (set t))"

definition all_statefulsets :: "'w client \<Rightarrow> addr \<Rightarrow> 'w world \<Rightarrow> (api_call \<times> go_error option) list \<Rightarrow> bool" where
  "all_statefulsets cl p w t \<longleftrightarrow>
     (\<forall>i. 0 \<le> i \<and> i < groups p w \<longrightarrow> ss_present cl p i (sized_world p w) (set t))"

lemma sync_trace:
  assumes run: "sync_cluster cl p w = (w', out)" and wf: "wf_ptr (w_heap w) p" and quiet: "quiet_for cl p"
  obtains t1 t2 t3 where "w_trace w' = w_trace w @ t1 @ t2 @ t3" "run_trace cl p w t1 t2 t3"
    "t2 @ t3 \<noteq> [] \<or> out = Returned None \<Longrightarrow> all_services p w t1"
    "t3 \<noteq> [] \<or> out = Returned None \<Longrightarrow> all_statefulsets cl p w t2"
    "out = Returned None \<Longrightarrow> \<exists>c evs. w_events w' = evs @
       [\<lparr>ev_Object = c, ev_Type = EventTypeNormal, ev_Reason = SuccessSynced, ev_Message = MessageResourceSynced\<rparr>]"
proof -
  note defs = run_trace_def all_services_def all_statefulsets_def
  note finish = that
  have ss: thesis if services: "sync_services cl p (groups p w) (defaulted_world p w) = (w2, Continue ())"
    and w3: "w3 = w2\<lparr>w_heap := force_single_member p (w_heap w2)\<rparr>" "same_store (sized_world p w) w3"
    and ss: "sync_statefulsets cl p (groups p w) w3 = (w4, r)"
    and rest: "(w' = w4 \<and> out \<noteq> Returned None) \<or>
      (\<exists>g m w5 x. r = Continue (g, m) \<and> updateClusterStatus cl p g m w4 = (w5, x) \<and>
         w_trace w' = w_trace w5 \<and> (out = Returned None \<longrightarrow> (\<exists>c. w_events w' = w_events w5 @
       [\<lparr>ev_Object = c, ev_Type = EventTypeNormal, ev_Reason = SuccessSynced, ev_Message = MessageResourceSynced\<rparr>])))"
    for w2 w3 w4 r
  proof -
    obtain t1 where t1: "w_trace w2 = w_trace w @ t1" "all_services p w t1"
      "\<forall>(c, e) \<in> set t1. \<exists>i. 0 \<le> i \<and> i < groups p w \<and> service_allowed p i (defaulted_world p w) c"
      using services_run(2) [OF services] by (auto simp: defs)
    obtain t2 where t2: "w_trace w4 = w_trace w3 @ t2" "(\<exists>gm. r = Continue gm) \<longrightarrow> all_statefulsets cl p w t2"
      "\<forall>(c, e) \<in> set t2. \<exists>i. 0 \<le> i \<and> i < groups p w \<and> ss_allowed cl p i (sized_world p w) c"
      using statefulsets_run(2) [OF ss]
      unfolding ss_body.allowed_store [OF w3(2)] ss_body.established_store [OF w3(2)] by (auto simp: defs)
    have tr3: "w_trace w3 = w_trace w2" by (simp add: w3(1))
    from rest show thesis
    proof
      assume "w' = w4 \<and> out \<noteq> Returned None"
      then show thesis using finish [of t1 t2 "[]"] t1 t2 tr3 by (simp add: run_trace_def)
    next
      assume "\<exists>g m w5 x. r = Continue (g, m) \<and> updateClusterStatus cl p g m w4 = (w5, x) \<and>
         w_trace w' = w_trace w5 \<and> (out = Returned None \<longrightarrow> (\<exists>c. w_events w' = w_events w5 @
       [\<lparr>ev_Object = c, ev_Type = EventTypeNormal, ev_Reason = SuccessSynced, ev_Message = MessageResourceSynced\<rparr>]))"
      then obtain g m w5 x where r: "r = Continue (g, m)" and up: "updateClusterStatus cl p g m w4 = (w5, x)"
        and w': "w_trace w' = w_trace w5" and ev: "out = Returned None \<longrightarrow> (\<exists>c. w_events w' = w_events w5 @
       [\<lparr>ev_Object = c, ev_Type = EventTypeNormal, ev_Reason = SuccessSynced, ev_Message = MessageResourceSynced\<rparr>])"
        by blast
      have "w_heap w4 = w_heap (sized_world p w)"
        using statefulsets_run(1) [OF ss] w3(2) by (simp add: same_store_def)
      then have "wf_ptr (w_heap w4) p"
        using force_single_member_wf [OF EnsureDefaults_wf [OF wf]] by simp
      from updateClusterStatus_run(1) [OF up this quiet]
      obtain t3 where t3: "w_trace w5 = w_trace w4 @ t3" "\<forall>(c, e) \<in> set t3. status_call c"
        using condition_of_ready_update unfolding status_call_def retried_def
        by (fastforce split: if_splits)
      show thesis using finish [of t1 t2 t3] t1 t2 t3 tr3 w' ev r by (auto simp: run_trace_def)
    qed
  qed
  from run show thesis
  proof (rule sync_cluster_cases, goal_cases)
    case (1 e)
    obtain t1 where t1: "w_trace w' = w_trace w @ t1"
      "\<forall>(c, e) \<in> set t1. \<exists>i. 0 \<le> i \<and> i < groups p w \<and> service_allowed p i (defaulted_world p w) c"
      using services_run(2) [OF 1(1)] by auto
    then show ?case using finish [of t1 "[]" "[]"] 1(2) by (simp add: run_trace_def)
  next
    case (2 w2 w3 e)
    then show ?case using ss [OF 2(1-4)] by simp
  next
    case (3 w2 w3)
    then show ?case using ss [OF 3(1-4)] by simp
  next
    case (4 w2 w3 w4 g m e)
    then show ?case using ss [OF 4(1-4)] by simp
  next
    case (5 w2 w3 w4 w5 g m)
    then show ?case using ss [OF 5(1-4)] by fastforce
  qed
qed

section \<open>Properties of a run\<close>

text \<open>
  A reconciliation of the sample cluster by a server that accepts everything.
\<close>

abbreviation (input) sample_key :: string where
  "sample_key \<equiv> ''rocketmq-operator/mybrokercluster''"

lemma sample_key_found:
  "SplitMetaNamespaceKey sample_key = Inr (''rocketmq-operator'', ''mybrokercluster'')"
  "GetByKey (w_clusters sample_world) (''rocketmq-operator'' @ ''/'' @ ''mybrokercluster'') = Some 0"
  using SplitMetaNamespaceKey_pair [of "''rocketmq-operator''" "''mybrokercluster''"]
  by (simp_all add: no_slash_def GetByKey_def)

lemma sample_groups: "groups 0 sample_world = 2"
  by (simp add: groups_alt EnsureDefaults_struct sample_heap_def sample_obj_def)

lemma sample_sync: "\<exists>w'. sync_cluster accepting_client 0 sample_world = (w', Returned None)"
proof -
  obtain w2 where services: "sync_services accepting_client 0 2 (defaulted_world 0 sample_world) = (w2, Continue ())"
    using sample_service_run [of "defaulted_world 0 sample_world" 0] by auto
  have st2: "same_store (defaulted_world 0 sample_world) w2" by (rule services_run(1) [OF services])
  define w3 where "w3 = w2\<lparr>w_heap := force_single_member 0 (w_heap w2)\<rparr>"
  have st3: "same_store (sized_world 0 sample_world) w3"
    unfolding w3_def by (rule same_store_sized [OF st2])
  then obtain w4 where ss: "sync_statefulsets accepting_client 0 2 w3 = (w4, Continue (2, 0))"
    using sample_ss_run [of w3 0] by (auto simp: same_store_def)
  have heap4: "w_heap w4 = EnsureDefaults sample_heap 0"
    using statefulsets_run(1) [OF ss] st3
    by (simp add: same_store_def force_single_member_def Let_def EnsureDefaults_struct sample_heap_def
        sample_obj_def)
  obtain w5 e where up: "updateClusterStatus accepting_client 0 2 0 w4 = (w5, e)" by fastforce
  have conds: "cluster_conditions (w_heap w4) 0 = [sample_condition]"
    unfolding heap4 cluster_conditions_def conditions_of_def slice_val_def
    by (simp add: EnsureDefaults_struct EnsureDefaults_heap sample_heap_def sample_obj_def)
  have "ready_status 2 0 (Spec (h_clusters (w_heap w4) 0)) = ConditionFalse"
    unfolding heap4 by (simp add: ready_status_def EnsureDefaults_struct sample_heap_def sample_obj_def)
  with conds have "\<not> snd (ready_update (cl_Now accepting_client (w_env w4))
      (ready_status 2 0 (Spec (h_clusters (w_heap w4) 0))) (cluster_conditions (w_heap w4) 0))"
    by (simp add: ready_update_changed condition_of_def sample_condition_def)
  moreover have "wf_ptr (w_heap w4) 0"
    unfolding heap4 by (rule EnsureDefaults_wf [OF sample_wf])
  ultimately have "e = None"
    using updateClusterStatus_run(1) [OF up _ quiet_for_samples(1)] by simp
  then show ?thesis
    using services [unfolded defaulted_world_def] ss up defaults_set_members(1) [of sample_heap 0] st2
      sample_groups [unfolded groups_alt]
    by (simp add: sync_cluster_def Let_def w3_def same_store_def)
qed

text \<open>
  C1: A run that succeeds has established the desired state. When \<open>syncHandler\<close> returns nil
  for a cluster in the cache, then for every group below the (defaulted) group count there
  is a service and a stateful set with the group's name that the cluster controls, in the
  lister or created successfully in this run; a stateful set in the lister has the desired
  number of replicas or was patched successfully in this run; and the last event says
  Synced.
\<close>

theorem sync_success:
  assumes run: "syncHandler cl key w = (w', Returned None)"
    and key: "SplitMetaNamespaceKey key = Inr (ns, n)"
    and found: "GetByKey (w_clusters w) (ns @ ''/'' @ n) = Some p"
    and wf: "wf_ptr (w_heap w) p" and quiet: "quiet_for cl p"
  shows "\<exists>t. w_trace w' = w_trace w @ t \<and>
    (\<forall>i. 0 \<le> i \<and> i < groups p w \<longrightarrow>
       service_present p i (defaulted_world p w) (set t) \<and> ss_present cl p i (sized_world p w) (set t)) \<and>
    ev_Reason (last (w_events w')) = SuccessSynced"
proof -
  have "sync_cluster cl p w = (w', Returned None)"
    using run by (simp add: syncHandler_found [OF key found])
  then show ?thesis
  proof (rule sync_trace [OF _ wf quiet])
    fix t1 t2 t3 assume tr: "w_trace w' = w_trace w @ t1 @ t2 @ t3"
      and s1: "t2 @ t3 \<noteq> [] \<or> Returned None = Returned None \<Longrightarrow> all_services p w t1"
      and s2: "t3 \<noteq> [] \<or> Returned None = Returned None \<Longrightarrow> all_statefulsets cl p w t2"
      and ev: "Returned None = Returned None \<Longrightarrow> \<exists>c evs. w_events w' = evs @
       [\<lparr>ev_Object = c, ev_Type = EventTypeNormal, ev_Reason = SuccessSynced, ev_Message = MessageResourceSynced\<rparr>]"
    have "ev_Reason (last (w_events w')) = SuccessSynced" using ev [OF refl] by auto
    moreover have "service_present p i (defaulted_world p w) (set (t1 @ t2 @ t3))"
      "ss_present cl p i (sized_world p w) (set (t1 @ t2 @ t3))" if "0 \<le> i \<and> i < groups p w" for i
      using that s1 [OF disjI2 [OF refl]] s2 [OF disjI2 [OF refl]]
        service_body.established_mono [of p i "defaulted_world p w" "set t1" "set (t1 @ t2 @ t3)"]
        ss_body.established_mono [of cl p i "sized_world p w" "set t2" "set (t1 @ t2 @ t3)"]
      by (auto simp: all_services_def all_statefulsets_def)
    ultimately show ?thesis using tr by (intro exI [of _ "t1 @ t2 @ t3"]) auto
  qed
qed

theorem sync_success_witness:
  "\<exists>w' t. syncHandler accepting_client sample_key sample_world = (w', Returned None) \<and> w_trace w' = t \<and>
     ss_present accepting_client 0 1 (sized_world 0 sample_world) (set t)"
proof -
  obtain w' where run: "syncHandler accepting_client sample_key sample_world = (w', Returned None)"
    using sample_sync syncHandler_found [OF sample_key_found] by metis
  have wf: "wf_ptr (w_heap sample_world) 0" using sample_wf by simp
  show ?thesis
    using sync_success [OF run sample_key_found wf quiet_for_samples(1)] run sample_groups by auto
qed

text \<open>
  C2: What a run may touch, and in which order. All calls of a run are, in this order:
  creations of the services the cluster's groups lack; creations of the stateful sets they
  lack and patches of stateful sets that the cluster controls and whose size differs; and
  updates of the status. No stateful set is touched before every group has its service,
  and no status is written before every group has its stateful set.
\<close>

theorem sync_calls:
  assumes run: "syncHandler cl key w = (w', out)"
    and key: "SplitMetaNamespaceKey key = Inr (ns, n)"
    and found: "GetByKey (w_clusters w) (ns @ ''/'' @ n) = Some p"
    and wf: "wf_ptr (w_heap w) p" and quiet: "quiet_for cl p"
  shows "\<exists>t1 t2 t3. w_trace w' = w_trace w @ t1 @ t2 @ t3 \<and> run_trace cl p w t1 t2 t3 \<and>
    (t2 @ t3 \<noteq> [] \<longrightarrow> all_services p w t1) \<and> (t3 \<noteq> [] \<longrightarrow> all_statefulsets cl p w t2)"
proof -
  have "sync_cluster cl p w = (w', out)"
    using run by (simp add: syncHandler_found [OF key found])
  then show ?thesis by (rule sync_trace [OF _ wf quiet]) blast
qed

theorem sync_calls_witness:
  "\<exists>t1 t2 t3. w_trace (fst (syncHandler refusing_client sample_key sample_world)) = t1 @ t2 @ t3 \<and>
    run_trace refusing_client 0 sample_world t1 t2 t3 \<and> (t3 \<noteq> [] \<longrightarrow> all_statefulsets refusing_client 0 sample_world t2)"
proof -
  obtain w' out where run: "syncHandler refusing_client sample_key sample_world = (w', out)" by fastforce
  have wf: "wf_ptr (w_heap sample_world) 0" using sample_wf by simp
  show ?thesis
    using sync_calls [OF run sample_key_found wf quiet_for_samples(2)] unfolding run by auto
qed

text \<open>
  C15: An object with a group's name that the cluster does not control blocks the run: the
  handler does not return nil (so the key is not reported as synced), and the status of
  the cluster is not written.
\<close>

theorem foreign_object_blocks:
  assumes run: "syncHandler cl key w = (w', out)"
    and key: "SplitMetaNamespaceKey key = Inr (ns, n)"
    and found: "GetByKey (w_clusters w) (ns @ ''/'' @ n) = Some p"
    and wf: "wf_ptr (w_heap w) p" and quiet: "quiet_for cl p"
    and i: "0 \<le> i" "i < groups p w"
    and foreign: "(\<exists>s. lister_service p i (defaulted_world p w) = Some s \<and> \<not> owns_service p (defaulted_world p w) s)
      \<or> (\<exists>s. lister_ss p i (sized_world p w) = Some s \<and> \<not> owns_ss p (sized_world p w) s)"
  shows "out \<noteq> Returned None \<and>
    (\<exists>t. w_trace w' = w_trace w @ t \<and> (\<forall>(c, e) \<in> set t. \<forall>ns v. c \<noteq> CallUpdateCluster ns v))"
proof -
  have sync: "sync_cluster cl p w = (w', out)"
    using run by (simp add: syncHandler_found [OF key found])
  have blocked: "\<not> (all_services p w t1 \<and> all_statefulsets cl p w t2)" for t1 t2
    using i foreign by (force simp: all_services_def all_statefulsets_def service_present_def ss_present_def)
  from sync show ?thesis
  proof (rule sync_trace [OF _ wf quiet], goal_cases)
    case (1 t1 t2 t3)
    have "out \<noteq> Returned None" using 1(3,4) blocked by blast
    moreover have "t3 = []" using 1(3,4) blocked by blast
    moreover have "\<forall>(c, e) \<in> set (t1 @ t2). \<forall>ns v. c \<noteq> CallUpdateCluster ns v"
      using 1(2) by (auto simp: run_trace_def service_allowed_def create_service_call_def ss_allowed_def
          create_ss_call_def patch_ss_call_def Let_def split: option.splits)
    ultimately show ?case using 1(1) by (intro conjI exI [of _ "t1 @ t2"]) auto
  qed
qed

text \<open>A service of that name without an owner, say one created by hand.\<close>

definition foreign_world :: "time world" where
  "foreign_world = sample_world\<lparr>w_services := [''rocketmq-operator/mybrokercluster-svc-0'' \<mapsto>
     (NewHeadlessService sample_cluster 0)\<lparr>svc_ObjectMeta := empty_meta\<rparr>]\<rparr>"

lemma foreign_facts:
  "lister_service 0 0 (defaulted_world 0 foreign_world) =
     Some ((NewHeadlessService sample_cluster 0)\<lparr>svc_ObjectMeta := empty_meta\<rparr>)"
  "\<not> owns_service 0 (defaulted_world 0 foreign_world)
     ((NewHeadlessService sample_cluster 0)\<lparr>svc_ObjectMeta := empty_meta\<rparr>)"
  "groups 0 foreign_world = 2" "wf_ptr (w_heap foreign_world) 0"
  "GetByKey (w_clusters foreign_world) (''rocketmq-operator'' @ ''/'' @ ''mybrokercluster'') = Some 0"
proof -
  have meta: "om_Namespace (bc_ObjectMeta (cluster_at (EnsureDefaults sample_heap 0) 0)) = ''rocketmq-operator''"
    "om_Name (bc_ObjectMeta (cluster_at (EnsureDefaults sample_heap 0) 0)) = ''mybrokercluster''"
    by (simp_all add: cluster_at_def EnsureDefaults_struct sample_heap_def sample_obj_def)
  have name: "Sprintf_d (svc_name_format (cluster_at (EnsureDefaults sample_heap 0) 0)) 0 = ''mybrokercluster-svc-0''"
    using svc_name [of "cluster_at (EnsureDefaults sample_heap 0) 0" 0]
    by (simp add: meta dec_int_def dec_nat.simps digit_def digit_chars_def)
  show "lister_service 0 0 (defaulted_world 0 foreign_world) =
      Some ((NewHeadlessService sample_cluster 0)\<lparr>svc_ObjectMeta := empty_meta\<rparr>)"
    by (simp add: lister_service_def Let_def foreign_world_def name meta GetByKey_def)
  show "\<not> owns_service 0 (defaulted_world 0 foreign_world)
      ((NewHeadlessService sample_cluster 0)\<lparr>svc_ObjectMeta := empty_meta\<rparr>)"
    by (simp add: owns_service_def IsControlledBy_def GetControllerOf_def empty_meta_def)
  show "groups 0 foreign_world = 2"
    using sample_groups by (simp add: groups_alt foreign_world_def)
  show "wf_ptr (w_heap foreign_world) 0" using sample_wf by (simp add: foreign_world_def)
  show "GetByKey (w_clusters foreign_world) (''rocketmq-operator'' @ ''/'' @ ''mybrokercluster'') = Some 0"
    using sample_key_found(2) by (simp add: foreign_world_def)
qed

theorem foreign_object_blocks_witness:
  "snd (syncHandler accepting_client sample_key foreign_world) \<noteq> Returned None"
proof -
  obtain w' out where run: "syncHandler accepting_client sample_key foreign_world = (w', out)" by fastforce
  show ?thesis
    using foreign_object_blocks [OF run sample_key_found(1) foreign_facts(5,4) quiet_for_samples(1), of 0]
      foreign_facts(1-3) run by auto
qed

lemma foreign_sync:
  "\<exists>w err. syncHandler accepting_client sample_key foreign_world = (w, Returned (Some err))"
proof -
  obtain w1 r where pass: "sync_service accepting_client 0 0 () (defaulted_world 0 foreign_world) = (w1, r)"
    by fastforce
  then have "\<exists>e. r = Return (Some e)"
    by (rule sync_service_cases) (use foreign_facts in auto)
  then obtain e where "sync_services accepting_client 0 2 (defaulted_world 0 foreign_world) = (w1, Return (Some e))"
    using pass by (auto simp: sync_services_def indices_def upt_rec)
  then have "syncHandler accepting_client sample_key foreign_world = (w1, Returned (Some e))"
    using foreign_facts(3)
    by (simp add: syncHandler_found [OF sample_key_found(1) foreign_facts(5)] sync_cluster_def Let_def
        groups_alt defaulted_world_def)
  then show ?thesis by blast
qed

text \<open>
  A key that is malformed, or whose cluster is no longer in the cache, is dropped: the
  handler returns nil, makes no call, changes nothing and reports one error.
\<close>

theorem sync_absent:
  assumes "(\<exists>e. SplitMetaNamespaceKey key = Inl e) \<or>
    (\<exists>ns n. SplitMetaNamespaceKey key = Inr (ns, n) \<and> GetByKey (w_clusters w) (ns @ ''/'' @ n) = None)"
  shows "\<exists>msg. syncHandler cl key w = (HandleError (MessageError msg) w, Returned None)"
  using assms by (auto simp: syncHandler_def BrokerClusters_Get_def)

theorem sync_absent_witness:
  "\<exists>msg. syncHandler accepting_client ''a/b/c'' sample_world =
     (HandleError (MessageError msg) sample_world, Returned None)"
  by (rule sync_absent) (simp add: SplitMetaNamespaceKey_def)

section \<open>The converged state\<close>

lemma for_loop_fixed:
  assumes "\<And>i a. i \<in> set is \<Longrightarrow> body i a s = (s, Continue (f i a))"
  shows "for_loop body is a s = (s, Continue (fold f is a))"
  using assms by (induction "is" arbitrary: a) simp_all

text \<open>Every group has its own objects at the right size, and the Ready condition is current.\<close>

definition converged :: "addr \<Rightarrow> 'w world \<Rightarrow> bool" where
  "converged p w \<longleftrightarrow>
     (let v = sized_world p w; n = groups p w;
          g = int (card {i. 0 \<le> i \<and> i < n \<and> group_ready p v i});
          m = (\<Sum>i | 0 \<le> i \<and> i < n \<and> group_ready p v i. group_members p v i) in
      (\<forall>i. 0 \<le> i \<and> i < n \<longrightarrow>
         (\<exists>s. lister_service p i (defaulted_world p w) = Some s \<and> owns_service p (defaulted_world p w) s) \<and>
         (\<exists>s. lister_ss p i v = Some s \<and> owns_ss p v s \<and> right_size p v s)) \<and>
      (\<exists>c. condition_of (cluster_conditions (w_heap v) p) BrokerClusterReady = Some c \<and>
           cond_Status c = ready_status g m (Spec (h_clusters (w_heap v) p))))"

lemma service_pass_fixed:
  assumes "lister_service p i w = Some s" "owns_service p w s"
  shows "sync_service cl p i a w = (w, Continue ())"
proof -
  obtain w' r where run: "sync_service cl p i a w = (w', r)" by fastforce
  from run show ?thesis by (rule sync_service_cases) (use assms run in auto)
qed

lemma ss_pass_fixed:
  assumes "lister_ss p i w = Some s" "owns_ss p w s" "right_size p w s"
  shows "sync_statefulset cl p i a w = (w, Continue (count_ready (counted_ss p i w) a))"
proof -
  obtain w' r where run: "sync_statefulset cl p i a w = (w', r)" by fastforce
  have "counted_ss p i w = s" using assms by (simp add: counted_ss_def)
  with run show ?thesis
    by (elim sync_ss_cases) (use assms run in \<open>auto simp: right_size_def\<close>)
qed

text \<open>Once every group has its own objects at the right size, only the status is left to do.\<close>

definition objects_settled :: "addr \<Rightarrow> 'w world \<Rightarrow> bool" where
  "objects_settled p w \<longleftrightarrow>
     (\<forall>i. 0 \<le> i \<and> i < groups p w \<longrightarrow>
        (\<exists>s. lister_service p i (defaulted_world p w) = Some s \<and> owns_service p (defaulted_world p w) s) \<and>
        (\<exists>s. lister_ss p i (sized_world p w) = Some s \<and> owns_ss p (sized_world p w) s \<and>
             right_size p (sized_world p w) s))"

lemma settled_run:
  assumes settled: "objects_settled p w"
  defines "v \<equiv> sized_world p w" and "n \<equiv> groups p w"
  shows "sync_cluster cl p w =
    (case updateClusterStatus cl p (int (card {i. 0 \<le> i \<and> i < n \<and> group_ready p v i}))
            (\<Sum>i | 0 \<le> i \<and> i < n \<and> group_ready p v i. group_members p v i) v of
       (w5, Some err) \<Rightarrow> (w5, Returned (Some err))
     | (w5, None) \<Rightarrow> (record_event (cluster_at (w_heap w5) p) EventTypeNormal SuccessSynced
                         MessageResourceSynced w5, Returned None))"
proof -
  let ?d = "defaulted_world p w"
  have services: "sync_services cl p n ?d = (?d, Continue ())"
    unfolding sync_services_def
    by (rule for_loop_fixed [of _ _ _ "\<lambda>_ _. ()", simplified])
       (use settled service_pass_fixed in \<open>fastforce simp: objects_settled_def n_def\<close>)
  have v: "?d\<lparr>w_heap := force_single_member p (EnsureDefaults (w_heap w) p)\<rparr> = v"
    by (simp add: defaulted_world_def sized_world_def v_def)
  have "sync_statefulsets cl p n v =
      (v, Continue (fold (\<lambda>i. count_ready (counted_ss p i v)) (indices n) (0, 0)))"
    unfolding sync_statefulsets_def
    by (rule for_loop_fixed) (use settled ss_pass_fixed in \<open>fastforce simp: objects_settled_def n_def v_def\<close>)
  then have ss: "sync_statefulsets cl p n v =
      (v, Continue (int (card {i. 0 \<le> i \<and> i < n \<and> group_ready p v i}),
         \<Sum>i | 0 \<le> i \<and> i < n \<and> group_ready p v i. group_members p v i))"
    by (simp add: fold_count_ready length_filter_indices sum_filter_indices)
  show ?thesis
    using services ss defaults_set_members(1) [of "w_heap w" p]
    by (simp add: sync_cluster_def Let_def groups_alt [of p w, folded n_def, symmetric]
        defaulted_world_def [symmetric] v)
qed

lemma converged_settled: "converged p w \<Longrightarrow> objects_settled p w"
  by (simp add: converged_def objects_settled_def Let_def)

lemma converged_run:
  assumes conv: "converged p w" and wf: "wf_ptr (w_heap w) p" and quiet: "quiet_for cl p"
    and run: "sync_cluster cl p w = (w', out)"
  shows "out = Returned None \<and> w_trace w' = w_trace w"
proof -
  let ?v = "sized_world p w" and ?n = "groups p w"
  define g where "g = int (card {i. 0 \<le> i \<and> i < ?n \<and> group_ready p ?v i})"
  define m where "m = (\<Sum>i | 0 \<le> i \<and> i < ?n \<and> group_ready p ?v i. group_members p ?v i)"
  obtain w5 e where up: "updateClusterStatus cl p g m ?v = (w5, e)" by fastforce
  have "wf_ptr (w_heap ?v) p"
    using force_single_member_wf [OF EnsureDefaults_wf [OF wf]] by simp
  from updateClusterStatus_run(1) [OF up this quiet] have "e = None" "w_trace w5 = w_trace w"
    using conv by (auto simp: converged_def Let_def g_def m_def ready_update_changed split: if_splits option.splits)
  then show ?thesis
    using run settled_run [OF converged_settled [OF conv], of cl] up
    by (auto simp: g_def m_def record_event_def)
qed

text \<open>
  In the converged state a run is quiet: it succeeds, makes no call at all, and only
  records that the cluster was synced. So the operator does not feed its own watches.
\<close>

theorem sync_converged:
  assumes conv: "converged p w" and wf: "wf_ptr (w_heap w) p" and quiet: "quiet_for cl p"
    and key: "SplitMetaNamespaceKey key = Inr (ns, n)"
    and found: "GetByKey (w_clusters w) (ns @ ''/'' @ n) = Some p"
    and run: "syncHandler cl key w = (w', out)"
  shows "out = Returned None \<and> w_trace w' = w_trace w"
  using converged_run [OF conv wf quiet] run by (simp add: syncHandler_found [OF key found])

text \<open>
  The sample cluster with all its objects in the listers; no member has started, so the
  Ready condition is False.
\<close>

definition sample_defaulted :: cluster_val where
  "sample_defaulted = cluster_at (EnsureDefaults sample_heap 0) 0"

definition converged_world :: "time world" where
  "converged_world = sample_world
     \<lparr>w_services := [''rocketmq-operator/mybrokercluster-svc-0'' \<mapsto> NewHeadlessService sample_defaulted 0,
        ''rocketmq-operator/mybrokercluster-svc-1'' \<mapsto> NewHeadlessService sample_defaulted 1],
      w_statefulsets := [''rocketmq-operator/mybrokercluster-0'' \<mapsto> NewStatefulSet sample_defaulted 0,
        ''rocketmq-operator/mybrokercluster-1'' \<mapsto> NewStatefulSet sample_defaulted 1]\<rparr>"

lemma sample_defaulted_meta:
  "om_Namespace (bc_ObjectMeta sample_defaulted) = ''rocketmq-operator''"
  "om_Name (bc_ObjectMeta sample_defaulted) = ''mybrokercluster''"
  by (simp_all add: sample_defaulted_def cluster_at_def EnsureDefaults_struct sample_heap_def sample_obj_def)

lemma sample_defaulted_names:
  "Sprintf_d (svc_name_format sample_defaulted) 0 = ''mybrokercluster-svc-0''"
  "Sprintf_d (svc_name_format sample_defaulted) 1 = ''mybrokercluster-svc-1''"
  "Sprintf_d (group_name_format sample_defaulted) 0 = ''mybrokercluster-0''"
  "Sprintf_d (group_name_format sample_defaulted) 1 = ''mybrokercluster-1''"
  using svc_name [of sample_defaulted 0] svc_name [of sample_defaulted 1]
    group_name [of sample_defaulted 0] group_name [of sample_defaulted 1]
  by (simp_all add: sample_defaulted_meta dec_int_def dec_nat.simps digit_def digit_chars_def)

lemma sample_heaps:
  "w_heap (sized_world 0 converged_world) = EnsureDefaults sample_heap 0"
  "w_heap (defaulted_world 0 converged_world) = EnsureDefaults sample_heap 0"
  by (simp_all add: converged_world_def force_single_member_def Let_def EnsureDefaults_struct
      sample_heap_def sample_obj_def)

lemma converged_sample: "converged 0 converged_world"
proof -
  let ?v = "sized_world 0 converged_world" and ?d = "defaulted_world 0 converged_world"
  have at: "cluster_at (w_heap ?v) 0 = sample_defaulted" "cluster_at (w_heap ?d) 0 = sample_defaulted"
    unfolding sample_heaps by (simp_all add: sample_defaulted_def)
  have n: "groups 0 converged_world = 2"
    using sample_groups by (simp add: groups_alt converged_world_def)
  have i: "i = 0 \<or> i = 1" if "0 \<le> i \<and> i < 2" for i :: int using that by auto
  have svc: "lister_service 0 i ?d = Some (NewHeadlessService sample_defaulted i)"
    and ss: "lister_ss 0 i ?v = Some (NewStatefulSet sample_defaulted i)" if "0 \<le> i \<and> i < 2" for i
    using i [OF that] unfolding lister_service_def lister_ss_def at Let_def
    by (auto simp: sample_defaulted_meta sample_defaulted_names converged_world_def GetByKey_def)
  have own: "owns_service 0 ?d (NewHeadlessService sample_defaulted i)"
    "owns_ss 0 ?v (NewStatefulSet sample_defaulted i)" "right_size 0 ?v (NewStatefulSet sample_defaulted i)" for i
    by (simp_all only: owns_service_def owns_ss_def right_size_def at new_objects_controlled NewStatefulSet_meta)
  have counted: "counted_ss 0 i ?v = NewStatefulSet sample_defaulted i" if "0 \<le> i \<and> i < 2" for i
    using ss [OF that] own by (simp add: counted_ss_def)
  have members: "(\<Sum>i | 0 \<le> i \<and> i < 2 \<and> group_ready 0 ?v i. group_members 0 ?v i) = 0"
    by (rule sum.neutral) (auto simp: group_members_def counted)
  have conds: "cluster_conditions (w_heap ?v) 0 = [sample_condition]"
    unfolding sample_heaps cluster_conditions_def conditions_of_def slice_val_def
    by (simp add: EnsureDefaults_struct EnsureDefaults_heap sample_heap_def sample_obj_def)
  have "ready_status g 0 (Spec (h_clusters (w_heap ?v) 0)) = ConditionFalse" for g
    unfolding sample_heaps by (simp add: ready_status_def EnsureDefaults_struct sample_heap_def sample_obj_def)
  then show ?thesis
    unfolding converged_def Let_def n members conds
    using svc ss own by (auto simp: condition_of_def sample_condition_def)
qed

theorem sync_converged_witness:
  "snd (syncHandler accepting_client sample_key converged_world) = Returned None \<and>
   w_trace (fst (syncHandler accepting_client sample_key converged_world)) = []"
proof -
  obtain w' out where run: "syncHandler accepting_client sample_key converged_world = (w', out)" by fastforce
  have wf: "wf_ptr (w_heap converged_world) 0" using sample_wf by (simp add: converged_world_def)
  have found: "GetByKey (w_clusters converged_world) (''rocketmq-operator'' @ ''/'' @ ''mybrokercluster'') = Some 0"
    using sample_key_found(2) by (simp add: converged_world_def)
  have "w_trace converged_world = []" by (simp add: converged_world_def)
  then show ?thesis
    using sync_converged [OF converged_sample wf quiet_for_samples(1) sample_key_found(1) found run] run by simp
qed

text \<open>
  The handler panics only on a stateful set in the cache that has no replica count; the
  API server defaults that field, so its objects always have one.
\<close>

theorem panic_needs_nil_replicas:
  assumes run: "syncHandler cl key w = (w', Panicked)"
  shows "\<exists>s \<in> ran (w_statefulsets w). ss_SpecReplicas (ss_Spec s) = None"
proof -
  obtain p where "sync_cluster cl p w = (w', Panicked)"
    using run by (auto simp: syncHandler_def split: sum.splits if_splits)
  then show ?thesis
  proof (rule sync_cluster_cases)
    fix w2 w3 assume st3: "same_store (sized_world p w) w3"
      and ss: "sync_statefulsets cl p (groups p w) w3 = (w', Panic)"
    obtain i a1 w1 where pass: "sync_statefulset cl p i a1 w1 = (w', Panic)" and st1: "same_store w3 w1"
      using ss_body.loop_stop [OF ss [unfolded sync_statefulsets_def]] by blast
    from pass obtain s where "lister_ss p i w1 = Some s" "ss_SpecReplicas (ss_Spec s) = None"
      by (rule sync_ss_cases) (auto split: option.splits)
    then show ?thesis
      using st1 st3 by (auto simp: lister_ss_def Let_def GetByKey_def same_store_def ran_def)
  qed auto
qed

text \<open>A stateful set of the cluster without a replica count.\<close>

definition nil_world :: "time world" where
  "nil_world = converged_world\<lparr>w_statefulsets := [''rocketmq-operator/mybrokercluster-0'' \<mapsto>
     (NewStatefulSet sample_defaulted 0)\<lparr>ss_Spec :=
        (ss_Spec (NewStatefulSet sample_defaulted 0))\<lparr>ss_SpecReplicas := None\<rparr>\<rparr>]\<rparr>"

lemma nil_sync: "\<exists>w'. syncHandler accepting_client sample_key nil_world = (w', Panicked)"
proof -
  let ?s = "(NewStatefulSet sample_defaulted 0)\<lparr>ss_Spec :=
        (ss_Spec (NewStatefulSet sample_defaulted 0))\<lparr>ss_SpecReplicas := None\<rparr>\<rparr>"
  have heaps: "w_heap (sized_world 0 nil_world) = EnsureDefaults sample_heap 0"
    "w_heap (defaulted_world 0 nil_world) = EnsureDefaults sample_heap 0"
    using sample_heaps by (simp_all add: nil_world_def)
  have n: "groups 0 nil_world = 2"
    using sample_groups by (simp add: groups_alt nil_world_def converged_world_def)
  have svc: "lister_service 0 i (defaulted_world 0 nil_world) = lister_service 0 i (defaulted_world 0 converged_world)"
    "owns_service 0 (defaulted_world 0 nil_world) = owns_service 0 (defaulted_world 0 converged_world)" for i
    using sample_heaps heaps
    by (auto simp: lister_service_def owns_service_def Let_def nil_world_def)
  have "groups 0 converged_world = 2"
    using sample_groups by (simp add: groups_alt converged_world_def)
  then have "\<exists>s. lister_service 0 i (defaulted_world 0 nil_world) = Some s \<and> owns_service 0 (defaulted_world 0 nil_world) s"
    if "0 \<le> i \<and> i < 2" for i
    using converged_sample that unfolding svc converged_def Let_def by auto
  then have services: "sync_services accepting_client 0 2 (defaulted_world 0 nil_world) =
      (defaulted_world 0 nil_world, Continue ())"
    unfolding sync_services_def
    by (intro for_loop_fixed [of _ _ _ "\<lambda>_ _. ()", simplified]) (use service_pass_fixed in fastforce)
  have at: "cluster_at (w_heap (sized_world 0 nil_world)) 0 = sample_defaulted"
    unfolding heaps by (simp add: sample_defaulted_def)
  have s: "lister_ss 0 0 (sized_world 0 nil_world) = Some ?s"
    unfolding lister_ss_def at Let_def
    by (simp add: sample_defaulted_meta sample_defaulted_names nil_world_def GetByKey_def)
  moreover have "owns_ss 0 (sized_world 0 nil_world) ?s"
    unfolding owns_ss_def at using new_objects_controlled(2) [of sample_defaulted 0] by simp
  ultimately have "sync_statefulset accepting_client 0 0 (0, 0) (sized_world 0 nil_world) =
      (sized_world 0 nil_world, Panic)"
    by (simp add: sync_statefulset_def get_or_create_statefulset_def lister_ss_def owns_ss_def Let_def
        StatefulSets_Get_def resize_statefulset_def)
  then have ss: "sync_statefulsets accepting_client 0 2 (sized_world 0 nil_world) = (sized_world 0 nil_world, Panic)"
    by (simp add: sync_statefulsets_def indices_def upt_rec)
  have v: "(defaulted_world 0 nil_world)\<lparr>w_heap := force_single_member 0 (EnsureDefaults (w_heap nil_world) 0)\<rparr> =
      sized_world 0 nil_world"
    by (simp add: defaulted_world_def sized_world_def)
  have found: "GetByKey (w_clusters nil_world) (''rocketmq-operator'' @ ''/'' @ ''mybrokercluster'') = Some 0"
    using sample_key_found(2) by (simp add: nil_world_def converged_world_def)
  show ?thesis
    using services ss defaults_set_members(1) [of "w_heap nil_world" 0] n [unfolded groups_alt]
    by (simp add: syncHandler_found [OF sample_key_found(1) found] sync_cluster_def Let_def
        defaulted_world_def [symmetric] v)
qed

theorem panic_needs_nil_replicas_witness:
  "\<exists>s \<in> ran (w_statefulsets nil_world). ss_SpecReplicas (ss_Spec s) = None"
proof -
  obtain w' where "syncHandler accepting_client sample_key nil_world = (w', Panicked)"
    using nil_sync by blast
  then show ?thesis by (rule panic_needs_nil_replicas)
qed

end
