(* ===== verification/Work_Queue.thy ===== *)
theory Work_Queue
  imports Op_Prelude
begin

text \<open>
  The rate-limited work queue of client-go (\<open>util/workqueue\<close>) the controller is built on:
  the queue with its dirty and processing sets, the delaying layer, and the item rate
  limiter with exponential backoff.

  Locks make each operation atomic, so an operation is a function on the state. \<open>Get\<close>
  blocks on an empty queue: \<open>WouldBlock\<close> is that outcome. The delaying layer's goroutine is
  the operation \<open>fire\<close>, which adds one waiting item whose time has come; that an item passes
  through a buffered channel first is not modelled. Times are in nanoseconds. The token
  bucket's delay is a parameter; metrics are not modelled.

  \<open>work_queue\<close> is the interface the workers rely on.
\<close>

section \<open>Items and state\<close>

text \<open>The queue holds interface values; the controller puts strings into it.\<close>

datatype item = KeyItem string | OtherItem string

record wq =
  q_queue :: "item list"
  q_dirty :: "item set"
  q_processing :: "item set"
  q_shuttingDown :: bool
  q_waiting :: "item \<rightharpoonup> time"
  q_failures :: "item \<rightharpoonup> nat"

definition NewQueue :: wq where
  "NewQueue = \<lparr>q_queue = [], q_dirty = {}, q_processing = {}, q_shuttingDown = False,
     q_waiting = Map.empty, q_failures = Map.empty\<rparr>"

section \<open>The queue\<close>

definition Add :: "item \<Rightarrow> wq \<Rightarrow> wq" where
  "Add item q =
     (if q_shuttingDown q then q
      else if item \<in> q_dirty q then q
      else
        (let q1 = q\<lparr>q_dirty := insert item (q_dirty q)\<rparr> in
         if item \<in> q_processing q1 then q1
         else q1\<lparr>q_queue := q_queue q1 @ [item]\<rparr>))"

definition Len :: "wq \<Rightarrow> nat" where
  "Len q = length (q_queue q)"

datatype get_result = WouldBlock | Shutdown | Got item

definition Get :: "wq \<Rightarrow> wq \<times> get_result" where
  "Get q =
     (case q_queue q of
        [] \<Rightarrow> (q, if q_shuttingDown q then Shutdown else WouldBlock)
      | item # rest \<Rightarrow>
          (q\<lparr>q_queue := rest, q_processing := insert item (q_processing q),
             q_dirty := q_dirty q - {item}\<rparr>, Got item))"

definition Done :: "item \<Rightarrow> wq \<Rightarrow> wq" where
  "Done item q =
     (let q1 = q\<lparr>q_processing := q_processing q - {item}\<rparr> in
      if item \<in> q_dirty q1 then q1\<lparr>q_queue := q_queue q1 @ [item]\<rparr> else q1)"

definition ShutDown :: "wq \<Rightarrow> wq" where
  "ShutDown q = q\<lparr>q_shuttingDown := True\<rparr>"

section \<open>The rate limiter and the delaying layer\<close>

definition failures :: "wq \<Rightarrow> item \<Rightarrow> nat" where
  "failures q item = (case q_failures q item of None \<Rightarrow> 0 | Some n \<Rightarrow> n)"

definition baseDelay :: time where
  "baseDelay = 5 * 10 ^ 6"

definition maxDelay :: time where
  "maxDelay = 1000 * 10 ^ 9"

text \<open>
  \<open>baseDelay * 2 ^ exp\<close> computed as a float and capped before the conversion, so that it
  does not overflow; powers of two times the base delay below \<open>2 ^ 63\<close> are exact as floats.
\<close>

definition item_backoff :: "nat \<Rightarrow> time" where
  "item_backoff e =
     (let backoff = baseDelay * 2 ^ e in
      if backoff > 2 ^ 63 - 1 then maxDelay
      else if backoff > maxDelay then maxDelay else backoff)"

definition When :: "time \<Rightarrow> item \<Rightarrow> wq \<Rightarrow> wq \<times> time" where
  "When bucket item q =
     (let curr = item_backoff (failures q item);
          ret = (if curr > 0 then curr else 0)
      in (q\<lparr>q_failures := (q_failures q)(item \<mapsto> failures q item + 1)\<rparr>,
          if bucket > ret then bucket else ret))"

definition NumRequeues :: "item \<Rightarrow> wq \<Rightarrow> nat" where
  "NumRequeues item q = failures q item"

definition Forget :: "item \<Rightarrow> wq \<Rightarrow> wq" where
  "Forget item q = q\<lparr>q_failures := (q_failures q)(item := None)\<rparr>"

text \<open>An item already waiting keeps the earlier of the two times.\<close>

definition insert_waiting :: "item \<Rightarrow> time \<Rightarrow> wq \<Rightarrow> wq" where
  "insert_waiting item readyAt q =
     (case q_waiting q item of
        None \<Rightarrow> q\<lparr>q_waiting := (q_waiting q)(item \<mapsto> readyAt)\<rparr>
      | Some t \<Rightarrow> (if t > readyAt then q\<lparr>q_waiting := (q_waiting q)(item \<mapsto> readyAt)\<rparr> else q))"

definition AddAfter :: "time \<Rightarrow> item \<Rightarrow> time \<Rightarrow> wq \<Rightarrow> wq" where
  "AddAfter now item duration q =
     (if q_shuttingDown q then q
      else if duration \<le> 0 then Add item q
      else insert_waiting item (now + duration) q)"

definition AddRateLimited :: "time \<Rightarrow> time \<Rightarrow> item \<Rightarrow> wq \<Rightarrow> wq" where
  "AddRateLimited bucket now item q =
     (case When bucket item q of (q1, d) \<Rightarrow> AddAfter now item d q1)"

definition fire :: "time \<Rightarrow> item \<Rightarrow> wq \<Rightarrow> wq" where
  "fire now item q =
     (if q_shuttingDown q then q
      else case q_waiting q item of
        None \<Rightarrow> q
      | Some readyAt \<Rightarrow>
          (if readyAt > now then q
           else (Add item q)\<lparr>q_waiting := (q_waiting q)(item := None)\<rparr>))"

section \<open>The invariant\<close>

text \<open>
  The comment in the source: every element of the queue is in the dirty set and not in the
  processing set. Also conversely: a dirty item that nobody processes is in the queue, once.
\<close>

definition wq_ok :: "wq \<Rightarrow> bool" where
  "wq_ok q \<longleftrightarrow> distinct (q_queue q) \<and> set (q_queue q) = q_dirty q - q_processing q"

lemma NewQueue_ok: "wq_ok NewQueue"
  by (simp add: wq_ok_def NewQueue_def)

lemma Add_ok: "wq_ok q \<Longrightarrow> wq_ok (Add item q)"
  by (auto simp: wq_ok_def Add_def Let_def)

lemma Get_ok: "wq_ok q \<Longrightarrow> Get q = (q', r) \<Longrightarrow> wq_ok q'"
  by (auto simp: wq_ok_def Get_def split: list.splits)

lemma Done_ok: "wq_ok q \<Longrightarrow> item \<in> q_processing q \<Longrightarrow> wq_ok (Done item q)"
  by (auto simp: wq_ok_def Done_def Let_def)

lemma other_ops_ok:
  "wq_ok (ShutDown q) = wq_ok q" "wq_ok (Forget item q) = wq_ok q"
  "wq_ok (insert_waiting item t q) = wq_ok q"
  by (auto simp: wq_ok_def ShutDown_def Forget_def insert_waiting_def split: option.split)

lemma AddRateLimited_ok: "wq_ok q \<Longrightarrow> wq_ok (AddRateLimited bucket now item q)"
proof -
  assume ok: "wq_ok q"
  obtain q1 d where w: "When bucket item q = (q1, d)" by fastforce
  then have "wq_ok q1" using ok by (auto simp: When_def Let_def wq_ok_def)
  then show ?thesis using w Add_ok by (simp add: AddRateLimited_def AddAfter_def other_ops_ok)
qed

lemma fire_ok: "wq_ok q \<Longrightarrow> wq_ok (fire now item q)"
  using Add_ok [of q item] by (auto simp: fire_def wq_ok_def split: option.split)

section \<open>The contract with the workers\<close>

text \<open>
  \<open>pending\<close> are the items that still have to be processed, \<open>active\<close> those a worker holds.
  An added item becomes pending; \<open>take\<close> hands out a pending item that no worker holds;
  there is nothing to take only when every pending item is held.
\<close>

locale work_queue =
  fixes ok :: "'q \<Rightarrow> bool"
    and pending :: "'q \<Rightarrow> 'i set"
    and active :: "'q \<Rightarrow> 'i set"
    and closed :: "'q \<Rightarrow> bool"
    and add :: "'i \<Rightarrow> 'q \<Rightarrow> 'q"
    and take :: "'q \<Rightarrow> ('q \<times> 'i) option"
    and finish :: "'i \<Rightarrow> 'q \<Rightarrow> 'q"
  assumes add_ok: "ok q \<Longrightarrow> ok (add x q)"
    and add_pending: "pending (add x q) = (if closed q then pending q else insert x (pending q))"
    and add_active: "active (add x q) = active q"
    and take_ok: "ok q \<Longrightarrow> take q = Some (q', x) \<Longrightarrow> ok q'"
    and take_item: "ok q \<Longrightarrow> take q = Some (q', x) \<Longrightarrow> x \<in> pending q \<and> x \<notin> active q"
    and take_sets: "ok q \<Longrightarrow> take q = Some (q', x) \<Longrightarrow>
      pending q' = pending q - {x} \<and> active q' = insert x (active q)"
    and take_none: "ok q \<Longrightarrow> take q = None \<Longrightarrow> pending q \<subseteq> active q"
    and finish_ok: "ok q \<Longrightarrow> x \<in> active q \<Longrightarrow> ok (finish x q)"
    and finish_sets: "pending (finish x q) = pending q \<and> active (finish x q) = active q - {x}"
begin

text \<open>An item added while a worker holds it is handed out again, once the worker is done.\<close>

lemma added_while_active:
  assumes "ok q" "x \<in> active q" "\<not> closed q"
  shows "x \<in> pending (finish x (add x q))" "x \<notin> active (finish x (add x q))"
    "take (finish x (add x q)) \<noteq> None"
proof -
  show 1: "x \<in> pending (finish x (add x q))" "x \<notin> active (finish x (add x q))"
    using assms finish_sets add_pending by auto
  have "ok (finish x (add x q))"
    using assms by (simp add: finish_ok add_ok add_active)
  from take_none [OF this] 1 show "take (finish x (add x q)) \<noteq> None" by blast
qed

text \<open>Adding twice is adding once, as far as anybody can see.\<close>

lemma add_twice: "closed (add x q) = closed q \<Longrightarrow> pending (add x (add x q)) = pending (add x q)"
  by (simp add: add_pending)

lemma take_pending_other:
  "ok q \<Longrightarrow> take q = Some (q', x) \<Longrightarrow> y \<noteq> x \<Longrightarrow> y \<in> pending q' \<longleftrightarrow> y \<in> pending q"
  using take_sets by blast

lemma idle_progress: "ok q \<Longrightarrow> pending q \<noteq> {} \<Longrightarrow> active q = {} \<Longrightarrow> take q \<noteq> None"
  using take_none by blast

end

definition take_item :: "wq \<Rightarrow> (wq \<times> item) option" where
  "take_item q = (case Get q of (q', Got x) \<Rightarrow> Some (q', x) | _ \<Rightarrow> None)"

lemma take_item_Some: "take_item q = Some (q', x) \<longleftrightarrow> Get q = (q', Got x)"
  by (auto simp: take_item_def split: prod.splits get_result.splits)

lemma take_item_None: "take_item q = None \<longleftrightarrow> q_queue q = []"
  by (auto simp: take_item_def Get_def split: list.splits)

lemma Add_sets:
  "q_dirty (Add x q) = (if q_shuttingDown q then q_dirty q else insert x (q_dirty q))"
  "q_processing (Add x q) = q_processing q" "q_shuttingDown (Add x q) = q_shuttingDown q"
  "q_waiting (Add x q) = q_waiting q" "q_failures (Add x q) = q_failures q"
  by (auto simp: Add_def Let_def)

lemma Done_sets:
  "q_dirty (Done x q) = q_dirty q" "q_processing (Done x q) = q_processing q - {x}"
  "q_shuttingDown (Done x q) = q_shuttingDown q" "q_waiting (Done x q) = q_waiting q"
  "q_failures (Done x q) = q_failures q"
  by (auto simp: Done_def Let_def)

interpretation workqueue: work_queue wq_ok q_dirty q_processing q_shuttingDown Add take_item Done
proof (unfold_locales, goal_cases)
  case (5 q q' x)
  then have "q_queue q \<noteq> [] \<and> x = hd (q_queue q)"
    by (auto simp: take_item_Some Get_def split: list.splits if_splits)
  then have "x \<in> set (q_queue q)" by auto
  with 5(1) show ?case by (auto simp: wq_ok_def)
next
  case (6 q q' x)
  then show ?case by (auto simp: take_item_Some Get_def split: list.splits if_splits)
next
  case (7 q)
  then show ?case by (auto simp: take_item_None wq_ok_def)
qed (simp_all add: Add_ok Done_ok Add_sets Done_sets take_item_Some Get_ok)

section \<open>Properties\<close>

text \<open>An operation of the queue, as goroutines make them in some order.\<close>

datatype queue_op =
    OpAdd item | OpGet | OpDone item | OpForget item | OpAddRateLimited time time item
  | OpFire time item | OpShutDown

fun run_op :: "queue_op \<Rightarrow> wq \<Rightarrow> wq" where
  "run_op (OpAdd x) q = Add x q"
| "run_op OpGet q = fst (Get q)"
| "run_op (OpDone x) q = (if x \<in> q_processing q then Done x q else q)"
| "run_op (OpForget x) q = Forget x q"
| "run_op (OpAddRateLimited b now x) q = AddRateLimited b now x q"
| "run_op (OpFire now x) q = fire now x q"
| "run_op OpShutDown q = ShutDown q"

lemma run_op_ok: "wq_ok q \<Longrightarrow> wq_ok (run_op a q)"
  using Get_ok [of q] by (cases a) (auto simp: Add_ok Done_ok other_ops_ok AddRateLimited_ok fire_ok
      intro: Get_ok [OF _ prod.collapse [symmetric]])

text \<open>
  C23: The queue's invariant. After any sequence of operations (where only items being
  processed are marked done) the queue lists, each once, exactly the dirty items that are
  not being processed; so an item is never handed to a second worker while one holds it,
  and an item marked dirty is never forgotten: either it is in the queue, or its worker
  will put it back when done.
\<close>

theorem queue_invariant:
  fixes ops :: "queue_op list"
  defines "q \<equiv> fold run_op ops NewQueue"
  shows "distinct (q_queue q) \<and> set (q_queue q) = q_dirty q - q_processing q \<and>
    (\<forall>q' x. Get q = (q', Got x) \<longrightarrow> x \<notin> q_processing q \<and> x \<in> q_dirty q) \<and>
    (\<forall>x. x \<in> q_dirty q \<longrightarrow> x \<in> set (q_queue q) \<or> x \<in> q_processing q \<and> x \<in> set (q_queue (Done x q)))"
proof -
  have "wq_ok (fold run_op ops q0)" if "wq_ok q0" for q0
    using that by (induction ops arbitrary: q0) (simp_all add: run_op_ok)
  then have ok: "wq_ok q" by (simp add: q_def NewQueue_ok)
  have "x \<notin> q_processing q \<and> x \<in> q_dirty q" if "Get q = (q', Got x)" for q' x
    using workqueue.take_item [OF ok] that by (simp add: take_item_Some)
  moreover have "x \<in> set (q_queue q) \<or> x \<in> q_processing q \<and> x \<in> set (q_queue (Done x q))"
    if "x \<in> q_dirty q" for x
    using that ok by (auto simp: wq_ok_def Done_def Let_def)
  ultimately show ?thesis using ok unfolding wq_ok_def by blast
qed

theorem queue_invariant_witness:
  "set (q_queue (fold run_op [OpAdd (KeyItem ''a''), OpGet, OpAdd (KeyItem ''a''), OpAdd (KeyItem ''b'')] NewQueue)) =
     {KeyItem ''b''}"
proof -
  let ?q = "fold run_op [OpAdd (KeyItem ''a''), OpGet, OpAdd (KeyItem ''a''), OpAdd (KeyItem ''b'')] NewQueue"
  have "q_dirty ?q = {KeyItem ''a'', KeyItem ''b''}" "q_processing ?q = {KeyItem ''a''}"
    by (auto simp: Add_def Get_def NewQueue_def Let_def)
  then show ?thesis
    using queue_invariant [of "[OpAdd (KeyItem ''a''), OpGet, OpAdd (KeyItem ''a''), OpAdd (KeyItem ''b'')]"]
    by auto
qed

text \<open>
  The delay before a rate-limited item is added: it starts at 5 milliseconds, doubles
  with every call for the item until the cap of 1000 seconds, never decreases, starts
  again after \<open>Forget\<close>, and the call counts as one failure of the item.
\<close>

theorem backoff_delays:
  "item_backoff 0 = baseDelay \<and>
   item_backoff (Suc n) = min maxDelay (2 * item_backoff n) \<and>
   baseDelay \<le> item_backoff n \<and> item_backoff n \<le> maxDelay \<and>
   item_backoff n \<le> item_backoff (Suc n) \<and>
   failures (AddRateLimited bucket now x q) x = failures q x + 1 \<and>
   item_backoff (failures (Forget x q) x) = baseDelay"
proof -
  have eq: "item_backoff n = min maxDelay (baseDelay * 2 ^ n)" for n
    by (simp add: item_backoff_def Let_def maxDelay_def min_def)
  have pos: "baseDelay \<le> baseDelay * 2 ^ n" by (simp add: baseDelay_def)
  have base: "baseDelay \<le> maxDelay" "0 \<le> maxDelay" by (simp_all add: baseDelay_def maxDelay_def)
  have suc: "min maxDelay (baseDelay * 2 ^ Suc n) = min maxDelay (2 * min maxDelay (baseDelay * 2 ^ n))"
    by (simp add: min_def maxDelay_def)
  have fl: "failures (Add y q') x = failures q' x" "failures (insert_waiting y t q') x = failures q' x"
    for y t q'
    by (auto simp: failures_def Add_def insert_waiting_def Let_def split: option.split)
  have "failures (AddRateLimited bucket now x q) x = failures q x + 1"
    by (simp add: AddRateLimited_def When_def Let_def AddAfter_def fl)
       (simp add: failures_def)
  moreover have "failures (Forget x q) x = 0" by (simp add: failures_def Forget_def)
  moreover have "baseDelay * 2 ^ n \<le> baseDelay * 2 ^ Suc n" by (simp add: baseDelay_def)
  ultimately show ?thesis
    using suc pos base unfolding eq by (auto simp: min_def)
qed

end
