(* ===== verification/Controller_Queue.thy ===== *)
theory Controller_Queue
  imports Reconcile Work_Queue
begin

text \<open>
  The controller around \<open>syncHandler\<close> (\<open>controller.go\<close>): the event handlers of the two
  informers, which put keys into the work queue, and the workers, which take them out.

  The controller's state is the queue and the world. The clock and the delay of the
  rate limiter's token bucket are parameters of the calls that consult them. A worker that finds
  the queue empty blocks in \<open>Get\<close>; a panic in \<open>syncHandler\<close> marks the item done (the
  deferred call runs) and takes the process down.
\<close>

section \<open>State and objects\<close>

record 'w controller =
  c_queue :: wq
  c_world :: "'w world"

text \<open>
  What an informer passes to a handler: an object with metadata, a tombstone for an object
  whose deletion was missed, or something else.
\<close>

datatype informer_obj =
    ApiObject "strmap ObjectMeta"
  | DeletedFinalStateUnknown string informer_obj
  | NotAnObject string

section \<open>Putting keys into the queue\<close>

definition handle_error :: "go_error \<Rightarrow> 'w controller \<Rightarrow> 'w controller" where
  "handle_error e c = c\<lparr>c_world := HandleError e (c_world c)\<rparr>"

text \<open>\<open>MetaNamespaceKeyFunc\<close> fails for what has no metadata; its message is cut short here.\<close>

definition enqueueCluster :: "time \<Rightarrow> time \<Rightarrow> informer_obj \<Rightarrow> 'w controller \<Rightarrow> 'w controller" where
  "enqueueCluster bucket now obj c =
     (case obj of
        ApiObject om \<Rightarrow>
          c\<lparr>c_queue := AddRateLimited bucket now (KeyItem (MetaNamespaceKeyFunc om)) (c_queue c)\<rparr>
      | _ \<Rightarrow> handle_error (MessageError ''object has no meta'') c)"

text \<open>The owner named by a controller reference of the right kind is looked up and enqueued.\<close>

definition handle_owned :: "time \<Rightarrow> time \<Rightarrow> strmap ObjectMeta \<Rightarrow> 'w controller \<Rightarrow> 'w controller" where
  "handle_owned bucket now om c =
     (case GetControllerOf om of
        None \<Rightarrow> c
      | Some ownerRef \<Rightarrow>
          (if or_Kind ownerRef \<noteq> ClusterCRDResourceKind then c
           else case BrokerClusters_Get (w_clusters (c_world c)) (om_Namespace om) (or_Name ownerRef) of
                  Inl err \<Rightarrow> c
                | Inr p \<Rightarrow>
                    enqueueCluster bucket now
                      (ApiObject (bc_ObjectMeta (cluster_at (w_heap (c_world c)) p))) c))"

definition handleObject :: "time \<Rightarrow> time \<Rightarrow> informer_obj \<Rightarrow> 'w controller \<Rightarrow> 'w controller" where
  "handleObject bucket now obj c =
     (case obj of
        ApiObject om \<Rightarrow> handle_owned bucket now om c
      | NotAnObject _ \<Rightarrow> handle_error (MessageError ''error decoding object, invalid type'') c
      | DeletedFinalStateUnknown _ obj' \<Rightarrow>
          (case obj' of
             ApiObject om \<Rightarrow> handle_owned bucket now om c
           | _ \<Rightarrow> handle_error (MessageError ''error decoding object tombstone, invalid type'') c))"

text \<open>
  The handlers registered by \<open>NewBrokerController\<close>. Deleting a cluster only logs; so does
  \<open>onClusterReady\<close>, which the update handler of stateful sets may call first.
\<close>

definition cluster_AddFunc :: "time \<Rightarrow> time \<Rightarrow> informer_obj \<Rightarrow> 'w controller \<Rightarrow> 'w controller" where
  "cluster_AddFunc bucket now obj c = enqueueCluster bucket now obj c"

definition cluster_UpdateFunc :: "time \<Rightarrow> time \<Rightarrow> informer_obj \<Rightarrow> informer_obj \<Rightarrow> 'w controller \<Rightarrow> 'w controller" where
  "cluster_UpdateFunc bucket now old new c = enqueueCluster bucket now new c"

definition onClusterDeleted :: "string \<Rightarrow> 'w controller \<Rightarrow> 'w controller" where
  "onClusterDeleted name c = c"

definition onClusterReady :: "string \<Rightarrow> 'w controller \<Rightarrow> 'w controller" where
  "onClusterReady name c = c"

definition cluster_DeleteFunc :: "informer_obj \<Rightarrow> 'w controller \<Rightarrow> 'w controller" where
  "cluster_DeleteFunc obj c = (case obj of ApiObject om \<Rightarrow> onClusterDeleted (om_Name om) c | _ \<Rightarrow> c)"

definition ss_UpdateFunc :: "time \<Rightarrow> time \<Rightarrow> StatefulSet \<Rightarrow> StatefulSet \<Rightarrow> 'w controller \<Rightarrow> 'w controller" where
  "ss_UpdateFunc bucket now old new c =
     (if om_ResourceVersion (ss_ObjectMeta new) = om_ResourceVersion (ss_ObjectMeta old) then c
      else
        (let c1 =
           (if ss_ReadyReplicas (ss_Status new) = ss_Replicas (ss_Status new)
            then (case om_Labels (ss_ObjectMeta new) of
                    None \<Rightarrow> c
                  | Some labels \<Rightarrow>
                      (case labels BrokerClusterLabel of
                         None \<Rightarrow> c | Some clusterName \<Rightarrow> onClusterReady clusterName c))
            else c)
         in handleObject bucket now (ApiObject (ss_ObjectMeta new)) c1))"

section \<open>Taking keys out\<close>

datatype worker_result = Blocked | Stopped | Proceed | Crashed

definition error_text :: "go_error \<Rightarrow> string" where
  "error_text e =
     (case e of StatusError _ m \<Rightarrow> m | MessageError m \<Rightarrow> m
      | ErrWaitTimeout \<Rightarrow> ''timed out waiting for the condition'')"

text \<open>
  What a worker does with the item it holds. \<open>queue.Done\<close> is deferred: it runs after the
  rest of the inner function, also when that panics; the error is reported afterwards.
\<close>

definition process_item :: "'w client \<Rightarrow> item \<Rightarrow> 'w controller \<Rightarrow> 'w controller \<times> worker_result" where
  "process_item cl obj c =
     (case obj of
        OtherItem v \<Rightarrow>
          (let c1 = c\<lparr>c_queue := Forget obj (c_queue c)\<rparr>;
               c2 = handle_error (MessageError (''expected string in queue but got '' @ v)) c1
           in (c2\<lparr>c_queue := Done obj (c_queue c2)\<rparr>, Proceed))
      | KeyItem key \<Rightarrow>
          (case syncHandler cl key (c_world c) of
             (w, Panicked) \<Rightarrow> (c\<lparr>c_world := w, c_queue := Done obj (c_queue c)\<rparr>, Crashed)
           | (w, Returned (Some err)) \<Rightarrow>
               (handle_error
                  (MessageError (''error syncing '' @ CHR 0x27 # key @ CHR 0x27 # '': '' @ error_text err))
                  (c\<lparr>c_world := w, c_queue := Done obj (c_queue c)\<rparr>), Proceed)
           | (w, Returned None) \<Rightarrow>
               (c\<lparr>c_world := w, c_queue := Done obj (Forget obj (c_queue c))\<rparr>, Proceed)))"

definition processNextWorkItem :: "'w client \<Rightarrow> 'w controller \<Rightarrow> 'w controller \<times> worker_result" where
  "processNextWorkItem cl c =
     (case Get (c_queue c) of
        (q, WouldBlock) \<Rightarrow> (c\<lparr>c_queue := q\<rparr>, Blocked)
      | (q, Shutdown) \<Rightarrow> (c\<lparr>c_queue := q\<rparr>, Stopped)
      | (q, Got obj) \<Rightarrow> process_item cl obj (c\<lparr>c_queue := q\<rparr>))"

text \<open>
  \<open>for m.processNextWorkItem() {}\<close>, run until it stops, blocks or crashes; \<open>n\<close> bounds the
  number of calls. A lone worker that nobody adds items for needs one call more than the
  queue is long.
\<close>

fun runWorker :: "nat \<Rightarrow> 'w client \<Rightarrow> 'w controller \<Rightarrow> 'w controller \<times> worker_result" where
  "runWorker 0 cl c = (c, Proceed)"
| "runWorker (Suc n) cl c =
     (case processNextWorkItem cl c of
        (c', Proceed) \<Rightarrow> runWorker n cl c'
      | (c', r) \<Rightarrow> (c', r))"

section \<open>Many workers\<close>

text \<open>
  The steps of the running controller: a worker takes an item or finishes the one it holds;
  an informer delivers an event; a waiting item's time comes; the queue shuts down; the
  rest of the system changes the world. \<open>held i\<close> is what worker \<open>i\<close> holds. A worker's
  \<open>syncHandler\<close> is one step with \<open>Done\<close>; other steps may come between \<open>Get\<close> and it.
\<close>

type_synonym 'w running = "'w controller \<times> (nat \<rightharpoonup> item)"

inductive step :: "'w client \<Rightarrow> 'w running \<Rightarrow> 'w running \<Rightarrow> bool" for cl where
  take_step: "held i = None \<Longrightarrow> take_item (c_queue c) = Some (q, x) \<Longrightarrow>
     step cl (c, held) (c\<lparr>c_queue := q\<rparr>, held(i \<mapsto> x))"
| finish_step: "held i = Some x \<Longrightarrow> process_item cl x c = (c', r) \<Longrightarrow>
     step cl (c, held) (c', held(i := None))"
| cluster_event: "step cl (c, held) (enqueueCluster bucket now obj c, held)"
| object_event: "step cl (c, held) (handleObject bucket now obj c, held)"
| fire_step: "step cl (c, held) (c\<lparr>c_queue := fire now x (c_queue c)\<rparr>, held)"
| shutdown_step: "step cl (c, held) (c\<lparr>c_queue := ShutDown (c_queue c)\<rparr>, held)"
| world_step: "step cl (c, held) (c\<lparr>c_world := w\<rparr>, held)"

inductive_cases stepE: "step cl (c, held) (c', held')"

inductive reachable :: "'w client \<Rightarrow> 'w running \<Rightarrow> bool" for cl where
  start: "reachable cl (\<lparr>c_queue = NewQueue, c_world = w\<rparr>, Map.empty)"
| advance: "reachable cl s \<Longrightarrow> step cl s s' \<Longrightarrow> reachable cl s'"

lemma queue_of_handle_error [simp]: "c_queue (handle_error e c) = c_queue c"
  by (simp add: handle_error_def)

lemma enqueue_queue:
  "c_queue (enqueueCluster bucket now obj c) = c_queue c \<or>
     (\<exists>x. c_queue (enqueueCluster bucket now obj c) = AddRateLimited bucket now x (c_queue c))"
  by (auto simp: enqueueCluster_def split: informer_obj.split)

lemma handleObject_queue:
  "c_queue (handleObject bucket now obj c) = c_queue c \<or>
     (\<exists>x. c_queue (handleObject bucket now obj c) = AddRateLimited bucket now x (c_queue c))"
  using enqueue_queue
  by (auto simp: handleObject_def handle_owned_def split: informer_obj.split option.split sum.split)

lemma process_item_queue:
  assumes "process_item cl x c = (c', r)"
  shows "c_queue c' = Done x (c_queue c) \<or> c_queue c' = Done x (Forget x (c_queue c))"
  using assms
  by (auto simp: process_item_def Let_def handle_error_def
      split: item.splits outcome.splits prod.splits option.splits)

lemma rate_limited_sets:
  "q_processing (AddRateLimited b now x q) = q_processing q"
  "q_dirty q \<subseteq> q_dirty (AddRateLimited b now x q)"
  "dom (q_waiting q) \<subseteq> dom (q_waiting (AddRateLimited b now x q))"
  "q_shuttingDown (AddRateLimited b now x q) = q_shuttingDown q"
  by (auto simp: AddRateLimited_def When_def Let_def AddAfter_def Add_sets insert_waiting_def
      split: option.split)

lemma fire_sets:
  "q_processing (fire now x q) = q_processing q"
  "q_dirty q \<subseteq> q_dirty (fire now x q)"
  "y \<in> q_dirty q \<or> q_waiting q y \<noteq> None \<Longrightarrow>
     y \<in> q_dirty (fire now x q) \<or> q_waiting (fire now x q) y \<noteq> None"
  by (auto simp: fire_def Add_sets split: option.split)

text \<open>
  The invariant of the running controller: the queue's own, the items being processed are
  those the workers hold, and no two workers hold the same.
\<close>

definition running_ok :: "'w running \<Rightarrow> bool" where
  "running_ok = (\<lambda>(c, held).
     wq_ok (c_queue c) \<and> ran held = q_processing (c_queue c) \<and>
     (\<forall>i j x. held i = Some x \<and> held j = Some x \<longrightarrow> i = j))"

lemma step_ok:
  assumes "step cl s s'" "running_ok s"
  shows "running_ok s'"
  using assms
proof (induction rule: step.induct)
  case (take_step held i c q x)
  then have ok: "wq_ok (c_queue c)" and ran: "ran held = q_processing (c_queue c)"
    by (simp_all add: running_ok_def)
  note sets = workqueue.take_sets [OF ok take_step(2)] workqueue.take_item [OF ok take_step(2)]
  have "ran (held(i \<mapsto> x)) = insert x (ran held)" using take_step(1) by (rule ran_map_upd)
  moreover have "x \<notin> ran held" using sets ran by simp
  ultimately show ?case
    using take_step workqueue.take_ok [OF ok take_step(2)] sets ran
    by (auto simp: running_ok_def ran_def)
next
  case (finish_step held i x c c' r)
  then have ok: "wq_ok (c_queue c)" and ran: "ran held = q_processing (c_queue c)"
    and inj: "\<forall>i j x. held i = Some x \<and> held j = Some x \<longrightarrow> i = j"
    by (simp_all add: running_ok_def)
  have x: "x \<in> q_processing (c_queue c)" using finish_step(1) ran by (auto simp: ran_def)
  have "y \<in> ran (held(i := None)) \<longleftrightarrow> y \<in> ran held - {x}" for y
  proof
    assume "y \<in> ran (held(i := None))"
    then obtain j where "j \<noteq> i" "held j = Some y" by (auto simp: ran_def split: if_splits)
    with inj finish_step(1) show "y \<in> ran held - {x}" by (auto simp: ran_def)
  next
    assume "y \<in> ran held - {x}"
    then obtain j where "held j = Some y" "y \<noteq> x" by (auto simp: ran_def)
    with finish_step(1) have "(held(i := None)) j = Some y" by auto
    then show "y \<in> ran (held(i := None))" by (rule ranI)
  qed
  then have ran': "ran (held(i := None)) = ran held - {x}" by blast
  have px: "q_processing (Forget x (c_queue c)) = q_processing (c_queue c)" by (simp add: Forget_def)
  have "wq_ok (Forget x (c_queue c))" using ok by (simp add: other_ops_ok)
  then have "wq_ok (Done x (Forget x (c_queue c)))" using x px by (intro Done_ok) simp_all
  then have "wq_ok (c_queue c') \<and> q_processing (c_queue c') = q_processing (c_queue c) - {x}"
    using process_item_queue [OF finish_step(2)] Done_ok [OF ok x] px
    by (elim disjE) (simp_all add: Done_sets)
  moreover have "j = k" if "(held(i := None)) j = Some y" "(held(i := None)) k = Some y" for j k y
    using that inj by (auto split: if_splits)
  ultimately show ?case using ran ran' unfolding running_ok_def by blast
next
  case (cluster_event c held bucket now obj)
  then show ?case
    using enqueue_queue [of bucket now obj c] AddRateLimited_ok rate_limited_sets(1)
    by (auto simp: running_ok_def)
next
  case (object_event c held bucket now obj)
  then show ?case
    using handleObject_queue [of bucket now obj c] AddRateLimited_ok rate_limited_sets(1)
    by (auto simp: running_ok_def)
next
  case (fire_step c held now x)
  then show ?case by (auto simp: running_ok_def fire_ok fire_sets)
next
  case (shutdown_step c held)
  then show ?case by (auto simp: running_ok_def other_ops_ok) (simp_all add: ShutDown_def)
next
  case (world_step c held w)
  then show ?case by (simp add: running_ok_def)
qed

lemma reachable_ok: "reachable cl s \<Longrightarrow> running_ok s"
proof (induction rule: reachable.induct)
  case (start w)
  show ?case by (simp add: running_ok_def NewQueue_ok) (simp add: NewQueue_def)
next
  case (advance s s')
  then show ?case by (blast intro: step_ok)
qed

text \<open>
  C18: However many workers run and however events, timers and cache changes interleave, no
  two workers ever process the same key at the same time; what they hold is what the queue
  counts as being processed; and whenever no item can be taken although some are dirty,
  every dirty item is held by a worker, who will put it back.
\<close>

theorem no_concurrent_sync:
  assumes "reachable cl (c, held)"
  shows "(\<forall>i j x. held i = Some x \<and> held j = Some x \<longrightarrow> i = j) \<and>
    ran held = q_processing (c_queue c) \<and>
    (take_item (c_queue c) = None \<longrightarrow> (\<forall>x \<in> q_dirty (c_queue c). \<exists>i. held i = Some x))"
proof -
  have ok: "running_ok (c, held)" by (rule reachable_ok [OF assms])
  then have q: "wq_ok (c_queue c)" and ran: "ran held = q_processing (c_queue c)"
    by (simp_all add: running_ok_def)
  have "\<exists>i. held i = Some x" if "take_item (c_queue c) = None" "x \<in> q_dirty (c_queue c)" for x
    using workqueue.take_none [OF q that(1)] that(2) ran by (auto simp: ran_def)
  then show ?thesis using ok by (auto simp: running_ok_def)
qed

text \<open>
  C19: No event is lost. An item that is dirty or waiting for its time stays so through every
  step of the running controller, until a worker takes it.
\<close>

theorem no_lost_item:
  assumes step: "step cl (c, held) (c', held')"
    and todo: "x \<in> q_dirty (c_queue c) \<or> q_waiting (c_queue c) x \<noteq> None"
  shows "x \<in> q_dirty (c_queue c') \<or> q_waiting (c_queue c') x \<noteq> None \<or>
    (\<exists>i. held i = None \<and> held' i = Some x)"
  using step
proof (cases rule: stepE [consumes 1])
  case (1 i q y)
  then have "q_dirty q = q_dirty (c_queue c) - {y}" "q_waiting q = q_waiting (c_queue c)"
    by (auto simp: take_item_Some Get_def split: list.splits if_splits)
  with 1 todo show ?thesis by (cases "x = y") auto
next
  case (2 i y r)
  then show ?thesis using process_item_queue [OF 2(3)] todo by (auto simp: Done_sets Forget_def)
next
  case (3 bucket now obj)
  then show ?thesis
    using enqueue_queue [of bucket now obj c] rate_limited_sets(2,3) todo by (auto simp: dom_def) blast+
next
  case (4 bucket now obj)
  then show ?thesis
    using handleObject_queue [of bucket now obj c] rate_limited_sets(2,3) todo by (auto simp: dom_def) blast+
next
  case (5 now y)
  then show ?thesis using fire_sets(3) [OF todo] by auto
next
  case 6
  then show ?thesis using todo by (auto simp: ShutDown_def)
next
  case (7 w)
  then show ?thesis using todo by auto
qed

text \<open>A short run: a cluster is enqueued, its time comes, worker 0 takes the key.\<close>

definition sample_controller :: "time controller" where
  "sample_controller = \<lparr>c_queue = NewQueue\<lparr>q_processing := {KeyItem ''ns/a''},
      q_failures := [KeyItem ''ns/a'' \<mapsto> 1]\<rparr>, c_world = sample_world\<rparr>"

lemma sample_reachable:
  "reachable accepting_client (sample_controller, [0 \<mapsto> KeyItem ''ns/a''])"
proof -
  let ?om = "empty_meta\<lparr>om_Namespace := ''ns'', om_Name := ''a''\<rparr> :: strmap ObjectMeta"
  let ?c0 = "\<lparr>c_queue = NewQueue, c_world = sample_world\<rparr>"
  let ?c1 = "enqueueCluster 0 0 (ApiObject ?om) ?c0"
  let ?c2 = "?c1\<lparr>c_queue := fire baseDelay (KeyItem ''ns/a'') (c_queue ?c1)\<rparr>"
  have "reachable accepting_client (?c2, Map.empty)"
    by (rule advance [OF advance [OF start cluster_event] fire_step])
  moreover have q1: "c_queue ?c1 = NewQueue\<lparr>q_failures := [KeyItem ''ns/a'' \<mapsto> 1],
      q_waiting := [KeyItem ''ns/a'' \<mapsto> baseDelay]\<rparr>"
    by (simp add: enqueueCluster_def MetaNamespaceKeyFunc_def empty_meta_def AddRateLimited_def When_def
        Let_def failures_def item_backoff_def AddAfter_def insert_waiting_def NewQueue_def baseDelay_def
        maxDelay_def)
  moreover have "take_item (c_queue ?c2) = Some (c_queue sample_controller, KeyItem ''ns/a'')"
    unfolding sample_controller_def controller.simps q1
    by (simp add: fire_def NewQueue_def Add_def Let_def take_item_Some Get_def)
  ultimately have "reachable accepting_client (?c2\<lparr>c_queue := c_queue sample_controller\<rparr>,
      [0 \<mapsto> KeyItem ''ns/a''])"
    by (intro advance [OF _ take_step]) auto
  moreover have "?c2\<lparr>c_queue := c_queue sample_controller\<rparr> = sample_controller"
    by (simp add: sample_controller_def enqueueCluster_def)
  ultimately show ?thesis by simp
qed

theorem no_concurrent_sync_witness:
  "ran [0 :: nat \<mapsto> KeyItem ''ns/a''] = q_processing (c_queue sample_controller)"
  using no_concurrent_sync [OF sample_reachable] by blast

definition waiting_controller :: "time controller" where
  "waiting_controller = \<lparr>c_queue = NewQueue\<lparr>q_waiting := [KeyItem ''ns/a'' \<mapsto> 3]\<rparr>, c_world = sample_world\<rparr>"

theorem no_lost_item_witness:
  "KeyItem ''ns/a'' \<in> q_dirty (fire 5 (KeyItem ''ns/a'') (c_queue waiting_controller))"
proof -
  have todo: "KeyItem ''ns/a'' \<in> q_dirty (c_queue waiting_controller) \<or>
     q_waiting (c_queue waiting_controller) (KeyItem ''ns/a'') \<noteq> None"
    by (simp add: waiting_controller_def)
  have step: "step accepting_client (waiting_controller, Map.empty)
      (waiting_controller\<lparr>c_queue := fire 5 (KeyItem ''ns/a'') (c_queue waiting_controller)\<rparr>, Map.empty)"
    by (rule fire_step)
  moreover have "q_waiting (fire 5 (KeyItem ''ns/a'') (c_queue waiting_controller)) (KeyItem ''ns/a'') = None"
    by (simp add: waiting_controller_def fire_def Add_def Let_def NewQueue_def)
  ultimately show ?thesis using no_lost_item [OF step todo] by simp
qed

section \<open>Errors\<close>

text \<open>
  C20: A key whose reconciliation failed is not requeued. After \<open>syncHandler\<close> returned an
  error, the worker marks the item done and reports the error; nothing adds the item again:
  if no event marked it dirty or waiting meanwhile, it is neither dirty nor waiting nor in
  the queue afterwards. It is not forgotten by the rate limiter either, so its next event
  is delayed more.
\<close>

theorem failed_key_not_requeued:
  assumes failed: "syncHandler cl key (c_world c) = (w, Returned (Some err))"
    and run: "process_item cl (KeyItem key) c = (c', r)" and ok: "wq_ok (c_queue c)"
    and no_event: "KeyItem key \<notin> q_dirty (c_queue c)" "q_waiting (c_queue c) (KeyItem key) = None"
  shows "r = Proceed \<and> KeyItem key \<notin> q_dirty (c_queue c') \<and> KeyItem key \<notin> set (q_queue (c_queue c')) \<and>
    q_waiting (c_queue c') (KeyItem key) = None \<and>
    failures (c_queue c') (KeyItem key) = failures (c_queue c) (KeyItem key) \<and>
    length (w_errors (c_world c')) = Suc (length (w_errors w))"
proof -
  have "c' = handle_error (MessageError (''error syncing '' @ CHR 0x27 # key @ CHR 0x27 # '': '' @ error_text err))
      (c\<lparr>c_world := w, c_queue := Done (KeyItem key) (c_queue c)\<rparr>)" "r = Proceed"
    using failed run by (simp_all add: process_item_def)
  moreover have "KeyItem key \<notin> set (q_queue (c_queue c))" using ok no_event(1) by (auto simp: wq_ok_def)
  ultimately show ?thesis
    using no_event
    by (simp add: Done_sets failures_def handle_error_def HandleError_def)
       (simp add: Done_def Let_def)
qed

theorem failed_key_not_requeued_witness:
  "\<exists>c' err. snd (syncHandler accepting_client sample_key foreign_world) = Returned (Some err) \<and>
     process_item accepting_client (KeyItem sample_key)
       \<lparr>c_queue = NewQueue\<lparr>q_processing := {KeyItem sample_key}\<rparr>, c_world = foreign_world\<rparr> = (c', Proceed) \<and>
     KeyItem sample_key \<notin> q_dirty (c_queue c')"
proof -
  let ?c = "\<lparr>c_queue = NewQueue\<lparr>q_processing := {KeyItem sample_key}\<rparr>, c_world = foreign_world\<rparr>"
  obtain w err where "syncHandler accepting_client sample_key foreign_world = (w, Returned (Some err))"
    using foreign_sync by blast
  then have failed: "syncHandler accepting_client sample_key (c_world ?c) = (w, Returned (Some err))" by simp
  obtain c' r where run: "process_item accepting_client (KeyItem sample_key) ?c = (c', r)" by fastforce
  have "wq_ok (c_queue ?c)" "KeyItem sample_key \<notin> q_dirty (c_queue ?c)"
    "q_waiting (c_queue ?c) (KeyItem sample_key) = None"
    by (simp_all add: wq_ok_def NewQueue_def)
  from failed_key_not_requeued [OF failed run this] show ?thesis using failed run by auto
qed

section \<open>A worker\<close>

text \<open>
  One call with no other worker about: the first key leaves the queue for good.
\<close>

definition lone :: "'w controller \<Rightarrow> bool" where
  "lone c \<longleftrightarrow> wq_ok (c_queue c) \<and> q_processing (c_queue c) = {}"

lemma processNextWorkItem_empty:
  "q_queue (c_queue c) = [] \<Longrightarrow>
     processNextWorkItem cl c = (c, if q_shuttingDown (c_queue c) then Stopped else Blocked)"
  by (simp add: processNextWorkItem_def Get_def)

lemma processNextWorkItem_first:
  assumes lone: "lone c" and queue: "q_queue (c_queue c) = x # rest"
    and run: "processNextWorkItem cl c = (c', r)"
  shows "r = Proceed \<or> r = Crashed" "lone c'" "q_queue (c_queue c') = rest"
    "q_shuttingDown (c_queue c') = q_shuttingDown (c_queue c)"
proof -
  obtain q where get: "Get (c_queue c) = (q, Got x)"
    and q: "q_queue q = rest" "q_dirty q = q_dirty (c_queue c) - {x}" "q_processing q = {x}"
      "q_shuttingDown q = q_shuttingDown (c_queue c)"
    using queue lone by (simp add: Get_def lone_def)
  then have proc: "process_item cl x (c\<lparr>c_queue := q\<rparr>) = (c', r)"
    using run by (simp add: processNextWorkItem_def)
  then show "r = Proceed \<or> r = Crashed"
    by (auto simp: process_item_def Let_def split: item.splits outcome.splits prod.splits option.splits)
  have ok: "distinct (x # rest)" "set (x # rest) = q_dirty (c_queue c)"
    using lone queue by (simp_all add: lone_def wq_ok_def)
  have "c_queue c' = Done x q \<or> c_queue c' = Done x (Forget x q)"
    using process_item_queue [OF proc] by simp
  then show "lone c'" "q_queue (c_queue c') = rest"
    "q_shuttingDown (c_queue c') = q_shuttingDown (c_queue c)"
    using q ok by (auto simp: lone_def wq_ok_def Done_def Forget_def Let_def)
qed

text \<open>
  C21: A worker drains the queue. With no other worker and no new events, one call more than
  there are keys in the queue suffices for \<open>runWorker\<close> to come to its end: it has processed
  every key once, in order, the queue and the dirty set are empty, and it stops if the
  queue is shutting down and blocks otherwise; unless a reconciliation panics.
\<close>

theorem worker_drains:
  assumes "lone c" "runWorker (Suc (length (q_queue (c_queue c)))) cl c = (c', r)"
  shows "r = Crashed \<or>
    (r = (if q_shuttingDown (c_queue c) then Stopped else Blocked) \<and>
     q_queue (c_queue c') = [] \<and> q_dirty (c_queue c') = {})"
  using assms
proof (induction "q_queue (c_queue c)" arbitrary: c)
  case Nil
  then show ?case
    using processNextWorkItem_empty [of c cl] by (auto simp: lone_def wq_ok_def)
next
  case (Cons x rest)
  obtain c1 r1 where one: "processNextWorkItem cl c = (c1, r1)" by fastforce
  note first = processNextWorkItem_first [OF Cons.prems(1) Cons.hyps(2) [symmetric] one]
  show ?case
  proof (cases "r1 = Crashed")
    case True
    then show ?thesis using Cons.prems(2) one by simp
  next
    case False
    then have "runWorker (Suc (length rest)) cl c1 = (c', r)"
      using Cons.prems(2) first(1) one by (simp flip: Cons.hyps(2))
    then show ?thesis
      using Cons.hyps(1) [OF _ first(2)] first(3,4) by (auto split: if_splits)
  qed
qed

definition busy_controller :: "time controller" where
  "busy_controller = \<lparr>c_queue = Add (KeyItem ''ns/gone'') NewQueue, c_world = sample_world\<lparr>w_clusters := Map.empty\<rparr>\<rparr>"

lemma busy_queue: "c_queue busy_controller =
    NewQueue\<lparr>q_queue := [KeyItem ''ns/gone''], q_dirty := {KeyItem ''ns/gone''}\<rparr>"
  by (simp add: busy_controller_def Add_def NewQueue_def Let_def)

lemma busy_run: "snd (runWorker 2 accepting_client busy_controller) \<noteq> Crashed"
proof -
  have "\<exists>w. syncHandler accepting_client ''ns/gone'' (sample_world\<lparr>w_clusters := Map.empty\<rparr>) = (w, Returned None)"
    by (simp add: syncHandler_def BrokerClusters_Get_def GetByKey_def split: sum.split)
  then obtain w where w: "syncHandler accepting_client ''ns/gone'' (c_world busy_controller) = (w, Returned None)"
    by (auto simp: busy_controller_def)
  have "processNextWorkItem accepting_client busy_controller =
     (busy_controller\<lparr>c_world := w, c_queue := NewQueue\<rparr>, Proceed)"
    by (simp add: processNextWorkItem_def busy_queue Get_def process_item_def w)
       (simp add: Done_def Forget_def Let_def NewQueue_def)
  then show ?thesis
    by (simp add: numeral_2_eq_2 processNextWorkItem_def Get_def NewQueue_def)
qed

theorem worker_drains_witness:
  "q_queue (c_queue (fst (runWorker 2 accepting_client busy_controller))) = [] \<and>
     snd (runWorker 2 accepting_client busy_controller) = Blocked"
proof -
  obtain c' r where run: "runWorker 2 accepting_client busy_controller = (c', r)" by fastforce
  then have run': "runWorker (Suc (length (q_queue (c_queue busy_controller)))) accepting_client busy_controller = (c', r)"
    by (simp add: busy_queue numeral_2_eq_2)
  have "lone busy_controller" by (simp add: lone_def busy_queue wq_ok_def) (simp add: NewQueue_def)
  from worker_drains [OF this run'] busy_run run show ?thesis by (simp add: busy_queue) (simp add: NewQueue_def)
qed

section \<open>From an event to the cluster it belongs to\<close>

lemma owned_event:
  fixes om :: "strmap ObjectMeta"
  defines "v \<equiv> \<lambda>c :: 'w controller. \<lambda>p. bc_ObjectMeta (cluster_at (w_heap (c_world c)) p)"
  assumes owner: "GetControllerOf om = Some (NewControllerRef (v c p) BrokerClusterGVK)"
    and ns: "om_Namespace om = om_Namespace (v c p)" "om_Namespace (v c p) \<noteq> ''''"
    and slash: "no_slash (om_Namespace (v c p))" "no_slash (om_Name (v c p))"
    and cached: "GetByKey (w_clusters (c_world c)) (MetaNamespaceKeyFunc (v c p)) = Some p"
  shows "handleObject bucket now (ApiObject om) c =
      c\<lparr>c_queue := AddRateLimited bucket now (KeyItem (MetaNamespaceKeyFunc (v c p))) (c_queue c)\<rparr>
    \<and> handleObject bucket now (DeletedFinalStateUnknown k (ApiObject om)) c = handleObject bucket now (ApiObject om) c
    \<and> syncHandler cl (MetaNamespaceKeyFunc (v c p)) (c_world c) = sync_cluster cl p (c_world c)"
proof -
  have key: "MetaNamespaceKeyFunc (v c p) = om_Namespace (v c p) @ ''/'' @ om_Name (v c p)"
    using ns(2) by (rule key_of_namespaced)
  have "SplitMetaNamespaceKey (MetaNamespaceKeyFunc (v c p)) = Inr (om_Namespace (v c p), om_Name (v c p))"
    unfolding key by (rule SplitMetaNamespaceKey_pair [OF slash])
  then have "syncHandler cl (MetaNamespaceKeyFunc (v c p)) (c_world c) = sync_cluster cl p (c_world c)"
    using cached [unfolded key] by (intro syncHandler_found) simp_all
  moreover have "handle_owned bucket now om c =
      c\<lparr>c_queue := AddRateLimited bucket now (KeyItem (MetaNamespaceKeyFunc (v c p))) (c_queue c)\<rparr>"
    using owner ns cached [unfolded key]
    by (simp add: handle_owned_def BrokerClusterGVK_def BrokerClusters_Get_def enqueueCluster_def v_def)
  ultimately show ?thesis by (simp add: handleObject_def)
qed

text \<open>
  An event for an object owned by a cluster leads to a reconciliation of that cluster.
  For an object whose controller reference is the one the builders set for a cached
  cluster, in the cluster's namespace, also when it arrives in a tombstone, the handler
  enqueues exactly one key, and \<open>syncHandler\<close> on that key works on that very cluster.
\<close>

theorem owned_event_reaches_owner:
  fixes om :: "strmap ObjectMeta"
  defines "v \<equiv> \<lambda>c :: 'w controller. \<lambda>p. bc_ObjectMeta (cluster_at (w_heap (c_world c)) p)"
  assumes owner: "GetControllerOf om = Some (NewControllerRef (v c p) BrokerClusterGVK)"
    and ns: "om_Namespace om = om_Namespace (v c p)" "om_Namespace (v c p) \<noteq> ''''"
    and slash: "no_slash (om_Namespace (v c p))" "no_slash (om_Name (v c p))"
    and cached: "GetByKey (w_clusters (c_world c)) (MetaNamespaceKeyFunc (v c p)) = Some p"
  shows "handleObject bucket now (ApiObject om) c =
      c\<lparr>c_queue := AddRateLimited bucket now (KeyItem (MetaNamespaceKeyFunc (v c p))) (c_queue c)\<rparr>
    \<and> handleObject bucket now (DeletedFinalStateUnknown k (ApiObject om)) c = handleObject bucket now (ApiObject om) c
    \<and> syncHandler cl (MetaNamespaceKeyFunc (v c p)) (c_world c) = sync_cluster cl p (c_world c)"
  using owner ns slash cached unfolding v_def by (rule owned_event)

lemma sample_owner:
  "om_Namespace (bc_ObjectMeta (cluster_at sample_heap 0)) = ''rocketmq-operator''"
  "om_Name (bc_ObjectMeta (cluster_at sample_heap 0)) = ''mybrokercluster''"
  "MetaNamespaceKeyFunc (bc_ObjectMeta (cluster_at sample_heap 0)) = sample_key"
  by (simp_all add: cluster_at_def sample_heap_def sample_obj_def MetaNamespaceKeyFunc_def)

theorem owned_event_reaches_owner_witness:
  "handleObject 0 0 (ApiObject (ss_ObjectMeta (NewStatefulSet (cluster_at sample_heap 0) 1)))
     \<lparr>c_queue = NewQueue, c_world = sample_world\<rparr> =
   \<lparr>c_queue = AddRateLimited 0 0 (KeyItem sample_key) NewQueue, c_world = sample_world\<rparr>"
proof -
  let ?c = "\<lparr>c_queue = NewQueue, c_world = sample_world\<rparr>"
  let ?om = "ss_ObjectMeta (NewStatefulSet (cluster_at sample_heap 0) 1)"
  have "GetControllerOf ?om = Some (NewControllerRef (bc_ObjectMeta (cluster_at (w_heap (c_world ?c)) 0)) BrokerClusterGVK)"
    by simp
  from owned_event_reaches_owner [OF this] show ?thesis
    using sample_owner sample_key_found(2) by (simp add: no_slash_def)
qed

end
