(* ===== verification/Convergence.thy ===== *)
theory Convergence
  imports Controller_Queue
begin

text \<open>
  How runs of the controller compose over time: what one run asked of the API server, once
  the informers have delivered it, is what the next run finds; and an event leads through
  the queue to a run.

  Between two runs the informers replace cached objects. \<open>delivered\<close> relates the stores
  before a run and after its calls have come back: objects stay and keep their controller,
  created objects are there as they were sent, a patched stateful set has the size of the
  document the patch was computed for. These are documented properties of the API server,
  its patches and the informers, and hypotheses here.
\<close>

section \<open>What the informers deliver\<close>

definition same_controller :: "'m ObjectMeta \<Rightarrow> 'n ObjectMeta \<Rightarrow> bool" where
  "same_controller om om' \<longleftrightarrow> GetControllerOf om' = GetControllerOf om"

definition services_delivered :: "(api_call \<times> go_error option) set \<Rightarrow> Service indexer \<Rightarrow> Service indexer \<Rightarrow> bool" where
  "services_delivered T old new \<longleftrightarrow>
     (\<forall>k s. GetByKey old k = Some s \<longrightarrow>
        (\<exists>s'. GetByKey new k = Some s' \<and> same_controller (svc_ObjectMeta s) (svc_ObjectMeta s'))) \<and>
     (\<forall>ns s. (CallCreateService ns s, None) \<in> T \<longrightarrow>
        (\<exists>s'. GetByKey new (ns @ ''/'' @ om_Name (svc_ObjectMeta s)) = Some s' \<and>
              same_controller (svc_ObjectMeta s) (svc_ObjectMeta s')))"

definition same_size :: "StatefulSet \<Rightarrow> StatefulSet \<Rightarrow> bool" where
  "same_size s s' \<longleftrightarrow> ss_SpecReplicas (ss_Spec s') = ss_SpecReplicas (ss_Spec s)"

text \<open>
  A stateful set no patch was sent for keeps its size; one that was patched successfully has
  the size of every document the patch was computed for.
\<close>

definition statefulsets_delivered ::
    "'w client \<Rightarrow> (api_call \<times> go_error option) set \<Rightarrow> StatefulSet indexer \<Rightarrow> StatefulSet indexer \<Rightarrow> bool" where
  "statefulsets_delivered cl T old new \<longleftrightarrow>
     (\<forall>k s. GetByKey old k = Some s \<longrightarrow>
        (\<exists>s'. GetByKey new k = Some s' \<and> same_controller (ss_ObjectMeta s) (ss_ObjectMeta s') \<and>
           ((\<forall>patch e. (patch_ss_call s patch, e) \<notin> T) \<longrightarrow> same_size s s') \<and>
           (\<forall>patch wanted. (patch_ss_call s patch, None) \<in> T \<and> merge_patch cl s wanted = Some patch \<longrightarrow>
              same_size wanted s'))) \<and>
     (\<forall>ns s. (CallCreateStatefulSet ns s, None) \<in> T \<longrightarrow>
        (\<exists>s'. GetByKey new (ns @ ''/'' @ om_Name (ss_ObjectMeta s)) = Some s' \<and>
              same_controller (ss_ObjectMeta s) (ss_ObjectMeta s') \<and> same_size s s'))"

definition delivered :: "'w client \<Rightarrow> (api_call \<times> go_error option) set \<Rightarrow> 'w world \<Rightarrow> 'w world \<Rightarrow> bool" where
  "delivered cl T w v \<longleftrightarrow>
     services_delivered T (w_services w) (w_services v) \<and>
     statefulsets_delivered cl T (w_statefulsets w) (w_statefulsets v)"

text \<open>The store files every object under its own key, as \<open>cache.Add\<close> does.\<close>

definition keyed :: "'w world \<Rightarrow> bool" where
  "keyed w \<longleftrightarrow> (\<forall>k s. GetByKey (w_statefulsets w) k = Some s \<longrightarrow>
     k = om_Namespace (ss_ObjectMeta s) @ ''/'' @ om_Name (ss_ObjectMeta s))"

text \<open>The same cluster, seen through two pointers in two worlds: identity and wanted size.\<close>

definition same_cluster :: "addr \<Rightarrow> 'w world \<Rightarrow> addr \<Rightarrow> 'w world \<Rightarrow> bool" where
  "same_cluster p w q v \<longleftrightarrow>
     (let c = cluster_at (w_heap (sized_world p w)) p; d = cluster_at (w_heap (sized_world q v)) q in
      om_Namespace (bc_ObjectMeta d) = om_Namespace (bc_ObjectMeta c) \<and>
      om_Name (bc_ObjectMeta d) = om_Name (bc_ObjectMeta c) \<and>
      om_UID (bc_ObjectMeta d) = om_UID (bc_ObjectMeta c) \<and>
      GroupReplica (Spec d) = GroupReplica (Spec c) \<and> MembersPerGroup (Spec d) = MembersPerGroup (Spec c))"

section \<open>The next run\<close>

lemma sized_meta:
  "bc_ObjectMeta (cluster_at (w_heap (defaulted_world p w)) p) =
   bc_ObjectMeta (cluster_at (w_heap (sized_world p w)) p)"
  by (simp add: cluster_at_def)

lemma same_cluster_facts:
  assumes "same_cluster p w q v"
  shows "groups q v = groups p w"
    and "lister_service q i (defaulted_world q v) =
      GetByKey (w_services v) (om_Namespace (bc_ObjectMeta (cluster_at (w_heap (defaulted_world p w)) p)) @ ''/'' @
        Sprintf_d (svc_name_format (cluster_at (w_heap (defaulted_world p w)) p)) i)"
    and "lister_ss q i (sized_world q v) =
      GetByKey (w_statefulsets v) (om_Namespace (bc_ObjectMeta (cluster_at (w_heap (sized_world p w)) p)) @ ''/'' @
        Sprintf_d (group_name_format (cluster_at (w_heap (sized_world p w)) p)) i)"
    and "same_controller (svc_ObjectMeta s) (svc_ObjectMeta s') \<Longrightarrow> owns_service p (defaulted_world p w) s \<Longrightarrow>
      owns_service q (defaulted_world q v) s'"
    and "same_controller (ss_ObjectMeta t) (ss_ObjectMeta t') \<Longrightarrow> owns_ss p (sized_world p w) t \<Longrightarrow>
      owns_ss q (sized_world q v) t'"
    and "same_size t t' \<Longrightarrow> right_size p (sized_world p w) t \<Longrightarrow> right_size q (sized_world q v) t'"
  using assms
  by (simp_all add: same_cluster_def Let_def groups_def lister_service_def lister_ss_def svc_name_format_def
      group_name_format_def owns_service_def owns_ss_def IsControlledBy_def same_controller_def same_size_def
      right_size_def sized_meta del: world_simps(15,16) split: option.splits)

lemma service_settled:
  assumes same: "same_cluster p w q v" and del: "services_delivered T (w_services w) (w_services v)"
    and present: "service_present p i (defaulted_world p w) T"
  shows "\<exists>s. lister_service q i (defaulted_world q v) = Some s \<and> owns_service q (defaulted_world q v) s"
proof (cases "lister_service p i (defaulted_world p w)")
  case None
  let ?c = "cluster_at (w_heap (defaulted_world p w)) p"
  have "(CallCreateService (om_Namespace (bc_ObjectMeta ?c)) (NewHeadlessService ?c i), None) \<in> T"
    using present None by (simp add: service_present_def create_service_call_def Let_def)
  then obtain s' where "GetByKey (w_services v) (om_Namespace (bc_ObjectMeta ?c) @ ''/'' @
      Sprintf_d (svc_name_format ?c) i) = Some s'"
    "same_controller (svc_ObjectMeta (NewHeadlessService ?c i)) (svc_ObjectMeta s')"
    using del unfolding services_delivered_def by (metis NewHeadlessService_meta(1))
  then show ?thesis
    using same_cluster_facts(2,4) [OF same]
    by (metis new_objects_controlled(1) owns_service_def)
next
  case (Some s)
  then have own: "owns_service p (defaulted_world p w) s" using present by (simp add: service_present_def)
  from Some obtain s' where "lister_service q i (defaulted_world q v) = Some s'"
    "same_controller (svc_ObjectMeta s) (svc_ObjectMeta s')"
    using del same_cluster_facts(2) [OF same]
    unfolding services_delivered_def lister_service_def Let_def by (metis world_simps(3))
  then show ?thesis using same_cluster_facts(4) [OF same _ own] by blast
qed

text \<open>
  The calls of a run, seen from a stateful set that had the right size: none was a patch of
  it, since every object is filed under its own key.
\<close>

lemma right_size_not_patched:
  assumes run: "run_trace cl p w t1 t2 t3" and keyed: "keyed w"
    and s: "GetByKey (w_statefulsets w) k = Some s" and size: "right_size p (sized_world p w) s"
  shows "(patch_ss_call s patch, e) \<notin> set (t1 @ t2 @ t3)"
proof
  assume "(patch_ss_call s patch, e) \<in> set (t1 @ t2 @ t3)"
  then have "(patch_ss_call s patch, e) \<in> set t2"
    using run by (fastforce simp: run_trace_def service_allowed_def create_service_call_def status_call_def
        wanted_status_def patch_ss_call_def Let_def)
  then obtain i where "ss_allowed cl p i (sized_world p w) (patch_ss_call s patch)"
    using run by (auto simp: run_trace_def)
  then obtain s' patch' where s': "lister_ss p i (sized_world p w) = Some s'"
    "\<not> right_size p (sized_world p w) s'" "patch_ss_call s patch = patch_ss_call s' patch'"
    by (auto simp: ss_allowed_def create_ss_call_def patch_ss_call_def split: option.splits)
  then have "om_Namespace (ss_ObjectMeta s) @ ''/'' @ om_Name (ss_ObjectMeta s) =
      om_Namespace (ss_ObjectMeta s') @ ''/'' @ om_Name (ss_ObjectMeta s')"
    by (simp add: patch_ss_call_def)
  then have "s = s'" using s s'(1) keyed by (auto simp: keyed_def lister_ss_def Let_def)
  then show False using size s'(2) by simp
qed

lemma ss_settled:
  assumes same: "same_cluster p w q v"
    and del: "statefulsets_delivered cl T (w_statefulsets w) (w_statefulsets v)"
    and present: "ss_present cl p i (sized_world p w) T"
    and kept: "\<And>k s patch e. GetByKey (w_statefulsets w) k = Some s \<Longrightarrow>
      right_size p (sized_world p w) s \<Longrightarrow> (patch_ss_call s patch, e) \<notin> T"
  shows "\<exists>s. lister_ss q i (sized_world q v) = Some s \<and> owns_ss q (sized_world q v) s \<and>
    right_size q (sized_world q v) s"
proof -
  let ?c = "cluster_at (w_heap (sized_world p w)) p" and ?w = "sized_world p w"
  let ?k = "om_Namespace (bc_ObjectMeta ?c) @ ''/'' @ Sprintf_d (group_name_format ?c) i"
  have wanted: "owns_ss p ?w (wanted_ss p i ?w)" "right_size p ?w (wanted_ss p i ?w)"
    by (simp_all add: owns_ss_def right_size_def wanted_ss_def)
  obtain s s' where s': "GetByKey (w_statefulsets v) ?k = Some s'" "owns_ss p ?w s"
    "same_controller (ss_ObjectMeta s) (ss_ObjectMeta s')"
    and size: "\<exists>t. same_size t s' \<and> right_size p ?w t"
  proof (cases "lister_ss p i ?w")
    case None
    then have "(CallCreateStatefulSet (om_Namespace (bc_ObjectMeta ?c)) (wanted_ss p i ?w), None) \<in> T"
      using present by (simp add: ss_present_def create_ss_call_def)
    then obtain s' where "GetByKey (w_statefulsets v) (om_Namespace (bc_ObjectMeta ?c) @ ''/'' @
        om_Name (ss_ObjectMeta (wanted_ss p i ?w))) = Some s'"
      "same_controller (ss_ObjectMeta (wanted_ss p i ?w)) (ss_ObjectMeta s')" "same_size (wanted_ss p i ?w) s'"
      using del unfolding statefulsets_delivered_def by blast
    then show thesis using that wanted by (auto simp: wanted_ss_def)
  next
    case (Some s)
    then have k: "GetByKey (w_statefulsets w) ?k = Some s" by (simp add: lister_ss_def Let_def)
    then obtain s' where s': "GetByKey (w_statefulsets v) ?k = Some s'"
      "same_controller (ss_ObjectMeta s) (ss_ObjectMeta s')"
      "(\<forall>patch e. (patch_ss_call s patch, e) \<notin> T) \<longrightarrow> same_size s s'"
      "\<forall>patch new. (patch_ss_call s patch, None) \<in> T \<and> merge_patch cl s new = Some patch \<longrightarrow> same_size new s'"
      using del unfolding statefulsets_delivered_def by blast
    from present Some have own: "owns_ss p ?w s"
      and "right_size p ?w s \<or> (\<exists>patch. merge_patch cl s (wanted_ss p i ?w) = Some patch \<and>
        (patch_ss_call s patch, None) \<in> T)"
      by (simp_all add: ss_present_def)
    then have "\<exists>t. same_size t s' \<and> right_size p ?w t"
      using s'(3,4) kept [OF k] wanted(2) by blast
    then show thesis using that s'(1,2) own by blast
  qed
  have "lister_ss q i (sized_world q v) = Some s'"
    using s'(1) same_cluster_facts(3) [OF same] by simp
  then show ?thesis
    using same_cluster_facts(5) [OF same s'(3,2)] same_cluster_facts(6) [OF same] size by blast
qed

lemma run_then_settled:
  assumes run: "sync_cluster cl p w = (w', Returned None)" and wf: "wf_ptr (w_heap w) p"
    and quiet: "quiet_for cl p" and keyed: "keyed w"
    and del: "delivered cl (set (drop (length (w_trace w)) (w_trace w'))) w v"
    and same: "same_cluster p w q v"
  shows "objects_settled q v"
proof -
  obtain t1 t2 t3 where tr: "w_trace w' = w_trace w @ t1 @ t2 @ t3" "run_trace cl p w t1 t2 t3"
    "all_services p w t1" "all_statefulsets cl p w t2"
    by (rule sync_trace [OF run wf quiet]) simp
  let ?T = "set (t1 @ t2 @ t3)"
  have del: "services_delivered ?T (w_services w) (w_services v)"
    "statefulsets_delivered cl ?T (w_statefulsets w) (w_statefulsets v)"
    using del by (simp_all add: delivered_def tr(1))
  show ?thesis
    unfolding objects_settled_def same_cluster_facts(1) [OF same]
  proof (intro allI impI conjI)
    fix i assume i: "0 \<le> i \<and> i < groups p w"
    have "service_present p i (defaulted_world p w) ?T" "ss_present cl p i (sized_world p w) ?T"
      using i tr(3,4) service_body.established_mono [of p i "defaulted_world p w" "set t1" ?T]
        ss_body.established_mono [of cl p i "sized_world p w" "set t2" ?T]
      by (auto simp: all_services_def all_statefulsets_def)
    then show "\<exists>s. lister_service q i (defaulted_world q v) = Some s \<and> owns_service q (defaulted_world q v) s"
      "\<exists>s. lister_ss q i (sized_world q v) = Some s \<and> owns_ss q (sized_world q v) s \<and>
         right_size q (sized_world q v) s"
      using service_settled [OF same del(1)] ss_settled [OF same del(2)]
        right_size_not_patched [OF tr(2) keyed] by blast+
  qed
qed

section \<open>Two runs\<close>

text \<open>
  Reconciliation converges. Let a run on a cluster return nil, and let the informers
  deliver what it asked the API server for. Then the next run on that cluster, wherever the
  cache now holds it, creates nothing and patches nothing: all it may send are updates of
  the status. It does not panic, and if it returns an error it is the status update's.
\<close>

theorem second_run_settles:
  assumes run: "syncHandler cl key w = (w', Returned None)"
    and key: "SplitMetaNamespaceKey key = Inr (ns, n)"
    and found: "GetByKey (w_clusters w) (ns @ ''/'' @ n) = Some p"
    and wf: "wf_ptr (w_heap w) p" "quiet_for cl p" "keyed w"
    and later: "delivered cl (set (drop (length (w_trace w)) (w_trace w'))) w v" "same_cluster p w q v"
      "GetByKey (w_clusters v) (ns @ ''/'' @ n) = Some q" "wf_ptr (w_heap v) q" "quiet_for cl q"
    and next_run: "syncHandler cl key v = (v', out)"
  shows "\<exists>t. w_trace v' = w_trace v @ t \<and> (\<forall>(c, e) \<in> set t. status_call c) \<and>
    (out = Returned None \<or> (\<exists>e. out = Returned (Some e) \<and> t \<noteq> []))"
proof -
  have "objects_settled q v"
    using run_then_settled [OF _ wf later(1,2)] run by (simp add: syncHandler_found [OF key found])
  note settled = settled_run [OF this, of cl]
  let ?v = "sized_world q v"
  obtain v5 x where up: "updateClusterStatus cl q (int (card {i. 0 \<le> i \<and> i < groups q v \<and> group_ready q ?v i}))
      (\<Sum>i | 0 \<le> i \<and> i < groups q v \<and> group_ready q ?v i. group_members q ?v i) ?v = (v5, x)" by fastforce
  have "wf_ptr (w_heap ?v) q"
    using force_single_member_wf [OF EnsureDefaults_wf [OF later(4)]] by simp
  from updateClusterStatus_run(1) [OF up this later(5)]
  obtain t where "w_trace v5 = w_trace v @ t" "\<forall>(c, e) \<in> set t. status_call c" "x = None \<or> t \<noteq> []"
    using condition_of_ready_update unfolding status_call_def retried_def
    by (fastforce split: if_splits)
  then show ?thesis
    using next_run settled up
    by (cases x) (auto simp: syncHandler_found [OF key later(3)] record_event_def)
qed


text \<open>
  The first run on the sample cluster creates its four objects; \<open>converged_world\<close> holds them
  as created.
\<close>

lemma sample_delivered:
  assumes "run_trace accepting_client 0 sample_world t1 t2 t3"
  shows "delivered accepting_client (set (t1 @ t2 @ t3)) sample_world converged_world"
proof -
  have i: "i = 0 \<or> i = 1" if "0 \<le> i \<and> i < groups 0 sample_world" for i
    using that sample_groups by auto
  have at: "cluster_at (w_heap (sized_world 0 sample_world)) 0 = sample_defaulted"
    "cluster_at (w_heap (defaulted_world 0 sample_world)) 0 = sample_defaulted"
    using sample_heaps by (simp_all add: sample_defaulted_def converged_world_def)
  have svc: "\<exists>i. (i = 0 \<or> i = 1) \<and> ns = ''rocketmq-operator'' \<and> s = NewHeadlessService sample_defaulted i"
    if "(CallCreateService ns s, None) \<in> set (t1 @ t2 @ t3)" for ns s
  proof -
    have "(CallCreateService ns s, None) \<in> set t1"
      using that assms by (fastforce simp: run_trace_def ss_allowed_def create_ss_call_def patch_ss_call_def
          status_call_def wanted_status_def split: option.splits)
    then obtain i where "0 \<le> i \<and> i < groups 0 sample_world"
      "service_allowed 0 i (defaulted_world 0 sample_world) (CallCreateService ns s)"
      using assms by (fastforce simp: run_trace_def)
    then show ?thesis
      using i by (auto simp: service_allowed_def create_service_call_def at sample_defaulted_meta Let_def
          simp del: world_simps(15,16))
  qed
  have ss: "\<exists>i. (i = 0 \<or> i = 1) \<and> ns = ''rocketmq-operator'' \<and> s = NewStatefulSet sample_defaulted i"
    if "(CallCreateStatefulSet ns s, None) \<in> set (t1 @ t2 @ t3)" for ns s
  proof -
    have "(CallCreateStatefulSet ns s, None) \<in> set t2"
      using that assms by (fastforce simp: run_trace_def service_allowed_def create_service_call_def
          status_call_def wanted_status_def Let_def)
    then obtain i where "0 \<le> i \<and> i < groups 0 sample_world"
      "ss_allowed accepting_client 0 i (sized_world 0 sample_world) (CallCreateStatefulSet ns s)"
      using assms by (fastforce simp: run_trace_def)
    then show ?thesis
      using i by (auto simp: ss_allowed_def create_ss_call_def patch_ss_call_def wanted_ss_def at
          sample_defaulted_meta simp del: world_simps(15,16) split: option.splits)
  qed
  have "services_delivered (set (t1 @ t2 @ t3)) (w_services sample_world) (w_services converged_world)"
    unfolding services_delivered_def
  proof (intro conjI allI impI)
    fix ns s assume "(CallCreateService ns s, None) \<in> set (t1 @ t2 @ t3)"
    then obtain i where i: "i = 0 \<or> i = 1" "ns = ''rocketmq-operator''" "s = NewHeadlessService sample_defaulted i"
      using svc by blast
    have "GetByKey (w_services converged_world) (ns @ ''/'' @ om_Name (svc_ObjectMeta s)) = Some s"
      using i(1) by (elim disjE) (simp_all add: i GetByKey_def converged_world_def sample_defaulted_names)
    then show "\<exists>s'. GetByKey (w_services converged_world) (ns @ ''/'' @ om_Name (svc_ObjectMeta s)) = Some s' \<and>
        same_controller (svc_ObjectMeta s) (svc_ObjectMeta s')"
      by (simp add: same_controller_def)
  qed (simp_all add: GetByKey_def)
  moreover have "statefulsets_delivered accepting_client (set (t1 @ t2 @ t3)) (w_statefulsets sample_world)
      (w_statefulsets converged_world)"
    unfolding statefulsets_delivered_def
  proof (intro conjI allI impI)
    fix ns s assume "(CallCreateStatefulSet ns s, None) \<in> set (t1 @ t2 @ t3)"
    then obtain i where i: "i = 0 \<or> i = 1" "ns = ''rocketmq-operator''" "s = NewStatefulSet sample_defaulted i"
      using ss by blast
    have "GetByKey (w_statefulsets converged_world) (ns @ ''/'' @ om_Name (ss_ObjectMeta s)) = Some s"
      using i(1) by (elim disjE) (simp_all add: i GetByKey_def converged_world_def sample_defaulted_names)
    then show "\<exists>s'. GetByKey (w_statefulsets converged_world) (ns @ ''/'' @ om_Name (ss_ObjectMeta s)) = Some s' \<and>
        same_controller (ss_ObjectMeta s) (ss_ObjectMeta s') \<and> same_size s s'"
      by (simp add: same_controller_def same_size_def)
  qed (simp_all add: GetByKey_def)
  ultimately show ?thesis by (simp only: delivered_def)
qed

theorem second_run_settles_witness:
  "\<exists>t. w_trace (fst (syncHandler accepting_client sample_key converged_world)) = t \<and>
     list_all (\<lambda>(c, e). status_call c) t"
proof -
  obtain w' where run: "syncHandler accepting_client sample_key sample_world = (w', Returned None)"
    using sample_sync syncHandler_found [OF sample_key_found] by metis
  have wf: "wf_ptr (w_heap sample_world) 0" "wf_ptr (w_heap converged_world) 0"
    using sample_wf by (simp_all add: converged_world_def)
  obtain t1 t2 t3 where tr: "w_trace w' = w_trace sample_world @ t1 @ t2 @ t3"
    "run_trace accepting_client 0 sample_world t1 t2 t3"
    using run sync_trace [OF _ wf(1) quiet_for_samples(1)] syncHandler_found [OF sample_key_found] by metis
  have del: "delivered accepting_client (set (drop (length (w_trace sample_world)) (w_trace w')))
      sample_world converged_world"
    using sample_delivered [OF tr(2)] by (simp add: tr(1))
  have same: "same_cluster 0 sample_world 0 converged_world"
    by (simp add: same_cluster_def converged_world_def)
  have keyed: "keyed sample_world" by (simp add: keyed_def GetByKey_def)
  have found: "GetByKey (w_clusters converged_world) (''rocketmq-operator'' @ ''/'' @ ''mybrokercluster'') = Some 0"
    using sample_key_found(2) by (simp add: converged_world_def)
  obtain v' out where next_run: "syncHandler accepting_client sample_key converged_world = (v', out)" by fastforce
  have "w_trace converged_world = []" by (simp add: converged_world_def)
  with second_run_settles [OF run sample_key_found wf(1) quiet_for_samples(1) keyed del same found wf(2)
      quiet_for_samples(1) next_run]
  show ?thesis unfolding next_run by (auto simp: list_all_iff)
qed


section \<open>From an event to a run\<close>

lemma AddRateLimited_waits:
  assumes "\<not> q_shuttingDown q"
  obtains t where "q_waiting (AddRateLimited bucket now x q) x = Some t"
    and "q_queue (AddRateLimited bucket now x q) = q_queue q"
    and "q_dirty (AddRateLimited bucket now x q) = q_dirty q"
proof -
  let ?d = "snd (When bucket x q)" and ?q = "fst (When bucket x q)"
  have "0 < item_backoff (failures q x)"
    by (simp add: item_backoff_def Let_def baseDelay_def maxDelay_def)
  then have "0 < ?d" by (simp add: When_def Let_def)
  then have "AddRateLimited bucket now x q = insert_waiting x (now + ?d) ?q"
    using assms by (simp add: AddRateLimited_def AddAfter_def When_def Let_def)
  moreover have "q_queue ?q = q_queue q" "q_dirty ?q = q_dirty q" by (simp_all add: When_def Let_def)
  ultimately show thesis
    using that by (cases "q_waiting ?q x") (auto simp: insert_waiting_def split: if_splits)
qed

text \<open>Firing, taking and finishing an item of an idle queue are three steps of the system.\<close>

lemma fire_take_finish:
  assumes waits: "q_waiting (c_queue c) x = Some t" and idle: "\<not> q_shuttingDown (c_queue c)"
      "q_queue (c_queue c) = []" "x \<notin> q_dirty (c_queue c)" "x \<notin> q_processing (c_queue c)"
    and free: "held i = None"
  obtains c' r c2 where "(step cl)\<^sup>*\<^sup>* (c, held) (c', held)" "process_item cl x c2 = (c', r)"
    "c_world c2 = c_world c"
proof -
  let ?c1 = "c\<lparr>c_queue := fire t x (c_queue c)\<rparr>"
  have q1: "q_queue (c_queue ?c1) = [x]" using waits idle by (simp add: fire_def Add_def Let_def)
  then obtain q2 where take: "take_item (c_queue ?c1) = Some (q2, x)" by (simp add: take_item_Some Get_def)
  let ?c2 = "?c1\<lparr>c_queue := q2\<rparr>"
  obtain c' r where fin: "process_item cl x ?c2 = (c', r)" by fastforce
  have "step cl (c, held) (?c1, held)" by (rule fire_step)
  moreover have "step cl (?c1, held) (?c2, held(i \<mapsto> x))" using free take by (rule take_step)
  moreover have "step cl (?c2, held(i \<mapsto> x)) (c', (held(i \<mapsto> x))(i := None))"
    by (rule finish_step [OF _ fin]) simp
  moreover have "(held(i \<mapsto> x))(i := None) = held" using free by auto
  ultimately have "(step cl)\<^sup>*\<^sup>* (c, held) (c', held)"
    by (metis converse_rtranclp_into_rtranclp rtranclp.rtrancl_refl)
  then show thesis using that fin by simp
qed

lemma process_key_world:
  assumes "process_item cl (KeyItem key) c = (c', r)"
  shows "c_world c' = fst (syncHandler cl key (c_world c)) \<or>
    (\<exists>e. c_world c' = HandleError e (fst (syncHandler cl key (c_world c))))"
  using assms
  by (auto simp: process_item_def handle_error_def split: prod.splits outcome.splits option.splits)

text \<open>
  An event leads to a reconciliation. When an informer reports an object owned by a
  cached cluster, the queue is idle and not shut down, and a worker is free, then the system
  can step from the event, through the queue's delay and the worker, to a state in which
  the handler has run on that cluster, starting from the world of the event (and only an
  error it returned has been logged in addition); all workers are free again as before.
\<close>

lemma event_runs_handler:
  fixes om :: "strmap ObjectMeta"
  defines "v \<equiv> \<lambda>c :: 'w controller. \<lambda>p. bc_ObjectMeta (cluster_at (w_heap (c_world c)) p)"
    and "x \<equiv> \<lambda>c :: 'w controller. \<lambda>p. KeyItem (MetaNamespaceKeyFunc (bc_ObjectMeta (cluster_at (w_heap (c_world c)) p)))"
  assumes owner: "GetControllerOf om = Some (NewControllerRef (v c p) BrokerClusterGVK)"
    and ns: "om_Namespace om = om_Namespace (v c p)" "om_Namespace (v c p) \<noteq> ''''"
    and slash: "no_slash (om_Namespace (v c p))" "no_slash (om_Name (v c p))"
    and cached: "GetByKey (w_clusters (c_world c)) (MetaNamespaceKeyFunc (v c p)) = Some p"
    and idle: "\<not> q_shuttingDown (c_queue c)" "q_queue (c_queue c) = []"
      "x c p \<notin> q_dirty (c_queue c)" "x c p \<notin> q_processing (c_queue c)"
    and free: "held i = None"
  shows "\<exists>c'. (step cl)\<^sup>*\<^sup>* (handleObject bucket now (ApiObject om) c, held) (c', held) \<and>
    (c_world c' = fst (sync_cluster cl p (c_world c)) \<or>
     (\<exists>e. c_world c' = HandleError e (fst (sync_cluster cl p (c_world c)))))"
proof -
  note event = owned_event [OF owner [unfolded v_def] ns [unfolded v_def] slash [unfolded v_def]
      cached [unfolded v_def], where bucket = bucket and now = now and k = k and cl = cl]
  let ?c1 = "c\<lparr>c_queue := AddRateLimited bucket now (x c p) (c_queue c)\<rparr>"
  have c1: "handleObject bucket now (ApiObject om) c = ?c1" using event by (simp add: x_def)
  obtain t where "q_waiting (c_queue ?c1) (x c p) = Some t" "q_queue (c_queue ?c1) = []"
    "x c p \<notin> q_dirty (c_queue ?c1)"
    using AddRateLimited_waits [OF idle(1)] idle by (metis controller.select_convs(1) controller.surjective controller.update_convs(1))
  moreover have "\<not> q_shuttingDown (c_queue ?c1)" "x c p \<notin> q_processing (c_queue ?c1)"
    using idle rate_limited_sets(1,4) by simp_all
  ultimately obtain c' r c2 where steps: "(step cl)\<^sup>*\<^sup>* (?c1, held) (c', held)"
    and fin: "process_item cl (x c p) c2 = (c', r)" "c_world c2 = c_world ?c1"
    using fire_take_finish [of ?c1 "x c p" t held i cl] free by blast
  show ?thesis
    using steps process_key_world [OF fin(1) [unfolded x_def]] fin(2) event
    unfolding c1 by (intro exI [of _ c']) auto
qed

end
