(* ===== verification/Closed_Loop.thy ===== *)
theory Closed_Loop
  imports Convergence
begin

text \<open>
  The operator together with its API server: what one run of \<open>syncHandler\<close> leaves in the
  server's stores, and what the run after that finds once the informers have copied them.

  The server is not part of the repository. It is a parameter: the answers of \<open>client\<close>, and
  a view of the environment as the two stores the controller writes (\<open>stored\<close>). \<open>serves\<close> states
  its documented behaviour: a creation files the object unless the name is taken, a patch
  computed from the stored document turns it into the wanted one, a status update changes
  neither store. \<open>in_step\<close> says that the informers' stores agree with the server's.
\<close>

section \<open>The server's stores\<close>

record 'w stored =
  st_services :: "'w \<Rightarrow> Service indexer"
  st_sets :: "'w \<Rightarrow> StatefulSet indexer"

text \<open>
  A creation of an object whose name is free files an object with the same controller (and
  what else \<open>like\<close> asks for) under that name; if the name is taken, the creation fails and
  changes nothing.
\<close>

definition creates :: "('w \<Rightarrow> string \<Rightarrow> 'o \<Rightarrow> 'w \<times> (go_error + 'o)) \<Rightarrow> ('w \<Rightarrow> 'o indexer)
    \<Rightarrow> ('o \<Rightarrow> strmap ObjectMeta) \<Rightarrow> ('o \<Rightarrow> 'o \<Rightarrow> bool) \<Rightarrow> bool" where
  "creates post store meta like \<longleftrightarrow>
     (\<forall>e ns x. case store e (ns @ ''/'' @ om_Name (meta x)) of
        None \<Rightarrow> (\<exists>e' y. post e ns x = (e', Inr y) \<and> store e' = (store e)(ns @ ''/'' @ om_Name (meta x) \<mapsto> y) \<and> like x y)
      | Some _ \<Rightarrow> (\<exists>e' msg. post e ns x = (e', Inl (StatusError ReasonAlreadyExists msg)) \<and> store e' = store e))"

definition controller_uid :: "'m ObjectMeta \<Rightarrow> string option" where
  "controller_uid om = map_option or_UID (GetControllerOf om)"

definition like_service :: "Service \<Rightarrow> Service \<Rightarrow> bool" where
  "like_service s t \<longleftrightarrow> controller_uid (svc_ObjectMeta t) = controller_uid (svc_ObjectMeta s)"

definition like_set :: "StatefulSet \<Rightarrow> StatefulSet \<Rightarrow> bool" where
  "like_set s t \<longleftrightarrow> controller_uid (ss_ObjectMeta t) = controller_uid (ss_ObjectMeta s) \<and> same_size s t"

lemma controlled_uid: "IsControlledBy om owner \<longleftrightarrow> controller_uid om = Some (om_UID owner)"
  by (auto simp: IsControlledBy_def controller_uid_def split: option.splits)

text \<open>
  The patch between a stored object and a wanted one of the same controller can be computed,
  and the server answers it by giving the stored object the wanted size.
\<close>

definition patches :: "'w client \<Rightarrow> 'w stored \<Rightarrow> bool" where
  "patches cl sv \<longleftrightarrow>
     (\<forall>e ns n s wanted. st_sets sv e (ns @ ''/'' @ n) = Some s \<and>
        controller_uid (ss_ObjectMeta s) = controller_uid (ss_ObjectMeta wanted) \<longrightarrow>
        (\<exists>p e' t. merge_patch cl s wanted = Some p \<and> cl_PatchStatefulSet cl e ns n p = (e', Inr t) \<and>
           st_sets sv e' = (st_sets sv e)(ns @ ''/'' @ n \<mapsto> t) \<and> like_set wanted t))"

text \<open>
  Which calls leave which store alone; while a retry sleeps, nobody else writes these
  objects.
\<close>

definition keeps_stores :: "'w client \<Rightarrow> 'w stored \<Rightarrow> bool" where
  "keeps_stores cl sv \<longleftrightarrow>
     (\<forall>e ns s. st_sets sv (fst (cl_CreateService cl e ns s)) = st_sets sv e) \<and>
     (\<forall>e ns s. st_services sv (fst (cl_CreateStatefulSet cl e ns s)) = st_services sv e) \<and>
     (\<forall>e ns n p. st_services sv (fst (cl_PatchStatefulSet cl e ns n p)) = st_services sv e) \<and>
     (\<forall>e ns c. st_services sv (fst (cl_UpdateCluster cl e ns c)) = st_services sv e \<and>
        st_sets sv (fst (cl_UpdateCluster cl e ns c)) = st_sets sv e) \<and>
     (\<forall>w. st_services sv (w_env (cl_Sleep cl w)) = st_services sv (w_env w) \<and>
        st_sets sv (w_env (cl_Sleep cl w)) = st_sets sv (w_env w))"

definition files_by_name :: "'w stored \<Rightarrow> bool" where
  "files_by_name sv \<longleftrightarrow> (\<forall>e k s. st_sets sv e k = Some s \<longrightarrow>
     k = om_Namespace (ss_ObjectMeta s) @ ''/'' @ om_Name (ss_ObjectMeta s))"

definition serves :: "'w client \<Rightarrow> 'w stored \<Rightarrow> bool" where
  "serves cl sv \<longleftrightarrow> files_by_name sv \<and>
     creates (cl_CreateService cl) (st_services sv) svc_ObjectMeta like_service \<and>
     creates (cl_CreateStatefulSet cl) (st_sets sv) ss_ObjectMeta like_set \<and>
     patches cl sv \<and> keeps_stores cl sv"

definition in_step :: "'w stored \<Rightarrow> 'w world \<Rightarrow> bool" where
  "in_step sv w \<longleftrightarrow> w_services w = st_services sv (w_env w) \<and> w_statefulsets w = st_sets sv (w_env w)"

definition both_stores :: "'w stored \<Rightarrow> 'w world \<Rightarrow> Service indexer \<times> StatefulSet indexer" where
  "both_stores sv w = (st_services sv (w_env w), st_sets sv (w_env w))"

text \<open>
  Nothing is in the way: an object that has the name of one of the cluster's is the
  cluster's, and its replica count is set, as the server sees to.
\<close>

definition unobstructed :: "addr \<Rightarrow> 'w world \<Rightarrow> bool" where
  "unobstructed p w \<longleftrightarrow>
     (\<forall>i. 0 \<le> i \<and> i < groups p w \<longrightarrow>
        (\<forall>s. lister_service p i (defaulted_world p w) = Some s \<longrightarrow> owns_service p (defaulted_world p w) s) \<and>
        (\<forall>s. lister_ss p i (sized_world p w) = Some s \<longrightarrow>
           owns_ss p (sized_world p w) s \<and> ss_SpecReplicas (ss_Spec s) \<noteq> None))"

lemma createsD:
  assumes "creates post store meta like" "store e (ns @ ''/'' @ om_Name (meta x)) = None"
  obtains e' y where "post e ns x = (e', Inr y)" "like x y"
    "store e' = (store e)(ns @ ''/'' @ om_Name (meta x) \<mapsto> y)"
proof -
  have "case store e (ns @ ''/'' @ om_Name (meta x)) of
        None \<Rightarrow> (\<exists>e' y. post e ns x = (e', Inr y) \<and> store e' = (store e)(ns @ ''/'' @ om_Name (meta x) \<mapsto> y) \<and> like x y)
      | Some _ \<Rightarrow> (\<exists>e' msg. post e ns x = (e', Inl (StatusError ReasonAlreadyExists msg)) \<and> store e' = store e)"
    using assms(1) unfolding creates_def by blast
  then show thesis using assms(2) that by auto
qed

lemma creates_taken:
  assumes "creates post store meta like" "store e (ns @ ''/'' @ om_Name (meta x)) = Some y"
  obtains e' msg where "post e ns x = (e', Inl (StatusError ReasonAlreadyExists msg))" "store e' = store e"
proof -
  have "case store e (ns @ ''/'' @ om_Name (meta x)) of
        None \<Rightarrow> (\<exists>e' y. post e ns x = (e', Inr y) \<and> store e' = (store e)(ns @ ''/'' @ om_Name (meta x) \<mapsto> y) \<and> like x y)
      | Some _ \<Rightarrow> (\<exists>e' msg. post e ns x = (e', Inl (StatusError ReasonAlreadyExists msg)) \<and> store e' = store e)"
    using assms(1) unfolding creates_def by blast
  then show thesis using assms(2) that by auto
qed

section \<open>A loop whose passes each settle their own slot\<close>

text \<open>
  \<open>slot w k\<close> is what the server has under \<open>k\<close>. A pass for \<open>i\<close> that finds its slot \<open>key i\<close> as it
  was before the loop continues, makes the slot \<open>good\<close> and changes no other.
\<close>

lemma loop_settles_slots:
  assumes pass: "\<And>i a w. i \<in> set is \<Longrightarrow> same_store w0 w \<Longrightarrow> slot w (key i) = slot w0 (key i) \<Longrightarrow>
      \<exists>w' a'. body i a w = (w', Continue a') \<and> same_store w w' \<and> good i (slot w' (key i)) \<and>
        (\<forall>k. k \<noteq> key i \<longrightarrow> slot w' k = slot w k) \<and> other w' = other w"
    and keys: "distinct (map key is)"
    and start: "same_store w0 w" "\<forall>i \<in> set is. slot w (key i) = slot w0 (key i)"
  shows "\<exists>w' a'. for_loop body is a w = (w', Continue a') \<and> same_store w w' \<and>
      (\<forall>i \<in> set is. good i (slot w' (key i))) \<and> (\<forall>k. k \<notin> key ` set is \<longrightarrow> slot w' k = slot w k) \<and>
      other w' = other w"
  using assms
proof (induction "is" arbitrary: a w)
  case Nil
  then show ?case by simp
next
  case (Cons i "is")
  obtain w1 a1 where 1: "body i a w = (w1, Continue a1)" "same_store w w1" "good i (slot w1 (key i))"
    "\<forall>k. k \<noteq> key i \<longrightarrow> slot w1 k = slot w k" "other w1 = other w"
    using Cons.prems(1) [of i w a] Cons.prems(3,4) by auto
  have "\<forall>j \<in> set is. slot w1 (key j) = slot w0 (key j)"
    using Cons.prems(2,4) 1(4) by (metis distinct.simps(2) imageI list.set_intros(2) list.set_map list.simps(9))
  then obtain w2 a2 where 2: "for_loop body is a1 w1 = (w2, Continue a2)" "same_store w1 w2"
    "\<forall>j \<in> set is. good j (slot w2 (key j))" "\<forall>k. k \<notin> key ` set is \<longrightarrow> slot w2 k = slot w1 k"
    "other w2 = other w1"
    using Cons.IH [of w1 a1] Cons.prems(1,2,3) same_store_trans [OF _ 1(2)] by auto
  have "slot w2 (key i) = slot w1 (key i)" using 2(4) Cons.prems(2) by simp
  then show ?case using 1 2 same_store_trans [OF 1(2) 2(2)] by auto
qed

section \<open>The passes of the two loops against the server\<close>

definition service_key :: "addr \<Rightarrow> 'w world \<Rightarrow> int \<Rightarrow> string" where
  "service_key p w i =
     (let c = cluster_at (w_heap w) p in om_Namespace (bc_ObjectMeta c) @ ''/'' @ Sprintf_d (svc_name_format c) i)"

definition set_key :: "addr \<Rightarrow> 'w world \<Rightarrow> int \<Rightarrow> string" where
  "set_key p w i =
     (let c = cluster_at (w_heap w) p in om_Namespace (bc_ObjectMeta c) @ ''/'' @ Sprintf_d (group_name_format c) i)"

lemma lister_keys:
  "lister_service p i w = w_services w (service_key p w i)"
  "lister_ss p i w = w_statefulsets w (set_key p w i)"
  by (simp_all add: lister_service_def lister_ss_def service_key_def set_key_def GetByKey_def Let_def)

text \<open>Defaulting a cluster leaves the keys of its objects alone.\<close>

lemma keys_defaulted:
  "service_key p (defaulted_world p w) = service_key p w" "set_key p (sized_world p w) = set_key p w"
  by (simp_all add: service_key_def set_key_def svc_name_format_def group_name_format_def cluster_at_def
      EnsureDefaults_struct fun_eq_iff)

lemma keys_distinct:
  assumes "no_verb (om_Name (bc_ObjectMeta (cluster_at (w_heap w) p)))"
  shows "distinct (map (service_key p w) (indices n))" "distinct (map (set_key p w) (indices n))"
  using assms
  by (auto simp: distinct_map inj_on_def service_key_def set_key_def Let_def svc_name_inj group_name_inj)

lemma create_service_server:
  assumes sv: "serves cl sv" and free: "st_services sv (w_env w) (service_key p w i) = None"
  shows "\<exists>w' t. CreateService cl (NewHeadlessService (cluster_at (w_heap w) p) i) w = (w', None) \<and> same_local w w' \<and>
    st_services sv (w_env w') = (st_services sv (w_env w))(service_key p w i \<mapsto> t) \<and>
    st_sets sv (w_env w') = st_sets sv (w_env w) \<and> owns_service p w t"
proof -
  let ?c = "cluster_at (w_heap w) p"
  let ?s = "NewHeadlessService ?c i" and ?ns = "om_Namespace (bc_ObjectMeta ?c)"
  have key: "?ns @ ''/'' @ om_Name (svc_ObjectMeta ?s) = service_key p w i" by (simp add: service_key_def Let_def)
  obtain e' t where t: "cl_CreateService cl (w_env w) ?ns ?s = (e', Inr t)"
    "like_service ?s t" "st_services sv e' = (st_services sv (w_env w))(service_key p w i \<mapsto> t)"
    using createsD [of "cl_CreateService cl" "st_services sv" svc_ObjectMeta like_service "w_env w" ?ns ?s]
      sv free unfolding serves_def key by blast
  have sets: "st_sets sv e' = st_sets sv (w_env w)"
    using sv t(1) unfolding serves_def keeps_stores_def by (metis fst_conv)
  have "owns_service p w t"
    using t(2) new_objects_controlled(1) [of ?c i]
    by (simp add: owns_service_def like_service_def controlled_uid)
  then show ?thesis
    using t(1,3) sets by (auto simp: CreateService_def call_api_def same_local_def Let_def)
qed

lemma service_pass_server:
  assumes sv: "serves cl sv"
    and seen: "st_services sv (w_env w) (service_key p w i) = w_services w (service_key p w i)"
    and own: "\<And>s. lister_service p i w = Some s \<Longrightarrow> owns_service p w s"
  shows "\<exists>w'. sync_service cl p i a w = (w', Continue ()) \<and> same_store w w' \<and>
    (\<exists>t. st_services sv (w_env w') (service_key p w i) = Some t \<and> owns_service p w t) \<and>
    (\<forall>k. k \<noteq> service_key p w i \<longrightarrow> st_services sv (w_env w') k = st_services sv (w_env w) k) \<and>
    st_sets sv (w_env w') = st_sets sv (w_env w)"
proof (cases "lister_service p i w")
  case (Some s)
  then have "sync_service cl p i a w = (w, Continue ())" "st_services sv (w_env w) (service_key p w i) = Some s"
    using service_pass_fixed own seen by (auto simp: lister_keys)
  then show ?thesis using own [OF Some] by auto
next
  case None
  let ?c = "cluster_at (w_heap w) p"
  obtain w' t where w': "CreateService cl (NewHeadlessService ?c i) w = (w', None)" "same_local w w'"
    "st_services sv (w_env w') = (st_services sv (w_env w))(service_key p w i \<mapsto> t)"
    "st_sets sv (w_env w') = st_sets sv (w_env w)" "owns_service p w t"
    using create_service_server [OF sv] None seen by (metis lister_keys(1))
  have "sync_service cl p i a w = (w', Continue ())"
    using None w'(1)
    by (simp add: sync_service_def get_or_create_service_def Services_Get_def lister_service_def Let_def)
  then show ?thesis using w' same_local_store by auto
qed

lemma create_set_server:
  assumes sv: "serves cl sv" and free: "st_sets sv (w_env w) (set_key p w i) = None"
  shows "\<exists>w' t. CreateStatefulSet cl (wanted_ss p i w) w = (w', None) \<and> same_local w w' \<and>
    st_sets sv (w_env w') = (st_sets sv (w_env w))(set_key p w i \<mapsto> t) \<and>
    st_services sv (w_env w') = st_services sv (w_env w) \<and> like_set (wanted_ss p i w) t"
proof -
  let ?c = "cluster_at (w_heap w) p"
  let ?s = "wanted_ss p i w" and ?ns = "om_Namespace (bc_ObjectMeta ?c)"
  have key: "?ns @ ''/'' @ om_Name (ss_ObjectMeta ?s) = set_key p w i"
    by (simp add: set_key_def wanted_ss_def Let_def)
  have ns: "om_Namespace (ss_ObjectMeta ?s) = ?ns" by (simp add: wanted_ss_def)
  obtain e' t where t: "cl_CreateStatefulSet cl (w_env w) ?ns ?s = (e', Inr t)"
    "like_set ?s t" "st_sets sv e' = (st_sets sv (w_env w))(set_key p w i \<mapsto> t)"
    using createsD [of "cl_CreateStatefulSet cl" "st_sets sv" ss_ObjectMeta like_set "w_env w" ?ns ?s]
      sv free unfolding serves_def key by blast
  have "st_services sv e' = st_services sv (w_env w)"
    using sv t(1) unfolding serves_def keeps_stores_def by (metis fst_conv)
  then show ?thesis
    using t by (auto simp: CreateStatefulSet_def call_api_def same_local_def Let_def ns)
qed

lemma patch_set_server:
  assumes sv: "serves cl sv" and there: "st_sets sv (w_env w) (set_key p w i) = Some s"
    and filed: "set_key p w i = om_Namespace (ss_ObjectMeta s) @ ''/'' @ om_Name (ss_ObjectMeta s)"
    and owner: "controller_uid (ss_ObjectMeta s) = controller_uid (ss_ObjectMeta wanted)"
  shows "\<exists>w' t. Patch cl s wanted w = (w', None) \<and> same_local w w' \<and>
    st_sets sv (w_env w') = (st_sets sv (w_env w))(set_key p w i \<mapsto> t) \<and>
    st_services sv (w_env w') = st_services sv (w_env w) \<and> like_set wanted t"
proof -
  let ?ns = "om_Namespace (ss_ObjectMeta s)" and ?n = "om_Name (ss_ObjectMeta s)"
  obtain patch e' t where t: "merge_patch cl s wanted = Some patch"
    "cl_PatchStatefulSet cl (w_env w) ?ns ?n patch = (e', Inr t)"
    "st_sets sv e' = (st_sets sv (w_env w))(set_key p w i \<mapsto> t)" "like_set wanted t"
    using sv there owner unfolding serves_def patches_def filed by blast
  have "st_services sv e' = st_services sv (w_env w)"
    using sv t(2) unfolding serves_def keeps_stores_def by (metis fst_conv)
  with t show ?thesis
    by (auto simp: Patch_def PatchStatefulSet_def merge_patch_def call_api_def same_local_def Let_def
        split: sum.splits)
qed

lemma wanted_fits:
  "like_set (wanted_ss p i w) t \<Longrightarrow> owns_ss p w t \<and> right_size p w t"
  using new_objects_controlled(2) [of "cluster_at (w_heap w) p" i]
  by (simp add: like_set_def owns_ss_def right_size_def same_size_def controlled_uid wanted_ss_def)

lemma set_pass_server:
  assumes sv: "serves cl sv" and filed: "keyed w"
    and seen: "st_sets sv (w_env w) (set_key p w i) = w_statefulsets w (set_key p w i)"
    and own: "\<And>s. lister_ss p i w = Some s \<Longrightarrow> owns_ss p w s \<and> ss_SpecReplicas (ss_Spec s) \<noteq> None"
  shows "\<exists>w' a'. sync_statefulset cl p i a w = (w', Continue a') \<and> same_store w w' \<and>
    (\<exists>t. st_sets sv (w_env w') (set_key p w i) = Some t \<and> owns_ss p w t \<and> right_size p w t) \<and>
    (\<forall>k. k \<noteq> set_key p w i \<longrightarrow> st_sets sv (w_env w') k = st_sets sv (w_env w) k) \<and>
    st_services sv (w_env w') = st_services sv (w_env w)"
proof (cases "lister_ss p i w")
  case None
  obtain w' t where w': "CreateStatefulSet cl (wanted_ss p i w) w = (w', None)" "same_local w w'"
    "st_sets sv (w_env w') = (st_sets sv (w_env w))(set_key p w i \<mapsto> t)"
    "st_services sv (w_env w') = st_services sv (w_env w)" "like_set (wanted_ss p i w) t"
    using create_set_server [OF sv] None seen by (metis lister_keys(2))
  have "\<exists>a'. sync_statefulset cl p i a w = (w', Continue a')"
    using None w'(1)
    by (simp add: sync_statefulset_def get_or_create_statefulset_def StatefulSets_Get_def lister_ss_def Let_def
        resize_statefulset_def wanted_ss_def)
  then show ?thesis using w' same_local_store wanted_fits by fastforce
next
  case (Some s)
  note own = own [OF Some]
  have there: "st_sets sv (w_env w) (set_key p w i) = Some s" using Some seen by (simp add: lister_keys)
  show ?thesis
  proof (cases "right_size p w s")
    case True
    then show ?thesis using ss_pass_fixed [OF Some] own there by auto
  next
    case False
    have "set_key p w i = om_Namespace (ss_ObjectMeta s) @ ''/'' @ om_Name (ss_ObjectMeta s)"
      using filed Some by (simp add: keyed_def lister_keys GetByKey_def)
    moreover have "controller_uid (ss_ObjectMeta s) = controller_uid (ss_ObjectMeta (wanted_ss p i w))"
      using own new_objects_controlled(2) [of "cluster_at (w_heap w) p" i]
      by (simp add: owns_ss_def controlled_uid wanted_ss_def)
    ultimately have "\<exists>w' t. Patch cl s (wanted_ss p i w) w = (w', None) \<and> same_local w w' \<and>
      st_sets sv (w_env w') = (st_sets sv (w_env w))(set_key p w i \<mapsto> t) \<and>
      st_services sv (w_env w') = st_services sv (w_env w) \<and> like_set (wanted_ss p i w) t"
      by (rule patch_set_server [OF sv there])
    then
    obtain w' t where w': "Patch cl s (wanted_ss p i w) w = (w', None)" "same_local w w'"
      "st_sets sv (w_env w') = (st_sets sv (w_env w))(set_key p w i \<mapsto> t)"
      "st_services sv (w_env w') = st_services sv (w_env w)" "like_set (wanted_ss p i w) t"
      by blast
    have "\<exists>a'. sync_statefulset cl p i a w = (w', Continue a')"
      using Some own w'(1) False
      by (auto simp: sync_statefulset_def get_or_create_statefulset_def StatefulSets_Get_def lister_ss_def Let_def
          resize_statefulset_def wanted_ss_def owns_ss_def right_size_def)
    then show ?thesis using w' same_local_store wanted_fits by fastforce
  qed
qed

section \<open>The two loops against the server\<close>

lemma same_store_keys:
  assumes "same_store w w'"
  shows "service_key p w' = service_key p w" "set_key p w' = set_key p w" "keyed w' = keyed w"
    "w_services w' = w_services w" "w_statefulsets w' = w_statefulsets w"
  using assms by (auto simp: same_store_def service_key_def set_key_def keyed_def)

lemma services_loop_server:
  assumes sv: "serves cl sv" and names: "no_verb (om_Name (bc_ObjectMeta (cluster_at (w_heap w) p)))"
    and seen: "\<And>i. 0 \<le> i \<Longrightarrow> i < n \<Longrightarrow> w_services w (service_key p w i) = st_services sv (w_env w) (service_key p w i)"
    and own: "\<And>i s. 0 \<le> i \<Longrightarrow> i < n \<Longrightarrow> lister_service p i w = Some s \<Longrightarrow> owns_service p w s"
  shows "\<exists>w'. sync_services cl p n w = (w', Continue ()) \<and> same_store w w' \<and>
    (\<forall>i. 0 \<le> i \<and> i < n \<longrightarrow> (\<exists>t. st_services sv (w_env w') (service_key p w i) = Some t \<and> owns_service p w t)) \<and>
    st_sets sv (w_env w') = st_sets sv (w_env w)"
proof -
  have pass: "\<exists>v' a'. sync_service cl p i a v = (v', Continue a') \<and> same_store v v' \<and>
      (\<exists>t. st_services sv (w_env v') (service_key p w i) = Some t \<and> owns_service p w t) \<and>
      (\<forall>k. k \<noteq> service_key p w i \<longrightarrow> st_services sv (w_env v') k = st_services sv (w_env v) k) \<and>
      st_sets sv (w_env v') = st_sets sv (w_env v)"
    if "i \<in> set (indices n)" "same_store w v"
      "st_services sv (w_env v) (service_key p w i) = st_services sv (w_env w) (service_key p w i)" for i a v
    using that seen own service_pass_server [OF sv, of v p i a]
    unfolding same_store_keys [OF that(2)] same_store_views [OF that(2)] by auto
  from loop_settles_slots [of "indices n" w "\<lambda>w. st_services sv (w_env w)" "service_key p w"
      "sync_service cl p" "\<lambda>i t. \<exists>s. t = Some s \<and> owns_service p w s" "\<lambda>w. st_sets sv (w_env w)" w "()",
      OF pass keys_distinct(1) [OF names] same_store_refl]
  show ?thesis unfolding sync_services_def by fastforce
qed

lemma sets_loop_server:
  assumes sv: "serves cl sv" and names: "no_verb (om_Name (bc_ObjectMeta (cluster_at (w_heap w) p)))"
    and seen: "\<And>i. 0 \<le> i \<Longrightarrow> i < n \<Longrightarrow> w_statefulsets w (set_key p w i) = st_sets sv (w_env w) (set_key p w i)"
    and filed: "keyed w"
    and own: "\<And>i s. 0 \<le> i \<Longrightarrow> i < n \<Longrightarrow> lister_ss p i w = Some s \<Longrightarrow>
      owns_ss p w s \<and> ss_SpecReplicas (ss_Spec s) \<noteq> None"
  shows "\<exists>w' g m. sync_statefulsets cl p n w = (w', Continue (g, m)) \<and> same_store w w' \<and>
    (\<forall>i. 0 \<le> i \<and> i < n \<longrightarrow> (\<exists>t. st_sets sv (w_env w') (set_key p w i) = Some t \<and> owns_ss p w t \<and> right_size p w t)) \<and>
    st_services sv (w_env w') = st_services sv (w_env w)"
proof -
  have pass: "\<exists>v' a'. sync_statefulset cl p i a v = (v', Continue a') \<and> same_store v v' \<and>
      (\<exists>t. st_sets sv (w_env v') (set_key p w i) = Some t \<and> owns_ss p w t \<and> right_size p w t) \<and>
      (\<forall>k. k \<noteq> set_key p w i \<longrightarrow> st_sets sv (w_env v') k = st_sets sv (w_env v) k) \<and>
      st_services sv (w_env v') = st_services sv (w_env v)"
    if "i \<in> set (indices n)" "same_store w v"
      "st_sets sv (w_env v) (set_key p w i) = st_sets sv (w_env w) (set_key p w i)" for i a v
    using that seen own filed set_pass_server [OF sv, of v p i a]
    unfolding same_store_keys [OF that(2)] same_store_ss_views [OF that(2)] by auto
  from loop_settles_slots [of "indices n" w "\<lambda>w. st_sets sv (w_env w)" "set_key p w"
      "sync_statefulset cl p" "\<lambda>i t. \<exists>s. t = Some s \<and> owns_ss p w s \<and> right_size p w s"
      "\<lambda>w. st_services sv (w_env w)" w "(0, 0)",
      OF pass keys_distinct(2) [OF names] same_store_refl]
  show ?thesis unfolding sync_statefulsets_def by fastforce
qed

section \<open>The status update against the server\<close>

lemma before_keeps:
  assumes "\<And>s. Q s \<Longrightarrow> Q (fst (fn s))" "\<And>s. Q s \<Longrightarrow> Q (sleep s)" "Q s"
  shows "Q (before fn sleep s k)"
  using assms by (induction k) auto

lemma RetryOnConflict_keeps:
  assumes run: "RetryOnConflict DefaultRetry_Steps sleep fn s = (s', err)"
    and "\<And>t. snd (fn t) \<noteq> Some ErrWaitTimeout"
    and keeps: "\<And>s. Q s \<Longrightarrow> Q (fst (fn s))" "\<And>s. Q s \<Longrightarrow> Q (sleep s)" "Q s"
  shows "Q s'"
proof -
  have "0 < DefaultRetry_Steps" by (simp add: DefaultRetry_Steps_def)
  from RetryOnConflict_run [OF run this assms(2)] obtain k where "s' = fst (fn (before fn sleep s k))" by blast
  moreover have "Q (before fn sleep s k)" by (rule before_keeps [OF keeps])
  ultimately show ?thesis using keeps(1) by simp
qed

lemma reload_cluster_env: "w_env (fst (fst (reload_cluster p e w))) = w_env w"
  by (simp add: reload_cluster_def Let_def split: sum.split prod.split option.split)

lemma status_attempt_stores:
  assumes "keeps_stores cl sv"
  shows "both_stores sv (fst (fst (update_status_attempt cl s (w, p)))) = both_stores sv w"
proof -
  define w1 where "w1 = w\<lparr>w_heap := store_status (w_heap w) (StatusOf p) (h_statuses (w_heap w) s)\<rparr>"
  obtain w2 r where up: "BrokerClusters_Update cl (om_Namespace (bc_ObjectMeta (h_clusters (w_heap w1) p))) p w1 = (w2, r)"
    by fastforce
  have "w_env w2 = fst (cl_UpdateCluster cl (w_env w) (om_Namespace (bc_ObjectMeta (h_clusters (w_heap w1) p)))
      (cluster_at (w_heap w1) p))"
    using call_api_parts(3) [OF up [unfolded BrokerClusters_Update_def Let_def]] by (simp add: w1_def)
  then have "both_stores sv w2 = both_stores sv w"
    using assms by (simp add: keeps_stores_def both_stores_def)
  moreover have "both_stores sv (fst (fst (reload_cluster p e w2))) = both_stores sv w2" for e
    by (simp add: both_stores_def reload_cluster_env)
  ultimately show ?thesis
    using up by (cases r) (simp_all add: update_status_attempt_def Let_def w1_def)
qed

lemma updateClusterStatus_stores:
  assumes keeps: "keeps_stores cl sv" and quiet: "no_wait_timeout cl"
    and run: "updateClusterStatus cl p g m w = (w', err)"
  shows "both_stores sv w' = both_stores sv w"
proof -
  obtain h4 s updated where set: "set_ready_condition (cl_Now cl (w_env w)) p g m (w_heap w) = (h4, s, updated)"
    by (metis surj_pair)
  show ?thesis
  proof (cases updated)
    case False
    with run set show ?thesis by (auto simp: updateClusterStatus_def both_stores_def)
  next
    case True
    obtain h5 r where dc: "BrokerCluster_DeepCopy h4 (Some p) = (h5, r)" by fastforce
    obtain q' where "UpdateClusterStatus cl (the r) s (w\<lparr>w_heap := h5\<rparr>) = ((w', q'), err)"
      using run set True dc by (auto simp: updateClusterStatus_def split: prod.splits)
    from RetryOnConflict_keeps [OF this [unfolded UpdateClusterStatus_def] attempt_not_timeout(1) [OF quiet],
        of "\<lambda>s. both_stores sv (fst s) = both_stores sv w"]
    moreover have "both_stores sv (cl_Sleep cl v) = both_stores sv v" for v
      using keeps by (simp add: keeps_stores_def both_stores_def)
    moreover have "both_stores sv (w\<lparr>w_heap := h5\<rparr>) = both_stores sv w" by (simp add: both_stores_def)
    moreover have "both_stores sv (fst (fst (update_status_attempt cl s t))) = both_stores sv (fst t)" for t
      using status_attempt_stores [OF keeps] by (cases t) simp
    ultimately show ?thesis by (simp add: split_beta)
  qed
qed

section \<open>One run against the server\<close>

definition plain_name :: "addr \<Rightarrow> 'w world \<Rightarrow> bool" where
  "plain_name p w \<longleftrightarrow> no_verb (om_Name (bc_ObjectMeta (h_clusters (w_heap w) p)))"

lemma plain_name_worlds:
  "no_verb (om_Name (bc_ObjectMeta (cluster_at (w_heap (defaulted_world p w)) p))) = plain_name p w"
  "no_verb (om_Name (bc_ObjectMeta (cluster_at (w_heap (sized_world p w)) p))) = plain_name p w"
  by (simp_all add: plain_name_def cluster_at_def EnsureDefaults_struct)

text \<open>What the cluster needs is in the server's stores.\<close>

definition provided :: "addr \<Rightarrow> 'w world \<Rightarrow> Service indexer \<times> StatefulSet indexer \<Rightarrow> bool" where
  "provided p w = (\<lambda>(svcs, sets). \<forall>i. 0 \<le> i \<and> i < groups p w \<longrightarrow>
     (\<exists>s. svcs (service_key p (defaulted_world p w) i) = Some s \<and> owns_service p (defaulted_world p w) s) \<and>
     (\<exists>s. sets (set_key p (sized_world p w) i) = Some s \<and> owns_ss p (sized_world p w) s \<and>
        right_size p (sized_world p w) s))"

lemma status_update_last:
  assumes up: "updateClusterStatus cl p g m w = (w', Some e)" and "wf_ptr (w_heap w) p" "quiet_for cl p"
  shows "\<exists>t c e'. w_trace w' = t @ [(c, Some e')] \<and> status_call c"
proof -
  from updateClusterStatus_run(1) [OF assms] obtain t v where t: "w_trace w' = w_trace w @ t"
    "retried (wanted_status v) t (Some e)" "\<exists>k. condition_of (status_conditions v) BrokerClusterReady = Some k"
    using condition_of_ready_update by (fastforce split: if_splits)
  then have "t \<noteq> []" by (auto simp: retried_def)
  then obtain t' c x where t': "t = t' @ [(c, x)]" by (metis append_butlast_last_id surj_pair)
  with t(2) have "wanted_status v c" "x \<noteq> None" by (auto simp: retried_def ends_as_def)
  then show ?thesis using t(1,3) t' by (auto simp: status_call_def)
qed

text \<open>
  What the run for one cluster needs of the caches: they show what the server has of that
  cluster's objects. What they show of others does not matter.
\<close>

definition seen_at :: "'w stored \<Rightarrow> addr \<Rightarrow> 'w world \<Rightarrow> bool" where
  "seen_at sv p w \<longleftrightarrow>
     (\<forall>i. 0 \<le> i \<and> i < groups p w \<longrightarrow>
        w_services w (service_key p w i) = st_services sv (w_env w) (service_key p w i) \<and>
        w_statefulsets w (set_key p w i) = st_sets sv (w_env w) (set_key p w i))"

lemma in_step_seen: "in_step sv w \<Longrightarrow> seen_at sv p w"
  by (simp add: in_step_def seen_at_def)

lemma in_step_keyed: "serves cl sv \<Longrightarrow> in_step sv w \<Longrightarrow> keyed w"
  by (auto simp: serves_def files_by_name_def in_step_def keyed_def GetByKey_def)

lemma run_provides_seen:
  assumes sv: "serves cl sv" and quiet: "quiet_for cl p" and wf: "wf_ptr (w_heap w) p"
    and w: "seen_at sv p w" "keyed w" "unobstructed p w" "plain_name p w"
  obtains w' err where "sync_cluster cl p w = (w', Returned err)" "provided p w (both_stores sv w')"
    "err = None \<or> (\<exists>t c e. w_trace w' = t @ [(c, e)] \<and> status_call c \<and> e \<noteq> None)"
proof -
  let ?d = "defaulted_world p w" and ?s = "sized_world p w" and ?n = "groups p w"
  have keyed: "keyed ?s" using w(2) by (simp add: keyed_def)
  obtain w2 where services: "sync_services cl p ?n ?d = (w2, Continue ())" "same_store ?d w2"
    and svcs: "\<forall>i. 0 \<le> i \<and> i < ?n \<longrightarrow>
      (\<exists>t. st_services sv (w_env w2) (service_key p ?d i) = Some t \<and> owns_service p ?d t)"
    and sets2: "st_sets sv (w_env w2) = st_sets sv (w_env w)"
    using services_loop_server [OF sv, of ?d p ?n] w plain_name_worlds(1) [of p w]
    by (auto simp: seen_at_def unobstructed_def keys_defaulted simp del: world_simps(15,16))
  define w3 where "w3 = w2\<lparr>w_heap := force_single_member p (w_heap w2)\<rparr>"
  have st3: "same_store ?s w3" unfolding w3_def by (rule same_store_sized [OF services(2)])
  have env3: "w_env w3 = w_env w2" by (simp add: w3_def)
  note views = same_store_keys [OF st3] same_store_ss_views [OF st3]
  have at3: "cluster_at (w_heap w3) p = cluster_at (w_heap ?s) p" using st3 by (simp add: same_store_def)
  have own: "owns_ss p ?s s \<and> ss_SpecReplicas (ss_Spec s) \<noteq> None"
    if "0 \<le> i" "i < ?n" "lister_ss p i ?s = Some s" for i s
    using that w(3) by (simp add: unobstructed_def del: world_simps(15,16))
  have seen: "w_statefulsets ?s (set_key p ?s i) = st_sets sv (w_env w3) (set_key p ?s i)" if "0 \<le> i" "i < ?n" for i
    using that w(1) sets2 by (simp add: seen_at_def env3 keys_defaulted)
  obtain w4 g m where sets: "sync_statefulsets cl p ?n w3 = (w4, Continue (g, m))" "same_store w3 w4"
    and good: "\<forall>i. 0 \<le> i \<and> i < ?n \<longrightarrow>
      (\<exists>t. st_sets sv (w_env w4) (set_key p ?s i) = Some t \<and> owns_ss p ?s t \<and> right_size p ?s t)"
    and svcs4: "st_services sv (w_env w4) = st_services sv (w_env w2)"
    using sets_loop_server [OF sv, of w3 p ?n] w(4) plain_name_worlds(2) [of p w] seen keyed own
    unfolding at3 views env3 by blast
  obtain w5 err where up: "updateClusterStatus cl p g m w4 = (w5, err)" by fastforce
  have st4: "same_store ?s w4" by (rule same_store_trans [OF st3 sets(2)])
  have wf4: "wf_ptr (w_heap w4) p"
    using st4 force_single_member_wf [OF EnsureDefaults_wf [OF wf]] by (simp add: same_store_def)
  have "both_stores sv w5 = both_stores sv w4"
    using updateClusterStatus_stores [OF _ _ up] sv quiet by (simp add: serves_def quiet_for_def)
  then have provided: "provided p w (both_stores sv w5)"
    using svcs good by (simp add: provided_def both_stores_def svcs4)
  have last: "err = None \<or> (\<exists>t c e. w_trace w5 = t @ [(c, e)] \<and> status_call c \<and> e \<noteq> None)"
  proof (cases err)
    case (Some e)
    then show ?thesis using status_update_last [OF up [unfolded Some] wf4 quiet] by blast
  qed simp
  have run: "sync_cluster cl p w = (case err of Some e \<Rightarrow> (w5, Returned (Some e))
      | None \<Rightarrow> (record_event (cluster_at (w_heap w5) p) EventTypeNormal SuccessSynced MessageResourceSynced w5,
          Returned None))"
    using services(1) sets(1) up defaults_set_members(1) [of "w_heap w" p] services(2)
    by (cases err) (simp_all add: sync_cluster_def Let_def groups_alt defaulted_world_def w3_def same_store_def)
  show thesis
  proof (cases err)
    case None
    then show ?thesis using that [of _ None] run provided by (simp add: both_stores_def record_event_def)
  next
    case (Some e)
    then show ?thesis using that [of w5 "Some e"] run provided last by simp
  qed
qed

lemma run_provides:
  assumes sv: "serves cl sv" and quiet: "quiet_for cl p" and wf: "wf_ptr (w_heap w) p"
    and w: "in_step sv w" "unobstructed p w" "plain_name p w"
  obtains w' err where "sync_cluster cl p w = (w', Returned err)" "provided p w (both_stores sv w')"
    "err = None \<or> (\<exists>t c e. w_trace w' = t @ [(c, e)] \<and> status_call c \<and> e \<noteq> None)"
  by (rule run_provides_seen [OF sv quiet wf in_step_seen [OF w(1)] in_step_keyed [OF sv w(1)] w(2,3)])

section \<open>Rounds\<close>

text \<open>
  What a later run starts from: the informers have copied the server's stores as a run left
  them, and the cache holds the same cluster, perhaps at another address.
\<close>

definition refreshed :: "'w stored \<Rightarrow> string \<Rightarrow> addr \<times> 'w world \<Rightarrow> 'w world \<Rightarrow> addr \<times> 'w world \<Rightarrow> bool" where
  "refreshed sv key = (\<lambda>(p, w) w' (q, v).
     both_stores sv v = both_stores sv w' \<and> in_step sv v \<and> GetByKey (w_clusters v) key = Some q \<and>
     wf_ptr (w_heap v) q \<and> same_cluster p w q v)"

text \<open>A round: a run of the handler and the informers' delivery.\<close>

inductive round :: "'w client \<Rightarrow> 'w stored \<Rightarrow> string \<Rightarrow> addr \<times> 'w world \<Rightarrow> addr \<times> 'w world \<Rightarrow> bool"
  for cl sv key where
  "syncHandler cl key (snd s) = (w', out) \<Longrightarrow> refreshed sv key s w' s' \<Longrightarrow> round cl sv key s s'"

inductive_cases roundE: "round cl sv key s s'"

definition ready_state :: "'w stored \<Rightarrow> string \<Rightarrow> addr \<times> 'w world \<Rightarrow> bool" where
  "ready_state sv key = (\<lambda>(p, w).
     in_step sv w \<and> unobstructed p w \<and> plain_name p w \<and> GetByKey (w_clusters w) key = Some p \<and>
     wf_ptr (w_heap w) p)"

lemma settled_unobstructed: "objects_settled p w \<Longrightarrow> unobstructed p w"
  by (fastforce simp: objects_settled_def unobstructed_def right_size_def)

lemma same_cluster_name: "same_cluster p w q v \<Longrightarrow> plain_name q v = plain_name p w"
  by (simp add: same_cluster_def Let_def plain_name_def cluster_at_def EnsureDefaults_struct)

lemma provided_settles:
  assumes same: "same_cluster p w q v" and provided: "provided p w (both_stores sv v)" and v: "in_step sv v"
  shows "objects_settled q v"
  unfolding objects_settled_def same_cluster_facts(1) [OF same]
proof (intro allI impI conjI)
  fix i assume i: "0 \<le> i \<and> i < groups p w"
  then obtain s t where s: "w_services v (service_key p (defaulted_world p w) i) = Some s"
      "owns_service p (defaulted_world p w) s"
    and t: "w_statefulsets v (set_key p (sized_world p w) i) = Some t" "owns_ss p (sized_world p w) t"
      "right_size p (sized_world p w) t"
    using provided v by (fastforce simp: provided_def both_stores_def in_step_def simp del: world_simps(15,16))
  have "same_controller (svc_ObjectMeta s) (svc_ObjectMeta s)" by (simp add: same_controller_def)
  from same_cluster_facts(4) [OF same this s(2)]
  show "\<exists>s. lister_service q i (defaulted_world q v) = Some s \<and> owns_service q (defaulted_world q v) s"
    using s(1) unfolding same_cluster_facts(2) [OF same] by (auto simp: service_key_def GetByKey_def Let_def)
  have "same_controller (ss_ObjectMeta t) (ss_ObjectMeta t)" "same_size t t"
    by (simp_all add: same_controller_def same_size_def)
  from same_cluster_facts(5) [OF same this(1) t(2)] same_cluster_facts(6) [OF same this(2) t(3)]
  show "\<exists>s. lister_ss q i (sized_world q v) = Some s \<and> owns_ss q (sized_world q v) s \<and>
      right_size q (sized_world q v) s"
    using t(1) unfolding same_cluster_facts(3) [OF same] by (auto simp: set_key_def GetByKey_def Let_def)
qed

lemma syncHandler_at:
  assumes "SplitMetaNamespaceKey key = Inr (ns, n)" "key = ns @ ''/'' @ n" "GetByKey (w_clusters w) key = Some p"
  shows "syncHandler cl key w = sync_cluster cl p w"
  using syncHandler_found [OF assms(1)] assms by metis

lemma round_settles:
  assumes env: "serves cl sv" "\<And>p. quiet_for cl p"
    and key: "SplitMetaNamespaceKey key = Inr (ns, n)" "key = ns @ ''/'' @ n"
    and ready: "ready_state sv key (p, w)" and round: "round cl sv key (p, w) (q, v)"
  shows "objects_settled q v \<and> ready_state sv key (q, v)"
proof -
  note ready' = ready [unfolded ready_state_def prod.case]
  obtain w' out where run: "syncHandler cl key w = (w', out)" and v: "both_stores sv v = both_stores sv w'"
    "in_step sv v" "GetByKey (w_clusters v) key = Some q" "wf_ptr (w_heap v) q" "same_cluster p w q v"
    using round by (auto simp: refreshed_def elim: roundE)
  have "sync_cluster cl p w = (w', out)" using run ready' by (simp add: syncHandler_at [OF key])
  then have "provided p w (both_stores sv v)"
    using run_provides [OF env(1) env(2), of w p] ready' v(1) by fastforce
  then have "objects_settled q v" by (rule provided_settles [OF v(5) _ v(2)])
  then show ?thesis
    using v ready' by (simp add: ready_state_def settled_unobstructed same_cluster_name)
qed

text \<open>A run on a settled cluster sends status updates only.\<close>

lemma settled_run_calls:
  assumes settled: "objects_settled q v" and wf: "wf_ptr (w_heap v) q" "quiet_for cl q"
    and run: "sync_cluster cl q v = (v', out)"
  shows "\<exists>t. w_trace v' = w_trace v @ t \<and> (\<forall>(c, e) \<in> set t. status_call c)"
proof -
  let ?v = "sized_world q v"
  obtain v5 x where up: "updateClusterStatus cl q (int (card {i. 0 \<le> i \<and> i < groups q v \<and> group_ready q ?v i}))
      (\<Sum>i | 0 \<le> i \<and> i < groups q v \<and> group_ready q ?v i. group_members q ?v i) ?v = (v5, x)" by fastforce
  have "wf_ptr (w_heap ?v) q"
    using force_single_member_wf [OF EnsureDefaults_wf [OF wf(1)]] by simp
  from updateClusterStatus_run(1) [OF up this wf(2)]
  obtain t where "w_trace v5 = w_trace v @ t" "\<forall>(c, e) \<in> set t. status_call c"
    using condition_of_ready_update unfolding status_call_def retried_def
    by (fastforce split: if_splits)
  then show ?thesis
    using run settled_run [OF settled, of cl] up by (cases x) (auto simp: record_event_def)
qed


section \<open>The fixed point\<close>

text \<open>
  What the informer shows of the conditions after a run: those of the last status update, if
  it succeeded, and else those of before.
\<close>

definition conditions_after :: "(api_call \<times> go_error option) list \<Rightarrow> BrokerClusterCondition list
    \<Rightarrow> BrokerClusterCondition list" where
  "conditions_after t cs =
     (if t = [] then cs
      else (case last t of (CallUpdateCluster ns c, None) \<Rightarrow> status_conditions (Status c) | _ \<Rightarrow> cs))"

lemma conditions_defaulted:
  "cluster_conditions (w_heap (sized_world p w)) p = cluster_conditions (w_heap w) p"
  by (simp add: cluster_conditions_def conditions_of_def slice_val_def EnsureDefaults_struct EnsureDefaults_heap split: option.split)

lemma settled_counts:
  assumes same: "same_cluster q v r u" and sets: "w_statefulsets u = w_statefulsets v"
    and v: "objects_settled q v" and u: "objects_settled r u" and i: "0 \<le> i" "i < groups q v"
  shows "group_ready r (sized_world r u) i = group_ready q (sized_world q v) i"
    and "group_members r (sized_world r u) i = group_members q (sized_world q v) i"
proof -
  have "lister_ss r i (sized_world r u) = lister_ss q i (sized_world q v)"
    unfolding same_cluster_facts(3) [OF same] by (simp add: lister_keys set_key_def GetByKey_def Let_def sets)
  moreover obtain s where "lister_ss q i (sized_world q v) = Some s" "right_size q (sized_world q v) s"
    using v i by (auto simp: objects_settled_def simp del: world_simps(15,16))
  moreover obtain t where "lister_ss r i (sized_world r u) = Some t" "right_size r (sized_world r u) t"
    using u i same_cluster_facts(1) [OF same] by (auto simp: objects_settled_def simp del: world_simps(15,16))
  ultimately have "counted_ss r i (sized_world r u) = counted_ss q i (sized_world q v)"
    by (simp add: counted_ss_def del: world_simps(15,16))
  then show "group_ready r (sized_world r u) i = group_ready q (sized_world q v) i"
    "group_members r (sized_world r u) i = group_members q (sized_world q v) i"
    by (simp_all add: group_ready_def group_members_def)
qed

text \<open>The status a run computes, from the stores it reads.\<close>

definition computed_status :: "addr \<Rightarrow> 'w world \<Rightarrow> string" where
  "computed_status p w =
     (let v = sized_world p w; n = groups p w in
      ready_status (int (card {i. 0 \<le> i \<and> i < n \<and> group_ready p v i}))
        (\<Sum>i | 0 \<le> i \<and> i < n \<and> group_ready p v i. group_members p v i) (Spec (h_clusters (w_heap v) p)))"

lemma same_computed_status:
  assumes same: "same_cluster q v r u" and sets: "w_statefulsets u = w_statefulsets v"
    and settled: "objects_settled q v" "objects_settled r u"
  shows "computed_status r u = computed_status q v"
proof -
  let ?u = "sized_world r u" and ?v = "sized_world q v" and ?n = "groups q v"
  have "{i. 0 \<le> i \<and> i < ?n \<and> group_ready r ?u i} = {i. 0 \<le> i \<and> i < ?n \<and> group_ready q ?v i}"
    using settled_counts(1) [OF same sets settled] by blast
  moreover have "(\<Sum>i | 0 \<le> i \<and> i < ?n \<and> group_ready q ?v i. group_members r ?u i) =
      (\<Sum>i | 0 \<le> i \<and> i < ?n \<and> group_ready q ?v i. group_members q ?v i)"
    using settled_counts(2) [OF same sets settled] by (intro sum.cong) auto
  moreover have "GroupReplica (Spec (h_clusters (w_heap ?u) r)) = GroupReplica (Spec (h_clusters (w_heap ?v) q))"
    "MembersPerGroup (Spec (h_clusters (w_heap ?u) r)) = MembersPerGroup (Spec (h_clusters (w_heap ?v) q))"
    using same unfolding same_cluster_def Let_def by (simp_all add: cluster_at_def del: world_simps(15,16))
  ultimately show ?thesis
    by (simp add: computed_status_def Let_def same_cluster_facts(1) [OF same] ready_status_def del: world_simps(15,16))
qed

lemma settled_run_status:
  assumes settled: "objects_settled q v" and wf: "wf_ptr (w_heap v) q" "quiet_for cl q"
    and run: "sync_cluster cl q v = (v', Returned None)"
  shows "\<exists>t c. w_trace v' = w_trace v @ t \<and>
    condition_of (conditions_after t (cluster_conditions (w_heap v) q)) BrokerClusterReady = Some c \<and>
    cond_Status c = computed_status q v"
proof -
  let ?v = "sized_world q v"
  let ?g = "int (card {i. 0 \<le> i \<and> i < groups q v \<and> group_ready q ?v i})"
  let ?m = "\<Sum>i | 0 \<le> i \<and> i < groups q v \<and> group_ready q ?v i. group_members q ?v i"
  let ?cs = "cluster_conditions (w_heap v) q"
  obtain v5 x where up: "updateClusterStatus cl q ?g ?m ?v = (v5, x)" by fastforce
  have wfs: "wf_ptr (w_heap ?v) q" using force_single_member_wf [OF EnsureDefaults_wf [OF wf(1)]] by simp
  have st: "ready_status ?g ?m (Spec (h_clusters (w_heap ?v) q)) = computed_status q v"
    by (simp add: computed_status_def Let_def)
  let ?u = "ready_update (cl_Now cl (w_env ?v)) (computed_status q v) ?cs"
  have x: "x = None" and trace: "w_trace v' = w_trace v5"
    using run settled_run [OF settled, of cl] up by (auto simp: record_event_def split: option.splits)
  have upd: "if snd ?u
      then \<exists>t s. w_trace v5 = w_trace v @ t \<and> retried (wanted_status s) t None \<and> status_conditions s = fst ?u
      else w_trace v5 = w_trace v"
    using updateClusterStatus_run(1) [OF up wfs wf(2)] unfolding st conditions_defaulted x by (simp split: if_splits)
  show ?thesis
  proof (cases "snd ?u")
    case True
    then obtain t s where t: "w_trace v5 = w_trace v @ t" "retried (wanted_status s) t None" "status_conditions s = fst ?u"
      using upd by auto
    then have "t \<noteq> []" by (auto simp: retried_def)
    moreover obtain ns c where "last t = (CallUpdateCluster ns c, None)" "Status c = s"
      using t(2) last_in_set [OF \<open>t \<noteq> []\<close>]
      by (cases "last t") (fastforce simp: retried_def ends_as_def wanted_status_def split: api_call.splits)
    ultimately have "conditions_after t ?cs = fst ?u" using t(3) by (simp add: conditions_after_def)
    then show ?thesis
      using t(1) trace condition_of_ready_update [of "cl_Now cl (w_env ?v)" "computed_status q v" ?cs]
      by (intro exI [of _ t]) (auto split: option.splits)
  next
    case False
    then obtain c where "condition_of ?cs BrokerClusterReady = Some c" "cond_Status c = computed_status q v"
      by (auto simp: ready_update_changed split: option.splits)
    moreover have "w_trace v' = w_trace v @ []" using upd False trace by simp
    ultimately show ?thesis by (intro exI [of _ "[]"] exI [of _ c]) (simp add: conditions_after_def)
  qed
qed

lemma settled_run_stores:
  assumes sv: "serves cl sv" and quiet: "quiet_for cl q" and settled: "objects_settled q v"
    and run: "sync_cluster cl q v = (v', out)"
  shows "both_stores sv v' = both_stores sv v"
proof -
  obtain v5 x where up: "updateClusterStatus cl q (int (card {i. 0 \<le> i \<and> i < groups q v \<and> group_ready q (sized_world q v) i}))
      (\<Sum>i | 0 \<le> i \<and> i < groups q v \<and> group_ready q (sized_world q v) i. group_members q (sized_world q v) i)
      (sized_world q v) = (v5, x)" by fastforce
  have "both_stores sv v5 = both_stores sv (sized_world q v)"
    using updateClusterStatus_stores [OF _ _ up] sv quiet by (simp add: serves_def quiet_for_def)
  then show ?thesis
    using run settled_run [OF settled, of cl] up by (auto simp: record_event_def both_stores_def split: option.splits)
qed

lemma converged_alt:
  "converged p w \<longleftrightarrow> objects_settled p w \<and>
     (\<exists>c. condition_of (cluster_conditions (w_heap w) p) BrokerClusterReady = Some c \<and>
        cond_Status c = computed_status p w)"
  unfolding converged_def objects_settled_def computed_status_def Let_def conditions_defaulted by (rule refl)

text \<open>
  C4: The closed loop comes to rest. After one round and a second run that returned nil, let
  the informers show the result: the stores as they are in the server, and the cluster with
  the conditions of the run's status update. As long as nobody else changes an object (the
  replica counts in the status of a stateful set included), the next run makes no API call at
  all and returns nil: the operator's own writes do not set off further writes.
\<close>

theorem closed_loop_rests:
  assumes env: "serves cl sv" "\<forall>p. quiet_for cl p"
    and key: "SplitMetaNamespaceKey key = Inr (ns, n)" "key = ns @ ''/'' @ n"
    and ready: "ready_state sv key (p, w)" and first: "round cl sv key (p, w) (q, v)"
    and second: "syncHandler cl key v = (v', Returned None)" "refreshed sv key (q, v) v' (r, u)"
      "cluster_conditions (w_heap u) r =
         conditions_after (drop (length (w_trace v)) (w_trace v')) (cluster_conditions (w_heap v) q)"
    and third: "syncHandler cl key u = (u', out)"
  shows "out = Returned None \<and> w_trace u' = w_trace u"
proof -
  have quiet: "quiet_for cl p" for p using env(2) by blast
  have v: "objects_settled q v" "ready_state sv key (q, v)"
    using round_settles [OF env(1) quiet key ready first] by blast+
  note v' = v(2) [unfolded ready_state_def prod.case]
  have run: "sync_cluster cl q v = (v', Returned None)" using second(1) v' by (simp add: syncHandler_at [OF key])
  have "round cl sv key (q, v) (r, u)" using second(1,2) by (intro round.intros) simp_all
  then have u: "objects_settled r u" "ready_state sv key (r, u)"
    using round_settles [OF env(1) quiet key v(2)] by blast+
  have same: "same_cluster q v r u" and stores: "both_stores sv u = both_stores sv v'" "in_step sv u"
    using second(2) by (simp_all add: refreshed_def)
  have "both_stores sv v' = both_stores sv v" by (rule settled_run_stores [OF env(1) quiet v(1) run])
  then have sets: "w_statefulsets u = w_statefulsets v"
    using stores v' by (simp add: both_stores_def in_step_def)
  obtain t c where "w_trace v' = w_trace v @ t" "cond_Status c = computed_status q v"
    "condition_of (conditions_after t (cluster_conditions (w_heap v) q)) BrokerClusterReady = Some c"
    using settled_run_status [OF v(1) _ quiet run] v' by blast
  then have "converged r u"
    using second(3) u(1) same_computed_status [OF same sets v(1) u(1)]
    by (simp add: converged_alt)
  then show ?thesis
    using converged_run [OF _ _ quiet] third u(2)
    by (simp add: ready_state_def syncHandler_at [OF key])
qed

section \<open>A small server\<close>

text \<open>
  A server for the witness: two maps and a clock. A patch is the wanted replica count,
  written as that many marks.
\<close>

record shelves =
  sh_services :: "Service indexer"
  sh_sets :: "StatefulSet indexer"
  sh_clock :: time

definition filed :: "string \<Rightarrow> StatefulSet \<Rightarrow> bool" where
  "filed k s \<longleftrightarrow> k = om_Namespace (ss_ObjectMeta s) @ ''/'' @ om_Name (ss_ObjectMeta s)"

definition shelved_sets :: "shelves \<Rightarrow> StatefulSet indexer" where
  "shelved_sets e k = (case sh_sets e k of None \<Rightarrow> None | Some s \<Rightarrow> if filed k s then Some s else None)"

definition shelf_stores :: "shelves stored" where
  "shelf_stores = \<lparr>st_services = sh_services, st_sets = shelved_sets\<rparr>"

definition replicas_text :: "int32 option \<Rightarrow> string" where
  "replicas_text r = (case r of None \<Rightarrow> ''-'' | Some n \<Rightarrow> replicate (unat n) CHR ''1'')"

definition text_replicas :: "string \<Rightarrow> int32 option" where
  "text_replicas t = (if t = ''-'' then None else Some (of_nat (length t)))"

definition with_replicas :: "int32 option \<Rightarrow> StatefulSet \<Rightarrow> StatefulSet" where
  "with_replicas r s = s\<lparr>ss_Spec := (ss_Spec s)\<lparr>ss_SpecReplicas := r\<rparr>\<rparr>"

definition taken :: go_error where
  "taken = StatusError ReasonAlreadyExists ''already exists''"

definition shelf_client :: "shelves client" where
  "shelf_client =
     \<lparr>cl_CreateService = (\<lambda>e ns s. let k = ns @ ''/'' @ om_Name (svc_ObjectMeta s) in
        case sh_services e k of
          None \<Rightarrow> (e\<lparr>sh_services := (sh_services e)(k \<mapsto> s)\<rparr>, Inr s) | Some _ \<Rightarrow> (e, Inl taken)),
      cl_CreateStatefulSet = (\<lambda>e ns s. let k = ns @ ''/'' @ om_Name (ss_ObjectMeta s);
          t = s\<lparr>ss_ObjectMeta := (ss_ObjectMeta s)\<lparr>om_Namespace := ns\<rparr>\<rparr> in
        case shelved_sets e k of
          None \<Rightarrow> (e\<lparr>sh_sets := (sh_sets e)(k \<mapsto> t)\<rparr>, Inr t) | Some _ \<Rightarrow> (e, Inl taken)),
      cl_UpdateStatefulSet = (\<lambda>e ns s. (e, Inl taken)),
      cl_PatchStatefulSet = (\<lambda>e ns n p. let k = ns @ ''/'' @ n in
        case shelved_sets e k of
          None \<Rightarrow> (e, Inl (StatusError ReasonNotFound ''not found''))
        | Some s \<Rightarrow> (let t = with_replicas (text_replicas p) s in (e\<lparr>sh_sets := (sh_sets e)(k \<mapsto> t)\<rparr>, Inr t))),
      cl_UpdatePod = (\<lambda>e ns p. (e, Inl taken)), cl_PatchPod = (\<lambda>e ns n p. (e, Inl taken)),
      cl_UpdateCluster = (\<lambda>e ns c. (e\<lparr>sh_clock := sh_clock e + 1\<rparr>, Inr c)),
      cl_MarshalStatefulSet = (\<lambda>s. Inr (replicas_text (ss_SpecReplicas (ss_Spec s)))),
      cl_MarshalPod = (\<lambda>p. Inr (pod_Body p)),
      cl_MergePatchStatefulSet = (\<lambda>a b. Inr b), cl_MergePatchPod = (\<lambda>a b. Inr b),
      cl_Now = sh_clock, cl_Sleep = id\<rparr>"

lemma replicas_text_inverse [simp]: "text_replicas (replicas_text r) = r"
proof (cases r)
  case (Some n)
  have "replicate (unat n) CHR ''1'' \<noteq> ''-''" by (cases "unat n") auto
  then show ?thesis using Some by (simp add: text_replicas_def replicas_text_def)
qed (simp add: text_replicas_def replicas_text_def)

lemma shelved_upd:
  "filed k s \<Longrightarrow> shelved_sets (e\<lparr>sh_sets := (sh_sets e)(k \<mapsto> s)\<rparr>) = (shelved_sets e)(k \<mapsto> s)"
  by (auto simp: shelved_sets_def fun_eq_iff)

lemma shelved_filed: "shelved_sets e k = Some s \<Longrightarrow> filed k s"
  by (auto simp: shelved_sets_def split: option.splits if_splits)

lemma shelved_other [simp]:
  "shelved_sets (e\<lparr>sh_services := m\<rparr>) = shelved_sets e" "shelved_sets (e\<lparr>sh_clock := t\<rparr>) = shelved_sets e"
  by (simp_all add: shelved_sets_def fun_eq_iff)

lemma controller_uid_namespace [simp]: "controller_uid (om\<lparr>om_Namespace := ns\<rparr>) = controller_uid om"
  by (simp add: controller_uid_def GetControllerOf_def)

lemma shelf_serves: "serves shelf_client shelf_stores"
  unfolding serves_def
proof (intro conjI)
  show "files_by_name shelf_stores"
    using shelved_filed by (simp add: files_by_name_def shelf_stores_def filed_def)
  show "creates (cl_CreateService shelf_client) (st_services shelf_stores) svc_ObjectMeta like_service"
    by (auto simp: creates_def shelf_client_def shelf_stores_def taken_def like_service_def Let_def split: option.split)
  have "filed (ns @ ''/'' @ om_Name (ss_ObjectMeta x)) (x\<lparr>ss_ObjectMeta := (ss_ObjectMeta x)\<lparr>om_Namespace := ns\<rparr>\<rparr>)"
    for ns x by (simp add: filed_def)
  then show "creates (cl_CreateStatefulSet shelf_client) (st_sets shelf_stores) ss_ObjectMeta like_set"
    by (auto simp: creates_def shelf_client_def shelf_stores_def taken_def like_set_def same_size_def Let_def
        shelved_upd split: option.split)
  show "patches shelf_client shelf_stores"
    unfolding patches_def
  proof (intro allI impI)
    fix e ns n and s wanted :: StatefulSet
    assume s: "st_sets shelf_stores e (ns @ ''/'' @ n) = Some s \<and>
      controller_uid (ss_ObjectMeta s) = controller_uid (ss_ObjectMeta wanted)"
    let ?t = "with_replicas (ss_SpecReplicas (ss_Spec wanted)) s" and ?k = "ns @ ''/'' @ n"
    have "filed ?k s" using s by (intro shelved_filed [of e]) (simp add: shelf_stores_def)
    then have "filed ?k ?t" by (simp add: filed_def with_replicas_def)
    then have "shelved_sets (e\<lparr>sh_sets := (sh_sets e)(?k \<mapsto> ?t)\<rparr>) = (shelved_sets e)(?k \<mapsto> ?t)" by (rule shelved_upd)
    moreover have "like_set wanted ?t" using s by (simp add: like_set_def same_size_def with_replicas_def)
    ultimately show "\<exists>p e' t. merge_patch shelf_client s wanted = Some p \<and>
        cl_PatchStatefulSet shelf_client e ns n p = (e', Inr t) \<and>
        st_sets shelf_stores e' = (st_sets shelf_stores e)(ns @ ''/'' @ n \<mapsto> t) \<and> like_set wanted t"
      using s by (simp add: merge_patch_def shelf_client_def shelf_stores_def Let_def)
  qed
  show "keeps_stores shelf_client shelf_stores"
    by (auto simp: keeps_stores_def shelf_client_def shelf_stores_def Let_def split: option.split)
qed

definition empty_shelves :: shelves where
  "empty_shelves = \<lparr>sh_services = Map.empty, sh_sets = Map.empty, sh_clock = 100\<rparr>"

definition shelf_world :: "shelves world" where
  "shelf_world =
     \<lparr>w_heap = sample_heap, w_clusters = [''rocketmq-operator/mybrokercluster'' \<mapsto> 0],
      w_services = Map.empty, w_statefulsets = Map.empty, w_env = empty_shelves, w_trace = [], w_events = [],
      w_errors = []\<rparr>"

lemma shelf_quiet: "quiet_for shelf_client p"
  by (simp add: quiet_for_def no_wait_timeout_def quiet_sleep_def shelf_client_def)

lemma shelf_ready: "ready_state shelf_stores sample_key (0, shelf_world)"
proof -
  have "in_step shelf_stores shelf_world"
    by (auto simp: in_step_def shelf_world_def shelf_stores_def empty_shelves_def shelved_sets_def)
  moreover have "unobstructed 0 shelf_world"
    by (simp add: unobstructed_def lister_keys shelf_world_def)
  moreover have "plain_name 0 shelf_world"
    by (simp add: plain_name_def shelf_world_def sample_heap_def sample_obj_def no_verb_def)
  ultimately show ?thesis
    using sample_wf by (simp add: ready_state_def shelf_world_def GetByKey_def)
qed

lemma sample_key_pair: "sample_key = ''rocketmq-operator'' @ ''/'' @ ''mybrokercluster''"
  by simp


text \<open>A server that already has the sample cluster's objects, and caches that show them.\<close>

definition rest_world :: "shelves world" where
  "rest_world = shelf_world
     \<lparr>w_services := w_services converged_world, w_statefulsets := w_statefulsets converged_world,
      w_env := empty_shelves\<lparr>sh_services := w_services converged_world, sh_sets := w_statefulsets converged_world\<rparr>\<rparr>"

lemma converged_fields:
  assumes "w_heap w = w_heap v" "w_services w = w_services v" "w_statefulsets w = w_statefulsets v"
  shows "converged p w = converged p v"
proof -
  have "counted_ss p i (sized_world p w) = counted_ss p i (sized_world p v)" for i
    using assms
    by (simp add: counted_ss_def lister_ss_def right_size_def wanted_ss_def Let_def split: option.split)
  then have "group_ready p (sized_world p w) = group_ready p (sized_world p v)"
    "group_members p (sized_world p w) = group_members p (sized_world p v)"
    by (auto simp: group_ready_def group_members_def fun_eq_iff)
  then show ?thesis
    using assms
    by (simp add: converged_def Let_def groups_alt lister_service_def lister_ss_def owns_service_def owns_ss_def
        right_size_def)
qed

lemma rest_converged: "converged 0 rest_world"
  using converged_sample
  by (subst converged_fields [of rest_world converged_world])
     (simp_all add: rest_world_def shelf_world_def converged_world_def)

lemma rest_ready: "ready_state shelf_stores sample_key (0, rest_world)"
proof -
  have "shelved_sets (w_env rest_world) = w_statefulsets converged_world"
    by (rule ext)
       (simp add: shelved_sets_def rest_world_def converged_world_def filed_def sample_defaulted_meta
        sample_defaulted_names)
  then have "in_step shelf_stores rest_world"
    by (simp add: in_step_def rest_world_def shelf_stores_def empty_shelves_def)
  moreover have "unobstructed 0 rest_world"
    by (rule settled_unobstructed [OF converged_settled [OF rest_converged]])
  ultimately show ?thesis
    using shelf_ready by (simp add: ready_state_def rest_world_def plain_name_def)
qed

theorem closed_loop_rests_witness:
  "\<exists>w' out. syncHandler shelf_client sample_key rest_world = (w', out) \<and> out = Returned None \<and>
     w_trace w' = w_trace rest_world"
proof -
  have quiet: "\<forall>p. quiet_for shelf_client p" using shelf_quiet by blast
  note ready = rest_ready [unfolded ready_state_def prod.case]
  obtain w' out where run: "syncHandler shelf_client sample_key rest_world = (w', out)" by fastforce
  have at: "sync_cluster shelf_client 0 rest_world = (w', out)"
    using run ready by (simp add: syncHandler_at [OF sample_key_found(1) sample_key_pair])
  have out: "out = Returned None" "w_trace w' = w_trace rest_world"
    using converged_run [OF rest_converged _ shelf_quiet at] ready by blast+
  have "both_stores shelf_stores w' = both_stores shelf_stores rest_world"
    by (rule settled_run_stores [OF shelf_serves shelf_quiet converged_settled [OF rest_converged] at])
  then have same: "refreshed shelf_stores sample_key (0, rest_world) w' (0, rest_world)"
    using ready by (simp add: refreshed_def same_cluster_def)
  have first: "round shelf_client shelf_stores sample_key (0, rest_world) (0, rest_world)"
    using run same by (intro round.intros) simp_all
  have "cluster_conditions (w_heap rest_world) 0 =
      conditions_after (drop (length (w_trace rest_world)) (w_trace w')) (cluster_conditions (w_heap rest_world) 0)"
    by (simp add: out(2) conditions_after_def)
  from closed_loop_rests [OF shelf_serves quiet sample_key_found(1) sample_key_pair rest_ready first
      run [unfolded out(1)] same this run] run
  show ?thesis by blast
qed

section \<open>A cache behind its server\<close>

lemma for_loop_blocked:
  assumes inv: "Q w" "\<And>j a w w' r. j \<in> set is \<Longrightarrow> Q w \<Longrightarrow> body j a w = (w', r) \<Longrightarrow> Q w'"
    and i: "i \<in> set is" "\<And>a w w' a'. Q w \<Longrightarrow> body i a w \<noteq> (w', Continue a')"
  shows "for_loop body is a w \<noteq> (w', Continue a')"
  using inv i(1)
proof (induction "is" arbitrary: a w)
  case (Cons j "is")
  show ?case
  proof
    assume "for_loop body (j # is) a w = (w', Continue a')"
    then obtain w1 a1 where 1: "body j a w = (w1, Continue a1)" "for_loop body is a1 w1 = (w', Continue a')"
      by (rule for_loop_ConsE) auto
    then have ne: "j \<noteq> i" using i(2) [OF Cons.prems(1)] by blast
    have "Q w1" using Cons.prems(1,2) 1(1) by (meson list.set_intros(1))
    then show False
      using Cons.IH [of w1 a1] Cons.prems(2,3) 1(2) ne by (metis list.set_intros(2) set_ConsD)
  qed
qed simp

text \<open>A creation keeps what is filed, whatever it answers.\<close>

lemma create_service_keeps:
  assumes sv: "serves cl sv" and run: "CreateService cl s w = (w', e)" and there: "st_services sv (w_env w) k \<noteq> None"
  shows "st_services sv (w_env w') k \<noteq> None" "st_sets sv (w_env w') = st_sets sv (w_env w)"
    and "om_Namespace (svc_ObjectMeta s) @ ''/'' @ om_Name (svc_ObjectMeta s) = k \<Longrightarrow> e \<noteq> None"
proof -
  let ?ns = "om_Namespace (svc_ObjectMeta s)"
  have post: "creates (cl_CreateService cl) (st_services sv) svc_ObjectMeta like_service"
    using sv by (simp add: serves_def)
  obtain x r where answer: "cl_CreateService cl (w_env w) ?ns s = (x, r)" by fastforce
  then have w': "w_env w' = x" "e = err_of r"
    using run by (auto simp: CreateService_def call_api_def Let_def)
  show "st_sets sv (w_env w') = st_sets sv (w_env w)"
    using sv answer w'(1) unfolding serves_def keeps_stores_def by (metis fst_conv)
  have "st_services sv x k \<noteq> None \<and> (?ns @ ''/'' @ om_Name (svc_ObjectMeta s) = k \<longrightarrow> err_of r \<noteq> None)"
  proof (cases "st_services sv (w_env w) (?ns @ ''/'' @ om_Name (svc_ObjectMeta s))")
    case None
    from createsD [OF post this] obtain y where "r = Inr y"
      "st_services sv x = (st_services sv (w_env w))(?ns @ ''/'' @ om_Name (svc_ObjectMeta s) \<mapsto> y)"
      using answer by (metis prod.inject)
    then show ?thesis using there None by (metis fun_upd_apply option.distinct(1))
  next
    case (Some y)
    from creates_taken [OF post this] obtain msg where "r = Inl (StatusError ReasonAlreadyExists msg)"
      "st_services sv x = st_services sv (w_env w)"
      using answer by (metis prod.inject)
    then show ?thesis using there by simp
  qed
  then show "st_services sv (w_env w') k \<noteq> None"
    "?ns @ ''/'' @ om_Name (svc_ObjectMeta s) = k \<Longrightarrow> e \<noteq> None"
    by (simp_all add: w')
qed

lemma service_pass_keeps:
  assumes sv: "serves cl sv" and run: "sync_service cl p i a w = (w', r)"
    and there: "st_services sv (w_env w) k \<noteq> None"
  shows "st_services sv (w_env w') k \<noteq> None \<and> st_sets sv (w_env w') = st_sets sv (w_env w)"
    and "lister_service p i w = None \<Longrightarrow> service_key p w i = k \<Longrightarrow> r \<noteq> Continue b"
proof -
  let ?c = "cluster_at (w_heap w) p"
  have "(st_services sv (w_env w') k \<noteq> None \<and> st_sets sv (w_env w') = st_sets sv (w_env w)) \<and>
    (lister_service p i w = None \<and> service_key p w i = k \<longrightarrow> r \<noteq> Continue b)"
  proof (cases "lister_service p i w")
    case None
    obtain w1 e where create: "CreateService cl (NewHeadlessService ?c i) w = (w1, e)" by fastforce
    have "w' = w1" "r = (case e of None \<Rightarrow> Continue () | Some err \<Rightarrow> Return (Some err))"
      using run None create
      by (auto simp: sync_service_def get_or_create_service_def Services_Get_def lister_service_def Let_def
          split: option.splits)
    then show ?thesis
      using create_service_keeps [OF sv create there] by (auto simp: service_key_def Let_def split: option.split)
  next
    case (Some s)
    from run have "w_env w' = w_env w"
      by (rule sync_service_cases) (use Some in \<open>auto simp: record_event_def\<close>)
    then show ?thesis using Some there by simp
  qed
  then show "st_services sv (w_env w') k \<noteq> None \<and> st_sets sv (w_env w') = st_sets sv (w_env w)"
    "lister_service p i w = None \<Longrightarrow> service_key p w i = k \<Longrightarrow> r \<noteq> Continue b" by blast+
qed

text \<open>
  C11: A cache that is behind its server makes a run fail. If the server has the service of
  one of the groups and the informer has not delivered it yet, the run returns an error,
  having made no call but creations of services: no stateful set in the server changes and
  no status is sent. (\<open>failed_key_not_requeued\<close> says that such a run is not repeated.)
\<close>

theorem stale_cache_fails:
  assumes sv: "serves cl sv" and i: "0 \<le> i" "i < groups p w"
    and missing: "lister_service p i (defaulted_world p w) = None"
    and there: "st_services sv (w_env w) (service_key p (defaulted_world p w) i) = Some s"
    and run: "sync_cluster cl p w = (w', out)"
  shows "(\<exists>e. out = Returned (Some e)) \<and> st_sets sv (w_env w') = st_sets sv (w_env w) \<and>
    (\<exists>t. w_trace w' = w_trace w @ t \<and> (\<forall>(c, e) \<in> set t. \<exists>ns x. c = CallCreateService ns x))"
proof -
  let ?d = "defaulted_world p w" and ?n = "groups p w"
  let ?k = "service_key p ?d i"
  define Q where "Q v \<longleftrightarrow> same_store ?d v \<and> st_services sv (w_env v) ?k \<noteq> None \<and> st_sets sv (w_env v) = st_sets sv (w_env w)"
    for v
  obtain w2 r where loop: "sync_services cl p ?n ?d = (w2, r)" by fastforce
  have start: "Q ?d" using there by (simp add: Q_def)
  have pass: "Q v'" if "Q v" "sync_service cl p j a v = (v', x)" for j a v v' x
    using that service_pass_keeps(1) [OF sv that(2)] same_store_trans service_body.body_store [OF that(2)]
    unfolding Q_def by metis
  have "sync_service cl p i a v \<noteq> (v', Continue b)" if "Q v" for a v v' b
    using that service_pass_keeps(2) [OF sv, of p i a v v' "Continue b" ?k b] missing
    by (auto simp: Q_def same_store_keys same_store_views)
  then have "r \<noteq> Continue b" for b
    using for_loop_blocked [of Q ?d "indices ?n" "sync_service cl p" i "()", OF start pass] loop i
    unfolding sync_services_def by fastforce
  then obtain e where e: "r = Return (Some e)" using sync_services_result [OF loop] by blast
  have w': "w' = w2" "out = Returned (Some e)"
    using run loop e by (auto simp: sync_cluster_def Let_def groups_alt defaulted_world_def)
  have "for_loop (sync_service cl p) js b v = (v', x) \<Longrightarrow> Q v \<Longrightarrow> Q v'" for js b v v' x
  proof (induction js arbitrary: b v)
    case (Cons j js)
    from Cons.prems(1) show ?case by (rule for_loop_ConsE) (use pass Cons in blast)+
  qed simp
  then have "Q w2" using loop start unfolding sync_services_def by blast
  moreover obtain t where "w_trace w2 = w_trace w @ t"
    "\<forall>(c, e) \<in> set t. \<exists>i. 0 \<le> i \<and> i < ?n \<and> service_allowed p i ?d c"
    using services_run(2) [OF loop] by auto
  ultimately show ?thesis
    by (fastforce simp: w' Q_def service_allowed_def create_service_call_def Let_def)
qed

definition stale_world :: "shelves world" where
  "stale_world = shelf_world\<lparr>w_env := empty_shelves\<lparr>sh_services :=
     [service_key 0 (defaulted_world 0 shelf_world) 0 \<mapsto> NewHeadlessService sample_defaulted 0]\<rparr>\<rparr>"

theorem stale_cache_fails_witness:
  "\<exists>w' e. sync_cluster shelf_client 0 stale_world = (w', Returned (Some e)) \<and>
     st_sets shelf_stores (w_env w') (set_key 0 (sized_world 0 stale_world) 0) = None"
proof -
  obtain w' out where run: "sync_cluster shelf_client 0 stale_world = (w', out)" by fastforce
  have "groups 0 stale_world = 2"
    using sample_groups by (simp add: groups_alt shelf_world_def stale_world_def)
  then have i: "0 < groups 0 stale_world" by simp
  have missing: "lister_service 0 0 (defaulted_world 0 stale_world) = None"
    by (simp add: lister_keys stale_world_def shelf_world_def)
  have "service_key 0 (defaulted_world 0 stale_world) 0 = service_key 0 (defaulted_world 0 shelf_world) 0"
    by (simp add: service_key_def stale_world_def)
  then have there: "st_services shelf_stores (w_env stale_world) (service_key 0 (defaulted_world 0 stale_world) 0) =
      Some (NewHeadlessService sample_defaulted 0)"
    by (simp add: shelf_stores_def stale_world_def)
  have "st_sets shelf_stores (w_env stale_world) k = None" for k
    by (simp add: shelf_stores_def stale_world_def empty_shelves_def shelved_sets_def)
  with stale_cache_fails [OF shelf_serves order_refl i missing there run] run
  show ?thesis by auto
qed

section \<open>From an event to a repaired cluster\<close>



end
