(* ===== verification/Fleet.thy ===== *)
theory Fleet
  imports Closed_Loop
begin

text \<open>
  Several clusters with one operator and one API server. \<open>confined\<close> is what the isolation of
  clusters needs of the server: a call changes at most the object it names. Isolation holds for
  every run, also one with stale caches, foreign objects or failing calls; with the contract of
  \<open>Closed_Loop\<close> it gives the convergence of all clusters under every order of their runs.

  The last section says what the Ready condition of a settled cluster tells about its pods.
\<close>

section \<open>A call changes the object it names\<close>

definition confined :: "'w client \<Rightarrow> 'w stored \<Rightarrow> bool" where
  "confined cl sv \<longleftrightarrow> keeps_stores cl sv \<and>
     (\<forall>e ns s k. k \<noteq> ns @ ''/'' @ om_Name (svc_ObjectMeta s) \<longrightarrow>
        st_services sv (fst (cl_CreateService cl e ns s)) k = st_services sv e k) \<and>
     (\<forall>e ns s k. k \<noteq> ns @ ''/'' @ om_Name (ss_ObjectMeta s) \<longrightarrow>
        st_sets sv (fst (cl_CreateStatefulSet cl e ns s)) k = st_sets sv e k) \<and>
     (\<forall>e ns n p k. k \<noteq> ns @ ''/'' @ n \<longrightarrow>
        st_sets sv (fst (cl_PatchStatefulSet cl e ns n p)) k = st_sets sv e k)"

text \<open>Outside the keys \<open>A\<close> of services and \<open>B\<close> of stateful sets the server has what it had.\<close>

definition same_outside :: "'w stored \<Rightarrow> string set \<Rightarrow> string set \<Rightarrow> 'w world \<Rightarrow> 'w world \<Rightarrow> bool" where
  "same_outside sv A B w w' \<longleftrightarrow>
     (\<forall>k. k \<notin> A \<longrightarrow> st_services sv (w_env w') k = st_services sv (w_env w) k) \<and>
     (\<forall>k. k \<notin> B \<longrightarrow> st_sets sv (w_env w') k = st_sets sv (w_env w) k)"

lemma same_outside_env [intro]: "both_stores sv w' = both_stores sv w \<Longrightarrow> same_outside sv A B w w'"
  by (simp add: same_outside_def both_stores_def)

lemma same_outside_trans: "same_outside sv A B u v \<Longrightarrow> same_outside sv A B v w \<Longrightarrow> same_outside sv A B u w"
  by (simp add: same_outside_def)

lemma confined_calls:
  assumes "confined cl sv"
  shows "ns @ ''/'' @ om_Name (svc_ObjectMeta s) \<in> A \<Longrightarrow> w_env w' = fst (cl_CreateService cl (w_env w) ns s) \<Longrightarrow>
      same_outside sv A B w w'"
    and "ns @ ''/'' @ om_Name (ss_ObjectMeta t) \<in> B \<Longrightarrow> w_env w' = fst (cl_CreateStatefulSet cl (w_env w) ns t) \<Longrightarrow>
      same_outside sv A B w w'"
    and "ns @ ''/'' @ n \<in> B \<Longrightarrow> w_env w' = fst (cl_PatchStatefulSet cl (w_env w) ns n x) \<Longrightarrow>
      same_outside sv A B w w'"
  using assms unfolding same_outside_def confined_def keeps_stores_def by metis+

lemma control_outside:
  assumes "confined cl sv"
  shows "CreateService cl s w = (w', e) \<Longrightarrow> om_Namespace (svc_ObjectMeta s) @ ''/'' @ om_Name (svc_ObjectMeta s) \<in> A \<Longrightarrow>
      same_outside sv A B w w'"
    and "CreateStatefulSet cl t w = (w', e) \<Longrightarrow> om_Namespace (ss_ObjectMeta t) @ ''/'' @ om_Name (ss_ObjectMeta t) \<in> B \<Longrightarrow>
      same_outside sv A B w w'"
    and "Patch cl t new w = (w', e) \<Longrightarrow> om_Namespace (ss_ObjectMeta t) @ ''/'' @ om_Name (ss_ObjectMeta t) \<in> B \<Longrightarrow>
      same_outside sv A B w w'"
proof -
  show "same_outside sv A B w w'"
    if "CreateService cl s w = (w', e)" "om_Namespace (svc_ObjectMeta s) @ ''/'' @ om_Name (svc_ObjectMeta s) \<in> A"
    using that by (intro confined_calls(1) [OF assms that(2)]) (auto simp: CreateService_def call_api_def Let_def split: prod.splits)
  show "same_outside sv A B w w'"
    if "CreateStatefulSet cl t w = (w', e)" "om_Namespace (ss_ObjectMeta t) @ ''/'' @ om_Name (ss_ObjectMeta t) \<in> B"
    using that by (intro confined_calls(2) [OF assms that(2)]) (auto simp: CreateStatefulSet_def call_api_def Let_def split: prod.splits)
  show "same_outside sv A B w w'"
    if run: "Patch cl t new w = (w', e)" and "om_Namespace (ss_ObjectMeta t) @ ''/'' @ om_Name (ss_ObjectMeta t) \<in> B"
  proof (cases "merge_patch cl t new")
    case None
    then have "w' = w" using run by (auto simp: Patch_def PatchStatefulSet_def merge_patch_def split: sum.splits)
    then show ?thesis by (simp add: same_outside_def)
  next
    case (Some x)
    then have "w_env w' = fst (cl_PatchStatefulSet cl (w_env w) (om_Namespace (ss_ObjectMeta t)) (om_Name (ss_ObjectMeta t)) x)"
      using run
      by (auto simp: Patch_def PatchStatefulSet_def merge_patch_def call_api_def Let_def split: sum.splits prod.splits)
    then show ?thesis by (rule confined_calls(3) [OF assms that(2)])
  qed
qed

section \<open>A run changes the objects of its cluster\<close>

lemma service_pass_outside:
  assumes cl: "confined cl sv" and run: "sync_service cl p i a w = (w', r)" and key: "service_key p w i \<in> A"
  shows "same_outside sv A B w w'"
proof (cases "lister_service p i w")
  case (Some s)
  from run have "w_env w' = w_env w"
    by (rule sync_service_cases) (use Some in \<open>auto simp: record_event_def\<close>)
  then show ?thesis by (simp add: same_outside_def)
next
  case None
  let ?s = "NewHeadlessService (cluster_at (w_heap w) p) i"
  obtain w1 e where create: "CreateService cl ?s w = (w1, e)" by fastforce
  have "w' = w1"
    using run None create
    by (auto simp: sync_service_def get_or_create_service_def Services_Get_def lister_service_def Let_def
        split: option.splits)
  then show ?thesis
    using control_outside(1) [OF cl create] key by (simp add: service_key_def Let_def)
qed

lemma set_pass_outside:
  assumes cl: "confined cl sv" and run: "sync_statefulset cl p i a w = (w', r)" and key: "set_key p w i \<in> B"
    and filed: "keyed w"
  shows "same_outside sv A B w w'"
proof (cases "lister_ss p i w")
  case None
  let ?s = "NewStatefulSet (cluster_at (w_heap w) p) i"
  obtain w1 e where create: "CreateStatefulSet cl ?s w = (w1, e)" by fastforce
  have "w' = w1"
    using run None create
    by (auto simp: sync_statefulset_def get_or_create_statefulset_def StatefulSets_Get_def lister_ss_def Let_def
        resize_statefulset_def split: option.splits)
  then show ?thesis
    using control_outside(2) [OF cl create] key by (simp add: set_key_def Let_def)
next
  case (Some s)
  then have name: "om_Namespace (ss_ObjectMeta s) @ ''/'' @ om_Name (ss_ObjectMeta s) \<in> B"
    using filed key by (simp add: keyed_def lister_keys GetByKey_def)
  from run show ?thesis
    by (rule sync_ss_cases)
       (use Some control_outside(3) [OF cl _ name] in \<open>auto simp: record_event_def same_outside_def\<close>)
qed

lemma for_loop_keeps:
  assumes "\<And>j a w w' r. j \<in> set is \<Longrightarrow> Q w \<Longrightarrow> body j a w = (w', r) \<Longrightarrow> Q w'"
    and "for_loop body is a w = (w', r)" "Q w"
  shows "Q w'"
  using assms
proof (induction "is" arbitrary: a w)
  case (Cons j "is")
  show ?case
    by (rule for_loop_ConsE [OF Cons.prems(2)]) (use Cons in \<open>(auto; metis list.set_intros)+\<close>)
qed simp

definition service_keys :: "addr \<Rightarrow> 'w world \<Rightarrow> string set" where
  "service_keys p w = {service_key p w i | i. 0 \<le> i}"

definition set_keys :: "addr \<Rightarrow> 'w world \<Rightarrow> string set" where
  "set_keys p w = {set_key p w i | i. 0 \<le> i}"

declare keys_defaulted [simp]

lemma services_outside:
  assumes cl: "confined cl sv" and run: "sync_services cl p n w = (w', r)" and keys: "service_keys p w \<subseteq> A"
  shows "same_outside sv A B w w'"
proof -
  have "same_store w w' \<and> same_outside sv A B w w'"
  proof (rule for_loop_keeps [OF _ run [unfolded sync_services_def]])
    fix j a v v' r assume j: "j \<in> set (indices n)" and v: "same_store w v \<and> same_outside sv A B w v"
      and body: "sync_service cl p j a v = (v', r)"
    have "service_key p v j \<in> A" using keys j same_store_keys(1) [of w v p] v by (auto simp: service_keys_def)
    from service_pass_outside [OF cl body this, of B] show "same_store w v' \<and> same_outside sv A B w v'"
      using v service_body.body_store [OF body] same_store_trans same_outside_trans by blast
  qed (simp add: same_outside_def)
  then show ?thesis by blast
qed

lemma sets_outside:
  assumes cl: "confined cl sv" and run: "sync_statefulsets cl p n w = (w', r)" and keys: "set_keys p w \<subseteq> B"
    and filed: "keyed w"
  shows "same_outside sv A B w w'"
proof -
  have "same_store w w' \<and> same_outside sv A B w w'"
  proof (rule for_loop_keeps [OF _ run [unfolded sync_statefulsets_def]])
    fix j a v v' r assume j: "j \<in> set (indices n)" and v: "same_store w v \<and> same_outside sv A B w v"
      and body: "sync_statefulset cl p j a v = (v', r)"
    have "set_key p v j \<in> B" "keyed v"
      using keys j same_store_keys(2,3) [of w v] v filed by (auto simp: set_keys_def)
    from set_pass_outside [OF cl body this, of A] show "same_store w v' \<and> same_outside sv A B w v'"
      using v ss_body.body_store [OF body] same_store_trans same_outside_trans by blast
  qed (simp add: same_outside_def)
  then show ?thesis by blast
qed

lemma run_outside:
  assumes cl: "confined cl sv" "no_wait_timeout cl" and filed: "keyed w"
    and run: "sync_cluster cl p w = (w', out)"
  shows "same_outside sv (service_keys p w) (set_keys p w) w w'"
proof -
  let ?o = "same_outside sv (service_keys p w) (set_keys p w)"
  have services: "?o w v" if "sync_services cl p (groups p w) (defaulted_world p w) = (v, r)" for v r
    using services_outside [OF cl(1) that, of "service_keys p w" "set_keys p w"]
    by (simp add: service_keys_def same_outside_def)
  have sets: "?o v u"
    if "same_store (sized_world p w) v" "sync_statefulsets cl p (groups p w) v = (u, r)" for v u r
    using sets_outside [OF cl(1) that(2), of "set_keys p w"] same_store_keys(2,3) [OF that(1)] filed
    by (simp add: set_keys_def keyed_def)
  have status: "?o v u" if "updateClusterStatus cl p g m v = (u, e)" for g m v u e
    using updateClusterStatus_stores [OF _ cl(2) that] cl(1) by (auto simp: confined_def)
  have heap: "?o v (v\<lparr>w_heap := h\<rparr>)" "?o v (record_event c ty rs msg v)" for v h c ty rs msg
    by (simp_all add: same_outside_def record_event_def)
  from run show ?thesis
  proof (rule sync_cluster_cases, goal_cases)
    case (1 e)
    then show ?case using services by blast
  next
    case (2 w2 w3 e)
    then show ?case using services sets heap(1) same_outside_trans by metis
  next
    case (3 w2 w3)
    then show ?case using services sets heap(1) same_outside_trans by metis
  next
    case (4 w2 w3 w4 g m e)
    then show ?case using services sets status heap(1) same_outside_trans by metis
  next
    case (5 w2 w3 w4 w5 g m)
    then show ?case using services sets status heap same_outside_trans by metis
  qed
qed

section \<open>The objects of different clusters\<close>

definition namespace_at :: "addr \<Rightarrow> 'w world \<Rightarrow> string" where
  "namespace_at p w = om_Namespace (bc_ObjectMeta (h_clusters (w_heap w) p))"

definition name_at :: "addr \<Rightarrow> 'w world \<Rightarrow> string" where
  "name_at p w = om_Name (bc_ObjectMeta (h_clusters (w_heap w) p))"

lemma slash_unique:
  assumes "no_slash ns" "no_slash ns'"
  shows "ns @ CHR ''/'' # x = ns' @ CHR ''/'' # y \<longleftrightarrow> ns = ns' \<and> x = y"
proof
  assume eq: "ns @ CHR ''/'' # x = ns' @ CHR ''/'' # y"
  have "takeWhile (\<lambda>c. c \<noteq> CHR ''/'') (ns @ CHR ''/'' # x) = ns"
    "takeWhile (\<lambda>c. c \<noteq> CHR ''/'') (ns' @ CHR ''/'' # y) = ns'"
    by (subst takeWhile_append2; use assms in \<open>auto simp: no_slash_def\<close>)+
  then show "ns = ns' \<and> x = y" using eq by simp
qed simp

lemma keys_apart:
  assumes "no_slash (namespace_at p w)" "no_slash (namespace_at q w)" "plain_name p w" "plain_name q w"
    and "(namespace_at p w, name_at p w) \<noteq> (namespace_at q w, name_at q w)" "0 \<le> i"
  shows "service_key q w i \<notin> service_keys p w" "set_key q w i \<notin> set_keys p w"
  using assms
  by (auto simp: service_keys_def set_keys_def service_key_def set_key_def Let_def namespace_at_def name_at_def
      plain_name_def cluster_at_def slash_unique svc_name_inj group_name_inj)

text \<open>
  C6: Clusters are isolated. A run for one cluster leaves the services and stateful sets of
  every other cluster in the server as they are: whatever the caches show, whatever the server
  answers and however the run ends, a panic included. Namespaces hold no slash and names no
  percent sign, as the server sees to, and the store files stateful sets by their own key.
\<close>

theorem clusters_isolated:
  assumes server: "confined cl sv" "no_wait_timeout cl" and cache: "keyed w"
    and names: "no_slash (namespace_at p w)" "no_slash (namespace_at q w)" "plain_name p w" "plain_name q w"
    and other: "(namespace_at p w, name_at p w) \<noteq> (namespace_at q w, name_at q w)"
    and run: "sync_cluster cl p w = (w', out)" and i: "0 \<le> i"
  shows "st_services sv (w_env w') (service_key q w i) = st_services sv (w_env w) (service_key q w i) \<and>
    st_sets sv (w_env w') (set_key q w i) = st_sets sv (w_env w) (set_key q w i)"
  using run_outside [OF server cache run] keys_apart [OF names other i] by (simp add: same_outside_def)

section \<open>The fleet\<close>

text \<open>
  A member of the fleet: the cache has the cluster under the key made of its namespace and
  name, and the run for it can begin (\<open>ready_state\<close>).
\<close>

definition member :: "'w stored \<Rightarrow> 'w world \<Rightarrow> string \<Rightarrow> addr \<Rightarrow> bool" where
  "member sv w key p \<longleftrightarrow> ready_state sv key (p, w) \<and> key = namespace_at p w @ ''/'' @ name_at p w \<and>
     no_slash (namespace_at p w) \<and> no_slash (name_at p w)"

definition fleet :: "'w stored \<Rightarrow> string set \<Rightarrow> 'w world \<Rightarrow> bool" where
  "fleet sv K w \<longleftrightarrow> (\<forall>key \<in> K. \<exists>p. member sv w key p)"

text \<open>
  A turn of the cluster under \<open>key\<close>: a run of the handler for it, and the informers' delivery,
  after which the caches are in step with the server again and have every cluster of the fleet,
  its spec unchanged and perhaps at another address.
\<close>

inductive turn :: "'w client \<Rightarrow> 'w stored \<Rightarrow> string set \<Rightarrow> string \<Rightarrow> 'w world \<Rightarrow> 'w world \<Rightarrow> bool"
  for cl sv K where
  "syncHandler cl key w = (w', out) \<Longrightarrow>
   \<forall>j \<in> K. \<forall>p. GetByKey (w_clusters w) j = Some p \<longrightarrow> (\<exists>q. refreshed sv j (p, w) w' (q, v)) \<Longrightarrow>
   turn cl sv K key w v"

inductive_cases turnE: "turn cl sv K key w v"

inductive turns :: "'w client \<Rightarrow> 'w stored \<Rightarrow> string set \<Rightarrow> string list \<Rightarrow> 'w world \<Rightarrow> 'w world \<Rightarrow> bool"
  for cl sv K where
  turns_Nil: "turns cl sv K [] w w"
| turns_snoc: "turns cl sv K keys w v \<Longrightarrow> key \<in> K \<Longrightarrow> turn cl sv K key v u \<Longrightarrow> turns cl sv K (keys @ [key]) w u"

lemma namespace_defaulted [simp]:
  "om_Namespace (bc_ObjectMeta (cluster_at (w_heap (sized_world p w)) p)) = namespace_at p w"
  "om_Name (bc_ObjectMeta (cluster_at (w_heap (sized_world p w)) p)) = name_at p w"
  by (simp_all add: namespace_at_def name_at_def cluster_at_def EnsureDefaults_struct)

lemma same_cluster_identity:
  "same_cluster p w q v \<Longrightarrow> namespace_at q v = namespace_at p w \<and> name_at q v = name_at p w"
  by (simp add: same_cluster_def Let_def del: world_simps(15,16))

lemma same_cluster_keys:
  assumes "same_cluster p w q v"
  shows "service_key q v = service_key p w" "set_key q v = set_key p w"
  using same_cluster_identity [OF assms]
  by (simp_all add: service_key_def set_key_def svc_name_format_def group_name_format_def namespace_at_def name_at_def
      cluster_at_def fun_eq_iff)

text \<open>A cluster whose objects are as they were is as free and as settled as it was.\<close>

lemma undisturbed:
  assumes same: "same_cluster p w q v"
    and slots: "\<And>i. 0 \<le> i \<Longrightarrow> w_services v (service_key p w i) = w_services w (service_key p w i)"
      "\<And>i. 0 \<le> i \<Longrightarrow> w_statefulsets v (set_key p w i) = w_statefulsets w (set_key p w i)"
  shows "unobstructed p w \<Longrightarrow> unobstructed q v" "objects_settled p w \<Longrightarrow> objects_settled q v"
proof -
  have lookups: "lister_service q i (defaulted_world q v) = lister_service p i (defaulted_world p w)"
    "lister_ss q i (sized_world q v) = lister_ss p i (sized_world p w)" if "0 \<le> i" for i
    unfolding lister_keys keys_defaulted same_cluster_keys [OF same]
    using slots [OF that] by (simp_all del: world_simps(15,16))
  have svc: "owns_service q (defaulted_world q v) s" if "owns_service p (defaulted_world p w) s" for s
    using same_cluster_facts(4) [OF same _ that] by (simp add: same_controller_def)
  have ss: "owns_ss q (sized_world q v) s" if "owns_ss p (sized_world p w) s" for s
    using same_cluster_facts(5) [OF same _ that] by (simp add: same_controller_def)
  have size: "right_size q (sized_world q v) s" if "right_size p (sized_world p w) s" for s
    using same_cluster_facts(6) [OF same _ that] by (simp add: same_size_def)
  note n = same_cluster_facts(1) [OF same]
  show "unobstructed q v" if "unobstructed p w"
    using that lookups svc ss unfolding unobstructed_def n by metis
  show "objects_settled q v" if "objects_settled p w"
    using that lookups svc ss size unfolding objects_settled_def n by metis
qed

lemma memberD:
  assumes "member sv w key p"
  shows "ready_state sv key (p, w)" "in_step sv w" "unobstructed p w" "plain_name p w"
    "GetByKey (w_clusters w) key = Some p" "wf_ptr (w_heap w) p" "key = namespace_at p w @ ''/'' @ name_at p w"
    "no_slash (namespace_at p w)" "no_slash (name_at p w)"
    "SplitMetaNamespaceKey key = Inr (namespace_at p w, name_at p w)"
  using assms SplitMetaNamespaceKey_pair unfolding member_def ready_state_def prod.case by blast+

lemma member_after:
  assumes "member sv w key p" "refreshed sv key (p, w) w' (q, v)" "unobstructed q v"
  shows "member sv v key q" "same_cluster p w q v"
proof -
  have same: "same_cluster p w q v" and "in_step sv v" "GetByKey (w_clusters v) key = Some q" "wf_ptr (w_heap v) q"
    using assms(2) by (simp_all add: refreshed_def)
  then show "member sv v key q" "same_cluster p w q v"
    using memberD [OF assms(1)] assms(3) same_cluster_identity [OF same] same_cluster_name [OF same]
    unfolding member_def ready_state_def prod.case by simp_all
qed

text \<open>The cluster whose turn it was is settled; a cluster that was stays so.\<close>

lemma own_turn:
  assumes env: "serves cl sv" "\<And>p. quiet_for cl p" and key: "member sv w key p"
    and run: "syncHandler cl key w = (w', out)" and fresh: "refreshed sv key (p, w) w' (q, v)"
  shows "objects_settled q v"
proof -
  have "round cl sv key (p, w) (q, v)" using run fresh by (intro round.intros) simp_all
  then show ?thesis using round_settles [OF env memberD(10,7,1) [OF key]] by blast
qed

lemma others_turn:
  assumes env: "serves cl sv" "confined cl sv" "\<And>p. quiet_for cl p"
    and key: "member sv w key p" and j: "member sv w j q" and other: "j \<noteq> key"
    and run: "syncHandler cl key w = (w', out)" and fresh: "refreshed sv j (q, w) w' (r, v)"
  shows "unobstructed r v" "objects_settled q w \<Longrightarrow> objects_settled r v"
proof -
  have at: "sync_cluster cl p w = (w', out)"
    using run syncHandler_at [OF memberD(10,7,5) [OF key], of cl] by simp
  have v: "both_stores sv v = both_stores sv w'" "in_step sv v" and same: "same_cluster q w r v"
    using fresh by (simp_all add: refreshed_def)
  have "(namespace_at p w, name_at p w) \<noteq> (namespace_at q w, name_at q w)"
    using other memberD(7) [OF key] memberD(7) [OF j] by auto
  note apart = keys_apart [OF memberD(8) [OF key] memberD(8) [OF j] memberD(4) [OF key] memberD(4) [OF j] this]
  have "no_wait_timeout cl" using env(3) by (simp add: quiet_for_def)
  then have "same_outside sv (service_keys p w) (set_keys p w) w w'"
    by (rule run_outside [OF env(2) _ in_step_keyed [OF env(1) memberD(2) [OF key]] at])
  then have slots: "w_services v (service_key q w i) = w_services w (service_key q w i)"
    "w_statefulsets v (set_key q w i) = w_statefulsets w (set_key q w i)" if "0 \<le> i" for i
    using apart [OF that] memberD(2) [OF key] v by (simp_all add: same_outside_def in_step_def both_stores_def)
  show "unobstructed r v" "objects_settled q w \<Longrightarrow> objects_settled r v"
    using undisturbed [OF same slots] memberD(3) [OF j] by blast+
qed

lemma turn_keeps:
  assumes env: "serves cl sv" "confined cl sv" "\<And>p. quiet_for cl p"
    and key: "member sv w key p" and j: "member sv w j q" "j \<in> K" and turn: "turn cl sv K key w v"
  shows "\<exists>r. member sv v j r \<and> (j = key \<or> objects_settled q w \<longrightarrow> objects_settled r v)"
proof -
  obtain w' out where run: "syncHandler cl key w = (w', out)"
    and "\<forall>j \<in> K. \<forall>p. GetByKey (w_clusters w) j = Some p \<longrightarrow> (\<exists>q. refreshed sv j (p, w) w' (q, v))"
    using turn by (auto elim: turnE)
  with j(2) memberD(5) [OF j(1)] obtain r where r: "refreshed sv j (q, w) w' (r, v)" by blast
  show ?thesis
  proof (cases "j = key")
    case True
    then have "q = p" using memberD(5) [OF key] memberD(5) [OF j(1)] by simp
    then have "objects_settled r v" using own_turn [OF env(1,3) key run] r True by simp
    then show ?thesis using member_after(1) [OF j(1) r settled_unobstructed] by blast
  next
    case False
    from others_turn [OF env key j(1) False run r] show ?thesis using member_after(1) [OF j(1) r] False by blast
  qed
qed

text \<open>Every cluster can have its turn: caches that catch up with the server make one.\<close>

definition caught_up :: "'w stored \<Rightarrow> 'w world \<Rightarrow> 'w world \<Rightarrow> 'w world" where
  "caught_up sv w w' = w'\<lparr>w_heap := w_heap w, w_clusters := w_clusters w,
     w_services := st_services sv (w_env w'), w_statefulsets := st_sets sv (w_env w')\<rparr>"

lemma turn_possible:
  assumes "fleet sv K w"
  shows "turn cl sv K key w (caught_up sv w (fst (syncHandler cl key w)))"
proof -
  obtain w' out where run: "syncHandler cl key w = (w', out)" by fastforce
  let ?v = "caught_up sv w w'"
  have "refreshed sv j (p, w) w' (p, ?v)" if "j \<in> K" "GetByKey (w_clusters w) j = Some p" for j p
  proof -
    have "wf_ptr (w_heap w) p" using assms that unfolding fleet_def by (metis memberD(5,6) option.inject)
    moreover have "same_cluster p w p ?v" by (simp add: same_cluster_def caught_up_def)
    ultimately show ?thesis
      using that by (simp add: refreshed_def caught_up_def both_stores_def in_step_def)
  qed
  then have "turn cl sv K key w ?v" using run by (intro turn.intros) auto
  then show ?thesis by (simp add: run)
qed

lemma settled_provided:
  assumes "objects_settled p w" "in_step sv w"
  shows "provided p w (both_stores sv w)"
proof -
  have "w_services w = st_services sv (w_env w)" "w_statefulsets w = st_sets sv (w_env w)"
    using assms(2) by (simp_all add: in_step_def)
  then show ?thesis
    using assms(1) unfolding provided_def both_stores_def objects_settled_def lister_keys world_simps by auto
qed

lemma turns_keep:
  assumes turns: "turns cl sv K keys w v" and env: "serves cl sv" "confined cl sv" "\<And>p. quiet_for cl p"
    and fleet: "fleet sv K w"
  shows "fleet sv K v \<and> (\<forall>key \<in> set keys. \<exists>p. member sv v key p \<and> objects_settled p v)"
  using turns fleet
proof (induction rule: turns.induct)
  case (turns_snoc keys w v key u)
  then have v: "fleet sv K v" "\<forall>key \<in> set keys. \<exists>p. member sv v key p \<and> objects_settled p v" by blast+
  then obtain p where key: "member sv v key p" using turns_snoc.hyps(2) by (auto simp: fleet_def)
  note keep = turn_keeps [OF env key _ _ turns_snoc.hyps(3)]
  have "fleet sv K u" using v(1) keep unfolding fleet_def by meson
  moreover have "\<exists>r. member sv u j r \<and> objects_settled r u" if j: "j \<in> set (keys @ [key])" for j
  proof (cases "j = key")
    case True
    then show ?thesis using keep [of j p] key turns_snoc.hyps(2) by blast
  next
    case False
    then obtain q where q: "member sv v j q" "objects_settled q v" using v(2) j by auto
    have "j \<in> K" using turns_snoc.hyps(1) j False by (induction rule: turns.induct) auto
    then show ?thesis using keep q by blast
  qed
  ultimately show ?case by blast
qed (simp add: fleet_def)

lemma member_run:
  assumes p: "member sv v key p" and env: "serves cl sv" "quiet_for cl p"
  shows "\<exists>v' err. syncHandler cl key v = (v', Returned err)"
  using run_provides [OF env memberD(6,2,3,4) [OF p]] syncHandler_at [OF memberD(10,7,5) [OF p], of cl] by metis

lemma settled_member_run:
  assumes p: "member sv v key p" and settled: "objects_settled p v" and env: "serves cl sv" "quiet_for cl p"
    and run: "syncHandler cl key v = (v', out)"
  shows "both_stores sv v' = both_stores sv v" "\<exists>t. w_trace v' = w_trace v @ t \<and> (\<forall>(c, e) \<in> set t. status_call c)"
proof -
  have at: "sync_cluster cl p v = (v', out)"
    using run syncHandler_at [OF memberD(10,7,5) [OF p], of cl] by simp
  show "both_stores sv v' = both_stores sv v" by (rule settled_run_stores [OF env settled at])
  show "\<exists>t. w_trace v' = w_trace v @ t \<and> (\<forall>(c, e) \<in> set t. status_call c)"
    by (rule settled_run_calls [OF settled memberD(6) [OF p] env(2) at])
qed


section \<open>What the Ready condition tells\<close>

text \<open>All members of group \<open>i\<close> are there and ready, by the status of its stateful set.\<close>

definition members_of :: "addr \<Rightarrow> 'w world \<Rightarrow> int32" where
  "members_of p w = MembersPerGroup (Spec (cluster_at (w_heap (sized_world p w)) p))"

definition group_up :: "addr \<Rightarrow> 'w world \<Rightarrow> int \<Rightarrow> bool" where
  "group_up p w i \<longleftrightarrow>
     (case w_statefulsets w (set_key p w i) of
        None \<Rightarrow> False
      | Some s \<Rightarrow> ss_ReadyReplicas (ss_Status s) = members_of p w \<and> ss_Replicas (ss_Status s) = members_of p w)"

text \<open>No group has more pods than members, as while a stateful set is scaled down.\<close>

definition no_surplus :: "addr \<Rightarrow> 'w world \<Rightarrow> bool" where
  "no_surplus p w \<longleftrightarrow>
     (\<forall>i s. 0 \<le> i \<and> i < groups p w \<and> w_statefulsets w (set_key p w i) = Some s \<longrightarrow>
        sint (ss_Replicas (ss_Status s)) \<le> sint (members_of p w))"

lemma settled_counted:
  assumes "objects_settled p w" "0 \<le> i" "i < groups p w"
  shows "w_statefulsets w (set_key p w i) = Some (counted_ss p i (sized_world p w))"
proof -
  obtain s where "lister_ss p i (sized_world p w) = Some s" "right_size p (sized_world p w) s"
    using assms by (auto simp: objects_settled_def simp del: world_simps(15,16))
  then show ?thesis by (simp add: counted_ss_def lister_keys del: world_simps(15,16))
qed

lemma sum_attains_bound:
  fixes f :: "int \<Rightarrow> int"
  assumes "finite A" "\<And>x. x \<in> A \<Longrightarrow> f x \<le> b" "(\<Sum>x \<in> A. f x) = int (card A) * b" "x \<in> A"
  shows "f x = b"
proof -
  have "(\<Sum>x \<in> A. b - f x) = 0" using assms(3) by (simp add: sum_subtractf)
  then have "b - f x = 0" using assms by (subst (asm) sum_nonneg_eq_0_iff) auto
  then show ?thesis by simp
qed

lemma computed_status_up:
  assumes settled: "objects_settled p w" and n: "0 \<le> groups p w" and surplus: "no_surplus p w"
  shows "computed_status p w = (if \<forall>i. 0 \<le> i \<and> i < groups p w \<longrightarrow> group_up p w i then ConditionTrue else ConditionFalse)"
proof -
  let ?v = "sized_world p w" and ?I = "{i. 0 \<le> i \<and> i < groups p w}" and ?m = "sint (members_of p w)"
  let ?R = "{i. 0 \<le> i \<and> i < groups p w \<and> group_ready p ?v i}"
  have I: "?I = {0..<groups p w}" by auto
  have fin: "finite ?I" and card: "int (card ?I) = groups p w" unfolding I using n by simp_all
  have up: "group_up p w i \<longleftrightarrow> group_ready p ?v i \<and> group_members p ?v i = ?m" if "i \<in> ?I" for i
    using settled_counted [OF settled] that
    by (auto simp: group_up_def group_ready_def group_members_def intro: signed_word_eqI)
  have le: "group_members p ?v i \<le> ?m" if "i \<in> ?I" for i
    using surplus settled_counted [OF settled] that by (auto simp: no_surplus_def group_members_def)
  have spec: "sint (GroupReplica (Spec (h_clusters (w_heap ?v) p))) = groups p w"
    "sint (MembersPerGroup (Spec (h_clusters (w_heap ?v) p))) = ?m"
    by (simp_all add: groups_def members_of_def cluster_at_def del: world_simps(15,16))
  have "(int (card ?R) = groups p w \<and> (\<Sum>i \<in> ?R. group_members p ?v i) = groups p w * ?m) \<longleftrightarrow>
      (\<forall>i \<in> ?I. group_up p w i)"
  proof
    assume all: "\<forall>i \<in> ?I. group_up p w i"
    then have "?R = ?I" using up by blast
    then show "int (card ?R) = groups p w \<and> (\<Sum>i \<in> ?R. group_members p ?v i) = groups p w * ?m"
      using card all up by simp
  next
    assume eq: "int (card ?R) = groups p w \<and> (\<Sum>i \<in> ?R. group_members p ?v i) = groups p w * ?m"
    have "?R = ?I" by (rule card_subset_eq [OF fin]) (use eq card in auto)
    then have total: "(\<Sum>i \<in> ?I. group_members p ?v i) = int (card ?I) * ?m" using eq card by simp
    show "\<forall>i \<in> ?I. group_up p w i"
    proof
      fix i assume i: "i \<in> ?I"
      then have "group_ready p ?v i" using \<open>?R = ?I\<close> by blast
      moreover have "group_members p ?v i = ?m" by (rule sum_attains_bound [OF fin le total i])
      ultimately show "group_up p w i" using up [OF i] by blast
    qed
  qed
  then show ?thesis
    unfolding computed_status_def Let_def ready_status_def spec by auto
qed

text \<open>
  C7: The Ready condition is truthful. After one round, let no group have more pods than
  members. Then a run that returns nil leaves, in the status it sent or in the one it found
  right, a Ready condition that is True exactly if every group's stateful set reports all its
  members, and reports them ready; else it is False. (With a surplus it need not be:
  \<open>surplus_hides_shortage\<close>.)
\<close>

theorem ready_condition_truthful:
  assumes env: "serves cl sv" "\<forall>p. quiet_for cl p"
    and key: "SplitMetaNamespaceKey key = Inr (ns, n)" "key = ns @ ''/'' @ n"
    and ready: "ready_state sv key (p, w)" and first: "round cl sv key (p, w) (q, v)"
    and pods: "0 \<le> groups q v" "no_surplus q v"
    and second: "syncHandler cl key v = (v', Returned None)"
  shows "\<exists>t c. w_trace v' = w_trace v @ t \<and>
    condition_of (conditions_after t (cluster_conditions (w_heap v) q)) BrokerClusterReady = Some c \<and>
    cond_Status c = (if \<forall>i. 0 \<le> i \<and> i < groups q v \<longrightarrow> group_up q v i then ConditionTrue else ConditionFalse)"
proof -
  have quiet: "quiet_for cl p" for p using env(2) by blast
  have v: "objects_settled q v" "ready_state sv key (q, v)"
    using round_settles [OF env(1) quiet key ready first] by blast+
  then have "sync_cluster cl q v = (v', Returned None)"
    using second by (simp add: ready_state_def syncHandler_at [OF key])
  from settled_run_status [OF v(1) _ quiet this] computed_status_up [OF v(1) pods] v(2)
  show ?thesis by (auto simp: ready_state_def)
qed

section \<open>Samples\<close>

lemma shelf_confined: "confined shelf_client shelf_stores"
  using shelf_serves
  by (auto simp: confined_def serves_def shelf_client_def shelf_stores_def shelved_sets_def Let_def split: option.split)

text \<open>A second cluster beside the sample cluster, in the same namespace.\<close>

definition second_obj :: cluster_obj where
  "second_obj = sample_obj\<lparr>bc_ObjectMeta := (bc_ObjectMeta sample_obj)\<lparr>om_Name := ''second'', om_UID := ''u2''\<rparr>\<rparr>"

definition fleet_heap :: heap where
  "fleet_heap = sample_heap\<lparr>h_clusters := \<lambda>a. if a = 1 then second_obj else sample_obj\<rparr>"

abbreviation (input) second_key :: string where
  "second_key \<equiv> ''rocketmq-operator/second''"

definition fleet_world :: "shelves world" where
  "fleet_world = shelf_world\<lparr>w_heap := fleet_heap, w_clusters := [sample_key \<mapsto> 0, second_key \<mapsto> 1]\<rparr>"

lemma fleet_world_names:
  "namespace_at 0 fleet_world = ''rocketmq-operator''" "name_at 0 fleet_world = ''mybrokercluster''"
  "namespace_at (Suc 0) fleet_world = ''rocketmq-operator''" "name_at (Suc 0) fleet_world = ''second''"
  by (simp_all add: namespace_at_def name_at_def fleet_world_def fleet_heap_def second_obj_def sample_obj_def)

lemma fleet_world_members:
  "member shelf_stores fleet_world sample_key 0" "member shelf_stores fleet_world second_key (Suc 0)"
proof -
  have "wf_ptr fleet_heap 0" "wf_ptr fleet_heap (Suc 0)"
    by (simp_all add: wf_ptr_def wf_cluster_def refs_defs slice_ok_def fleet_heap_def second_obj_def sample_heap_def
        sample_obj_def empty_meta_def)
  moreover have "in_step shelf_stores fleet_world"
    using shelf_ready by (simp add: ready_state_def in_step_def fleet_world_def)
  moreover have "unobstructed p fleet_world" for p
    by (simp add: unobstructed_def lister_keys fleet_world_def shelf_world_def)
  moreover have "plain_name 0 fleet_world" "plain_name (Suc 0) fleet_world"
    by (simp_all add: plain_name_def fleet_world_def fleet_heap_def second_obj_def sample_obj_def no_verb_def)
  moreover have "w_heap fleet_world = fleet_heap" by (simp add: fleet_world_def)
  ultimately show "member shelf_stores fleet_world sample_key 0" "member shelf_stores fleet_world second_key (Suc 0)"
    by (simp_all add: member_def ready_state_def fleet_world_names no_slash_def) (simp_all add: fleet_world_def GetByKey_def)
qed

theorem clusters_isolated_witness:
  "st_sets shelf_stores (w_env (fst (sync_cluster shelf_client 0 fleet_world))) (set_key 1 fleet_world 0) =
     st_sets shelf_stores (w_env fleet_world) (set_key 1 fleet_world 0)"
proof -
  obtain w' out where run: "sync_cluster shelf_client 0 fleet_world = (w', out)" by fastforce
  note m = fleet_world_members
  have "no_wait_timeout shelf_client" using shelf_quiet by (simp add: quiet_for_def)
  from clusters_isolated [OF shelf_confined this in_step_keyed [OF shelf_serves memberD(2) [OF m(1)]]
      memberD(8) [OF m(1)] memberD(8) [OF m(2)] memberD(4) [OF m(1)] memberD(4) [OF m(2)] _ run, of 0]
  show ?thesis by (simp add: fleet_world_names run)
qed


text \<open>
  The sample cluster with its objects, its two stateful sets with \<open>r\<close> and \<open>r'\<close> pods, all ready,
  and a Ready condition that is True.
\<close>

definition up_heap :: heap where
  "up_heap = sample_heap\<lparr>h_arrays := \<lambda>_. [sample_condition\<lparr>cond_Status := ConditionTrue\<rparr>]\<rparr>"

definition with_pods :: "int32 \<Rightarrow> StatefulSet \<Rightarrow> StatefulSet" where
  "with_pods r s = s\<lparr>ss_Status := \<lparr>ss_Replicas = r, ss_ReadyReplicas = r\<rparr>\<rparr>"

definition up_sets :: "int32 \<Rightarrow> int32 \<Rightarrow> StatefulSet indexer" where
  "up_sets r r' = [''rocketmq-operator/mybrokercluster-0'' \<mapsto> with_pods r (NewStatefulSet sample_defaulted 0),
     ''rocketmq-operator/mybrokercluster-1'' \<mapsto> with_pods r' (NewStatefulSet sample_defaulted 1)]"

definition up_world :: "int32 \<Rightarrow> int32 \<Rightarrow> shelves world" where
  "up_world r r' = rest_world\<lparr>w_heap := up_heap, w_statefulsets := up_sets r r',
     w_env := (w_env rest_world)\<lparr>sh_sets := up_sets r r'\<rparr>\<rparr>"

lemma up_cluster:
  "h_clusters (w_heap (sized_world 0 (up_world r r'))) 0 = h_clusters (EnsureDefaults sample_heap 0) 0"
  "h_clusters (w_heap (defaulted_world 0 (up_world r r'))) 0 = h_clusters (EnsureDefaults sample_heap 0) 0"
  by (simp_all add: up_world_def up_heap_def force_single_member_def Let_def EnsureDefaults_struct sample_heap_def
      sample_obj_def props_of_def)

lemma up_stores:
  "w_services (up_world r r') = w_services converged_world" "w_statefulsets (up_world r r') = up_sets r r'"
  by (simp_all add: up_world_def rest_world_def)

lemma up_facts:
  "groups 0 (up_world r r') = 2" "members_of 0 (up_world r r') = 2"
  "namespace_at 0 (up_world r r') = ''rocketmq-operator''" "name_at 0 (up_world r r') = ''mybrokercluster''"
proof -
  show "groups 0 (up_world r r') = 2" "members_of 0 (up_world r r') = 2"
    unfolding groups_def members_of_def cluster_at_def
    by (simp_all add: up_cluster EnsureDefaults_struct sample_heap_def sample_obj_def del: world_simps(15,16))
  show "namespace_at 0 (up_world r r') = ''rocketmq-operator''" "name_at 0 (up_world r r') = ''mybrokercluster''"
    by (simp_all add: namespace_at_def name_at_def up_world_def up_heap_def sample_heap_def sample_obj_def)
qed

lemma up_keys:
  "service_key 0 (up_world r r') 0 = ''rocketmq-operator/mybrokercluster-svc-0''"
  "service_key 0 (up_world r r') 1 = ''rocketmq-operator/mybrokercluster-svc-1''"
  "set_key 0 (up_world r r') 0 = ''rocketmq-operator/mybrokercluster-0''"
  "set_key 0 (up_world r r') 1 = ''rocketmq-operator/mybrokercluster-1''"
proof -
  let ?c = "cluster_at (w_heap (up_world r r')) 0"
  have "om_Name (bc_ObjectMeta ?c) = om_Name (bc_ObjectMeta sample_defaulted)"
    "om_Namespace (bc_ObjectMeta ?c) = ''rocketmq-operator''"
    using up_facts(3,4) [of r r'] sample_defaulted_meta by (simp_all add: cluster_at_def namespace_at_def name_at_def)
  then show
    "service_key 0 (up_world r r') 0 = ''rocketmq-operator/mybrokercluster-svc-0''"
    "service_key 0 (up_world r r') 1 = ''rocketmq-operator/mybrokercluster-svc-1''"
    "set_key 0 (up_world r r') 0 = ''rocketmq-operator/mybrokercluster-0''"
    "set_key 0 (up_world r r') 1 = ''rocketmq-operator/mybrokercluster-1''"
    using sample_defaulted_names unfolding service_key_def set_key_def svc_name_format_def group_name_format_def
    by simp_all
qed

lemma two_groups: "0 \<le> (i :: int) \<and> i < 2 \<longleftrightarrow> i = 0 \<or> i = 1"
  by auto

lemma up_settled: "objects_settled 0 (up_world r r')"
proof -
  let ?w = "up_world r r'" and ?n = "NewStatefulSet sample_defaulted"
  have uid: "om_UID (bc_ObjectMeta (cluster_at (w_heap (defaulted_world 0 ?w)) 0)) = ''u1''"
    "om_UID (bc_ObjectMeta (cluster_at (w_heap (sized_world 0 ?w)) 0)) = ''u1''"
    "om_UID (bc_ObjectMeta sample_defaulted) = ''u1''"
    by (simp_all add: cluster_at_def up_cluster sample_defaulted_def EnsureDefaults_struct sample_heap_def sample_obj_def
        del: world_simps(15,16))
  have own: "owns_service 0 (defaulted_world 0 ?w) (NewHeadlessService sample_defaulted i)"
    "owns_ss 0 (sized_world 0 ?w) (with_pods k (?n i))" for i k
    using new_objects_controlled [of sample_defaulted i]
    by (simp_all add: owns_service_def owns_ss_def controlled_uid uid with_pods_def del: world_simps(15,16))
  have "MembersPerGroup (Spec sample_defaulted) = 2"
    by (simp add: sample_defaulted_def cluster_at_def EnsureDefaults_struct sample_heap_def sample_obj_def)
  then have size: "right_size 0 (sized_world 0 ?w) (with_pods k (?n i))" for i k
    using up_facts(2) [of r r'] by (simp add: right_size_def with_pods_def members_of_def del: world_simps(15,16))
  have stores: "w_services ?w (service_key 0 ?w i) = Some (NewHeadlessService sample_defaulted i)"
    "\<exists>k. w_statefulsets ?w (set_key 0 ?w i) = Some (with_pods k (?n i))" if "i = 0 \<or> i = 1" for i
    using that up_keys [of r r'] by (auto simp: up_stores converged_world_def up_sets_def)
  show ?thesis
    unfolding objects_settled_def up_facts two_groups lister_keys keys_defaulted world_simps(3-6)
    using stores own size by metis
qed

lemma up_status: "computed_status 0 (up_world r r') = (if sint r + sint r' = 4 then ConditionTrue else ConditionFalse)"
proof -
  let ?w = "up_world r r'"
  let ?v = "sized_world 0 ?w"
  have "counted_ss 0 i ?v = the (up_sets r r' (set_key 0 ?w i))" if "i = 0 \<or> i = 1" for i
    using settled_counted [OF up_settled, of i r r'] that unfolding up_facts up_stores by auto
  then have counted: "counted_ss 0 0 ?v = with_pods r (NewStatefulSet sample_defaulted 0)"
    "counted_ss 0 1 ?v = with_pods r' (NewStatefulSet sample_defaulted 1)"
    using up_keys(3,4) [of r r'] by (simp_all add: up_sets_def del: world_simps(15,16))
  then have "group_ready 0 ?v 0" "group_ready 0 ?v 1" by (simp_all add: group_ready_def with_pods_def)
  then have all: "{i. 0 \<le> i \<and> i < 2 \<and> group_ready 0 ?v i} = {0, 1}"
    unfolding conj_assoc [symmetric] two_groups by auto
  have "group_members 0 ?v 0 = sint r" "group_members 0 ?v 1 = sint r'"
    by (simp_all add: group_members_def counted with_pods_def)
  moreover have "sint (GroupReplica (Spec (h_clusters (w_heap ?v) 0))) = 2"
    "sint (MembersPerGroup (Spec (h_clusters (w_heap ?v) 0))) = 2"
    using up_facts(1,2) [of r r'] by (simp_all add: groups_def members_of_def cluster_at_def del: world_simps(15,16))
  ultimately show ?thesis
    by (simp add: computed_status_def Let_def up_facts all ready_status_def del: world_simps(15,16))
qed

text \<open>Three pods in one group and one in the other: the status is True although a member is missing.\<close>

lemma surplus_hides_shortage:
  "computed_status 0 (up_world 3 1) = ConditionTrue" "\<not> group_up 0 (up_world 3 1) 1"
  unfolding group_up_def up_facts up_stores up_keys by (simp_all add: up_status up_sets_def with_pods_def)

lemma up_ready: "ready_state shelf_stores sample_key (0, up_world r r')"
proof -
  have "shelved_sets (w_env (up_world r r')) = up_sets r r'"
    by (rule ext)
       (simp add: shelved_sets_def up_world_def up_sets_def with_pods_def filed_def sample_defaulted_meta
        sample_defaulted_names)
  moreover have "sh_services (w_env (up_world r r')) = w_services converged_world"
    by (simp add: up_world_def rest_world_def)
  ultimately have "in_step shelf_stores (up_world r r')"
    by (simp add: in_step_def shelf_stores_def up_stores)
  moreover have "wf_ptr up_heap 0"
    by (simp add: up_heap_def wf_ptr_def wf_cluster_def refs_defs slice_ok_def sample_heap_def sample_obj_def empty_meta_def)
  moreover have "plain_name 0 (up_world r r')"
    using up_facts(4) [of r r'] by (simp add: plain_name_def name_at_def)
  moreover have "GetByKey (w_clusters (up_world r r')) sample_key = Some 0"
    by (simp add: up_world_def rest_world_def shelf_world_def GetByKey_def)
  ultimately show ?thesis
    using settled_unobstructed [OF up_settled] by (simp add: ready_state_def up_world_def)
qed

lemma up_converged: "sint r + sint r' = 4 \<Longrightarrow> converged 0 (up_world r r')"
  unfolding converged_alt up_status
  by (simp add: up_settled)
     (simp add: up_world_def up_heap_def cluster_conditions_def conditions_of_def slice_val_def condition_of_def
      sample_heap_def sample_obj_def sample_condition_def)

text \<open>Two pods each: a run finds the condition right and reports it True.\<close>

theorem ready_condition_truthful_witness:
  "\<exists>v' c. syncHandler shelf_client sample_key (up_world 2 2) = (v', Returned None) \<and> cond_Status c = ConditionTrue \<and>
     condition_of (cluster_conditions (w_heap (up_world 2 2)) 0) BrokerClusterReady = Some c"
proof -
  let ?w = "up_world 2 2"
  have quiet: "\<forall>p. quiet_for shelf_client p" using shelf_quiet by blast
  note ready = up_ready [of 2 2, unfolded ready_state_def prod.case]
  obtain w' out where run: "syncHandler shelf_client sample_key ?w = (w', out)" by fastforce
  have at: "sync_cluster shelf_client 0 ?w = (w', out)"
    using run ready by (simp add: syncHandler_at [OF sample_key_found(1) sample_key_pair])
  have "converged 0 ?w" by (rule up_converged) simp
  then have out: "out = Returned None" "w_trace w' = w_trace ?w"
    using converged_run [OF _ _ shelf_quiet at] ready by blast+
  have "both_stores shelf_stores w' = both_stores shelf_stores ?w"
    by (rule settled_run_stores [OF shelf_serves shelf_quiet up_settled at])
  then have "refreshed shelf_stores sample_key (0, ?w) w' (0, ?w)"
    using ready by (simp add: refreshed_def same_cluster_def)
  then have first: "round shelf_client shelf_stores sample_key (0, ?w) (0, ?w)"
    using run by (intro round.intros) simp_all
  have up: "group_up 0 ?w i" if "i = 0 \<or> i = 1" for i
    using that unfolding group_up_def up_facts up_stores by (auto simp: up_keys up_sets_def with_pods_def)
  have "no_surplus 0 ?w"
    unfolding no_surplus_def up_facts conj_assoc [symmetric] two_groups
    by (auto simp: up_stores up_keys up_sets_def with_pods_def)
  from ready_condition_truthful [OF shelf_serves quiet sample_key_found(1) sample_key_pair up_ready first _ this
      run [unfolded out(1)]] up
  show ?thesis
    unfolding up_facts two_groups out(2) using run out(1) by (auto simp: conditions_after_def)
qed

end
