(* ===== verification/Initial_Sync.thy ===== *)
theory Initial_Sync
  imports Fleet
begin

text \<open>
  The first synchronisation: the queue holds the keys of many clusters and no informer delivers
  anything while the workers drain it, so that all runs but the first work with caches that do
  not show what the runs before them created.

  That this does no harm rests on two frame properties of a run for one cluster: what it does
  to the cached objects of other clusters (nothing they notice, although the copies, the
  defaults and the condition are written on the shared heap), and what it does to their objects
  in the server (nothing, by \<open>Fleet\<close>).
\<close>

section \<open>Arrays keep their length\<close>

definition lengths_kept :: "heap \<Rightarrow> heap \<Rightarrow> bool" where
  "lengths_kept h h' \<longleftrightarrow> h_next h \<le> h_next h' \<and> (\<forall>a < h_next h. length (h_arrays h' a) = length (h_arrays h a))"

lemma lengths_kept_refl [simp]: "lengths_kept h h"
  by (simp add: lengths_kept_def)

lemma lengths_kept_trans: "lengths_kept h h' \<Longrightarrow> lengths_kept h' h'' \<Longrightarrow> lengths_kept h h''"
  by (simp add: lengths_kept_def)

lemma lengths_kept_extends: "h \<le> h' \<Longrightarrow> lengths_kept h h'"
  by (auto simp: lengths_kept_def less_eq_heap_ext_def same_cells_def)

lemma lengths_kept_stores [simp]:
  "lengths_kept h (store_cond h c x)" "lengths_kept h (store_status h sp s)"
  by (cases c; simp add: lengths_kept_def) (cases sp; simp add: lengths_kept_def)

lemma lengths_kept_append: "lengths_kept h (append_condition h sp c)"
proof -
  have store: "lengths_kept h (store_status h1 sp s)" if "lengths_kept h h1" for h1 s
    using lengths_kept_trans [OF that] by simp
  have "lengths_kept h (fst (alloc_array h cs))" for cs by (simp add: alloc_array_def lengths_kept_def)
  then show ?thesis
    unfolding append_condition_def Let_def by (simp add: store split_beta split: option.split)
qed

lemma lengths_kept_update: "UpdateClusterCondition now h sp c = (h', b) \<Longrightarrow> lengths_kept h h'"
  unfolding UpdateClusterCondition_def Let_def
  by (auto split: option.splits prod.splits if_splits
      intro: lengths_kept_trans lengths_kept_stores lengths_kept_append)

lemma lengths_kept_ready:
  assumes "set_ready_condition now p g m h = (h', s, b)"
  shows "lengths_kept h h'"
proof -
  obtain h1 st where copy: "BrokerClusterStatus_DeepCopy h (Some (Status (h_clusters h p))) = (h1, st)" by fastforce
  obtain h2 c where ptr: "ready_condition_ptr h1 p = (h2, c)" by fastforce
  have "h \<le> h1" using copy by (auto elim: Status_DeepCopy_Some intro: order_trans)
  moreover have "lengths_kept h1 h2"
    using ptr by (auto simp: ready_condition_ptr_def alloc_cond_def lengths_kept_def split: prod.splits option.splits)
  moreover obtain h3 where "h3 = store_cond h2 c ((load_cond h2 c)
      \<lparr>cond_Status := ready_status g m (Spec (h_clusters h2 p))\<rparr>)" "UpdateClusterCondition now h3 (StatusCell (the st)) c = (h', b)"
    using assms copy ptr by (auto simp: set_ready_condition_def Let_def split: prod.splits)
  ultimately show ?thesis
    by (metis lengths_kept_trans lengths_kept_extends lengths_kept_stores(1) lengths_kept_update)
qed

section \<open>The cached objects of other clusters\<close>

text \<open>What a run reads of a cluster's identity and size.\<close>

definition shape :: "('m, 'p, 'c) BrokerCluster \<Rightarrow> (string \<times> string \<times> string) \<times> bool \<times> int32 \<times> int32" where
  "shape c = ((om_Namespace (bc_ObjectMeta c), om_Name (bc_ObjectMeta c), om_UID (bc_ObjectMeta c)),
     AllMaster (Spec c), GroupReplica (Spec c), MembersPerGroup (Spec c))"

text \<open>The cluster at \<open>r\<close> did not take part: it is intact and has the identity and size it had.\<close>

definition bystander :: "addr \<Rightarrow> heap \<Rightarrow> heap \<Rightarrow> bool" where
  "bystander r h h' \<longleftrightarrow> wf_ptr h' r \<and> shape (h_clusters h' r) = shape (h_clusters h r)"

lemma bystander_trans: "bystander r h h' \<Longrightarrow> bystander r h' h'' \<Longrightarrow> bystander r h h''"
  by (simp add: bystander_def)

lemma bystander_kept:
  assumes "wf_ptr h r" "h_clusters h' r = h_clusters h r" "lengths_kept h h'"
  shows "bystander r h h'"
proof -
  have "a < h_next h'" if "a < h_next h" for a using assms(3) that by (simp add: lengths_kept_def)
  then show ?thesis
    using assms by (auto simp: bystander_def wf_ptr_def wf_cluster_def lengths_kept_def slice_ok_def refs_defs opt_all_def
        split: option.splits)
qed

lemma shape_at: "cluster_at h r = cluster_at h' r \<Longrightarrow> shape (h_clusters h r) = shape (h_clusters h' r)"
proof -
  have "shape (cluster_at h r) = shape (h_clusters h r)" for h by (simp add: shape_def cluster_at_def)
  then show "cluster_at h r = cluster_at h' r \<Longrightarrow> shape (h_clusters h r) = shape (h_clusters h' r)" by metis
qed

lemma sized_bystander:
  assumes "wf_ptr (w_heap w) r" "r \<noteq> p"
  shows "bystander r (w_heap w) (w_heap (sized_world p w))"
proof (rule bystander_kept [OF assms(1)])
  show "h_clusters (w_heap (sized_world p w)) r = h_clusters (w_heap w) r"
    using assms(2) by (simp add: force_single_member_def Let_def EnsureDefaults_struct)
  show "lengths_kept (w_heap w) (w_heap (sized_world p w))"
    using EnsureDefaults_heap(5,6) [of "w_heap w" p] by (simp add: lengths_kept_def)
qed

lemma status_bystander:
  assumes run: "updateClusterStatus cl p g m w = (w', err)" and wf: "wf_ptr (w_heap w) p" "wf_ptr (w_heap w) r"
    and quiet: "quiet_for cl r"
  shows "bystander r (w_heap w) (w_heap w')"
proof -
  let ?h = "w_heap w"
  obtain h4 s updated where set: "set_ready_condition (cl_Now cl (w_env w)) p g m ?h = (h4, s, updated)"
    by (metis surj_pair)
  note eff = set_ready_condition_effect [OF wf(1) set]
  have "h_clusters h4 r = h_clusters ?h r"
    using eff(9) wf(2) by (auto simp: keeps_below_def wf_ptr_def)
  then have b4: "bystander r ?h h4"
    using bystander_kept [OF wf(2)] lengths_kept_ready [OF set] by blast
  then have wf4: "wf_ptr h4 r" by (simp add: bystander_def)
  show ?thesis
  proof (cases updated)
    case False
    then have "w_heap w' = h4" using run set by (auto simp: updateClusterStatus_def)
    then show ?thesis using b4 by simp
  next
    case True
    obtain h5 q where dc: "BrokerCluster_DeepCopy h4 (Some p) = (h5, Some q)"
      by (cases "BrokerCluster_DeepCopy h4 (Some p)") (auto elim: DeepCopy_Some)
    note copy = DeepCopy_ptr [OF dc]
    obtain q' where ucs: "UpdateClusterStatus cl q s (w\<lparr>w_heap := h5\<rparr>) = ((w', q'), err)"
      using run set True dc by (auto simp: updateClusterStatus_def split: prod.splits)
    have s5: "h_statuses h5 s = h_statuses h4 s" by (rule heap_le_reads(2) [OF copy(1) eff(8)])
    have "status_inv s (status_val_of h5 (h_statuses h5 s)) r (cluster_at h4 r) (w\<lparr>w_heap := h5\<rparr>, q)"
      using eff(8) heap_le_next [OF copy(1)] status_copy.ok_extends [OF copy(1) eff(6)] s5
        wf_ptr_extends [OF copy(1) wf4] cluster_at_extends [OF copy(1) wf4] copy(2) wf4
      by (auto simp: status_inv_def Let_def wf_ptr_def)
    note after = UpdateClusterStatus_run(2,3) [OF ucs quiet this]
    then have "bystander r h4 (w_heap w')" using shape_at [OF after(2)] by (simp add: bystander_def)
    then show ?thesis by (rule bystander_trans [OF b4])
  qed
qed

lemma run_bystander:
  assumes run: "sync_cluster cl p w = (w', out)" and wf: "wf_ptr (w_heap w) p" "wf_ptr (w_heap w) r" "r \<noteq> p"
    and quiet: "quiet_for cl r"
  shows "bystander r (w_heap w) (w_heap w')"
proof -
  let ?s = "w_heap (sized_world p w)"
  have s: "bystander r (w_heap w) ?s" by (rule sized_bystander [OF wf(2,3)])
  have wfs: "wf_ptr ?s p" "wf_ptr ?s r"
    using force_single_member_wf [OF EnsureDefaults_wf [OF wf(1)]] s by (simp_all add: bystander_def)
  have services: "w_heap v = EnsureDefaults (w_heap w) p"
    if "sync_services cl p (groups p w) (defaulted_world p w) = (v, x)" for v x
    using services_run(1) [OF that] by (simp add: same_store_def)
  have sets: "w_heap v = ?s" if "same_store (sized_world p w) u" "sync_statefulsets cl p (groups p w) u = (v, x)" for u v x
    using statefulsets_run(1) [OF that(2)] that(1) by (simp add: same_store_def del: world_simps(15,16))
  have status: "bystander r (w_heap w) (w_heap v)" if up: "updateClusterStatus cl p g m u = (v, x)" "w_heap u = ?s" for g m u v x
  proof -
    have "bystander r ?s (w_heap v)"
      using status_bystander [OF up(1) _ _ quiet] wfs unfolding up(2) by blast
    then show ?thesis by (rule bystander_trans [OF s])
  qed
  have early: "bystander r (w_heap w) (EnsureDefaults (w_heap w) p)"
    by (rule bystander_kept [OF wf(2)])
       (use wf(3) EnsureDefaults_heap(5,6) [of "w_heap w" p] in \<open>simp_all add: EnsureDefaults_struct lengths_kept_def\<close>)
  from run show ?thesis
  proof (rule sync_cluster_cases, goal_cases)
    case (1 e)
    show ?case unfolding services [OF 1(1)] by (rule early)
  next
    case (2 w2 w3 e)
    show ?case unfolding sets [OF 2(3,4)] by (rule s)
  next
    case (3 w2 w3)
    show ?case unfolding sets [OF 3(3,4)] by (rule s)
  next
    case (4 w2 w3 w4 g m e)
    show ?case by (rule status [OF 4(5) sets [OF 4(3,4)]])
  next
    case (5 w2 w3 w4 w5 g m)
    have "w_heap w' = w_heap w5" unfolding 5(6) by (simp add: record_event_def)
    then show ?case using status [OF 5(5) sets [OF 5(3,4)]] by simp
  qed
qed

lemma bystander_same_cluster:
  assumes "bystander r (w_heap w) (w_heap v)"
  shows "same_cluster r w r v"
proof -
  have "shape (h_clusters (w_heap v) r) = shape (h_clusters (w_heap w) r)" using assms by (simp add: bystander_def)
  then show ?thesis
    by (simp add: same_cluster_def cluster_at_def EnsureDefaults_struct force_single_member_def Let_def shape_def)
qed

section \<open>The caches\<close>

text \<open>
  The informers deliver nothing while a retry sleeps, so that a run leaves the caches of
  objects as they are.
\<close>

definition same_caches :: "'w world \<Rightarrow> 'w world \<Rightarrow> bool" where
  "same_caches w w' \<longleftrightarrow>
     w_clusters w' = w_clusters w \<and> w_services w' = w_services w \<and> w_statefulsets w' = w_statefulsets w"

definition no_deliveries :: "'w client \<Rightarrow> bool" where
  "no_deliveries cl \<longleftrightarrow> (\<forall>w. same_caches w (cl_Sleep cl w))"

lemma same_caches_trans: "same_caches u v \<Longrightarrow> same_caches v w \<Longrightarrow> same_caches u w"
  by (simp add: same_caches_def)

lemma same_store_caches: "same_store w w' \<Longrightarrow> same_caches w w'"
  by (simp add: same_store_def same_caches_def)

lemma reload_caches: "same_caches w (fst (fst (reload_cluster p e w)))"
  by (simp add: reload_cluster_def same_caches_def Let_def split: sum.split prod.split option.split)

lemma status_attempt_caches: "same_caches w (fst (fst (update_status_attempt cl s (w, p))))"
proof -
  define w1 where "w1 = w\<lparr>w_heap := store_status (w_heap w) (StatusOf p) (h_statuses (w_heap w) s)\<rparr>"
  obtain w2 r where up: "BrokerClusters_Update cl (om_Namespace (bc_ObjectMeta (h_clusters (w_heap w1) p))) p w1 = (w2, r)"
    by fastforce
  then have "same_caches w w2"
    by (auto simp: BrokerClusters_Update_def call_api_def Let_def same_caches_def w1_def split: prod.splits)
  then show ?thesis
    using up same_caches_trans [OF _ reload_caches]
    by (cases r) (simp_all add: update_status_attempt_def Let_def w1_def)
qed

lemma status_caches:
  assumes run: "updateClusterStatus cl p g m w = (w', err)" and env: "no_wait_timeout cl" "no_deliveries cl"
  shows "same_caches w w'"
proof -
  obtain h4 s updated where set: "set_ready_condition (cl_Now cl (w_env w)) p g m (w_heap w) = (h4, s, updated)"
    by (metis surj_pair)
  show ?thesis
  proof (cases updated)
    case False
    with run set show ?thesis by (auto simp: updateClusterStatus_def same_caches_def)
  next
    case True
    obtain h5 r where dc: "BrokerCluster_DeepCopy h4 (Some p) = (h5, r)" by fastforce
    obtain q' where run': "UpdateClusterStatus cl (the r) s (w\<lparr>w_heap := h5\<rparr>) = ((w', q'), err)"
      using run set True dc by (auto simp: updateClusterStatus_def split: prod.splits)
    have keep: "same_caches w (cl_Sleep cl v)" if "same_caches w v" for v
      using that env(2) same_caches_trans unfolding no_deliveries_def by blast
    have attempt: "same_caches w (fst (fst (update_status_attempt cl s t)))" if "same_caches w (fst t)" for t
      using same_caches_trans [OF that status_attempt_caches [where p = "snd t"]] by simp
    have "same_caches w (fst (w', q'))"
      by (rule RetryOnConflict_keeps [where Q = "\<lambda>s. same_caches w (fst s)",
            OF run' [unfolded UpdateClusterStatus_def] attempt_not_timeout(1) [OF env(1)]])
         (auto simp: keep attempt split_beta same_caches_def [of w "w\<lparr>w_heap := h5\<rparr>"])
    then show ?thesis by simp
  qed
qed

lemma run_caches:
  assumes run: "sync_cluster cl p w = (w', out)" and env: "no_wait_timeout cl" "no_deliveries cl"
  shows "same_caches w w'"
proof -
  have services: "same_caches w v" if "sync_services cl p (groups p w) (defaulted_world p w) = (v, x)" for v x
    using same_store_caches [OF services_run(1) [OF that]] by (simp add: same_caches_def)
  have sets: "same_caches w v" if "same_store (sized_world p w) u" "sync_statefulsets cl p (groups p w) u = (v, x)" for u v x
    using same_caches_trans [OF same_store_caches [OF that(1)] same_store_caches [OF statefulsets_run(1) [OF that(2)]]]
    by (simp add: same_caches_def)
  from run show ?thesis
  proof (rule sync_cluster_cases, goal_cases)
    case (4 w2 w3 w4 g m e)
    show ?case by (rule same_caches_trans [OF sets [OF 4(3,4)] status_caches [OF 4(5) env]])
  next
    case (5 w2 w3 w4 w5 g m)
    have "same_caches w w5" by (rule same_caches_trans [OF sets [OF 5(3,4)] status_caches [OF 5(5) env]])
    then show ?case unfolding 5(6) by (simp add: record_event_def same_caches_def)
  qed (use services sets in blast)+
qed

section \<open>Runs without deliveries\<close>

lemma same_cluster_sym: "same_cluster p w q v \<Longrightarrow> same_cluster q v p w"
  by (simp add: same_cluster_def Let_def)

lemma provided_same:
  assumes same: "same_cluster p w q v" and "provided p w S"
  shows "provided q v S"
proof -
  have "owns_service q (defaulted_world q v) s" if "owns_service p (defaulted_world p w) s" for s
    using same_cluster_facts(4) [OF same _ that] by (simp add: same_controller_def)
  moreover have "owns_ss q (sized_world q v) s" if "owns_ss p (sized_world p w) s" for s
    using same_cluster_facts(5) [OF same _ that] by (simp add: same_controller_def)
  moreover have "right_size q (sized_world q v) s" if "right_size p (sized_world p w) s" for s
    using same_cluster_facts(6) [OF same _ that] by (simp add: same_size_def)
  ultimately show ?thesis
    using assms(2) unfolding provided_def same_cluster_facts(1) [OF same] keys_defaulted same_cluster_keys [OF same]
    by (cases S) (simp, blast)
qed

text \<open>The server has of the cluster what it had.\<close>

definition untouched :: "'w stored \<Rightarrow> 'w world \<Rightarrow> addr \<Rightarrow> 'w world \<Rightarrow> bool" where
  "untouched sv w0 p w \<longleftrightarrow>
     (\<forall>i. 0 \<le> i \<longrightarrow> st_services sv (w_env w) (service_key p w0 i) = st_services sv (w_env w0) (service_key p w0 i) \<and>
        st_sets sv (w_env w) (set_key p w0 i) = st_sets sv (w_env w0) (set_key p w0 i))"

text \<open>
  The state between runs, against the world \<open>w0\<close> in which the caches were in step: the
  clusters under the keys \<open>T\<close> are still to come and untouched, those under \<open>D\<close> are done and
  provided.
\<close>

definition progress :: "'w stored \<Rightarrow> 'w world \<Rightarrow> string set \<Rightarrow> string set \<Rightarrow> 'w world \<Rightarrow> bool" where
  "progress sv w0 D T v \<longleftrightarrow> same_caches w0 v \<and>
     (\<forall>key \<in> T. \<forall>p. member sv w0 key p \<longrightarrow> bystander p (w_heap w0) (w_heap v) \<and> untouched sv w0 p v) \<and>
     (\<forall>key \<in> D. \<forall>p. member sv w0 key p \<longrightarrow> provided p w0 (both_stores sv v))"

lemma progress_start: "fleet sv T w0 \<Longrightarrow> progress sv w0 {} T w0"
  by (auto simp: progress_def same_caches_def untouched_def bystander_def dest: memberD(6))

lemma progress_over:
  assumes "progress sv w0 (set keys) {} v" "fleet sv (set keys) w0" "key \<in> set keys"
  shows "\<exists>p. GetByKey (w_clusters w0) key = Some p \<and> provided p w0 (both_stores sv v)"
proof -
  obtain p where p: "member sv w0 key p" using assms(2,3) unfolding fleet_def by blast
  then show ?thesis using assms(1,3) memberD(5) [OF p] by (auto simp: progress_def)
qed

lemma member_keys_apart:
  assumes "member sv w key p" "member sv w j q" "key \<noteq> j" "0 \<le> i"
  shows "service_key q w i \<notin> service_keys p w" "set_key q w i \<notin> set_keys p w"
proof -
  have "(namespace_at p w, name_at p w) \<noteq> (namespace_at q w, name_at q w)"
    using assms(3) memberD(7) [OF assms(1)] memberD(7) [OF assms(2)] by auto
  from keys_apart [OF memberD(8) [OF assms(1)] memberD(8) [OF assms(2)] memberD(4) [OF assms(1)] memberD(4) [OF assms(2)]
      this assms(4)]
  show "service_key q w i \<notin> service_keys p w" "set_key q w i \<notin> set_keys p w" by blast+
qed

lemma provided_outside:
  assumes "provided q w S" and "\<And>i. 0 \<le> i \<Longrightarrow> fst S' (service_key q w i) = fst S (service_key q w i)"
    and "\<And>i. 0 \<le> i \<Longrightarrow> snd S' (set_key q w i) = snd S (set_key q w i)"
  shows "provided q w S'"
  using assms unfolding provided_def keys_defaulted by (cases S; cases S') simp

lemma progress_run:
  assumes env: "serves cl sv" "confined cl sv" "no_deliveries cl" "\<And>p. quiet_for cl p"
    and p: "member sv w0 key p" and progress: "progress sv w0 D (insert key T) v" and new: "key \<notin> T" "key \<notin> D"
    and run: "syncHandler cl key v = (v', out)"
  shows "progress sv w0 (insert key D) T v'" "\<exists>err. out = Returned err"
proof -
  have quiet: "no_wait_timeout cl" using env(4) by (simp add: quiet_for_def)
  have caches: "same_caches w0 v" and by_p: "bystander p (w_heap w0) (w_heap v)" and un_p: "untouched sv w0 p v"
    using progress p by (simp_all add: progress_def)
  note same = bystander_same_cluster [OF by_p]
  note keys = same_cluster_keys [OF same]
  have c: "w_clusters v = w_clusters w0" "w_services v = w_services w0" "w_statefulsets v = w_statefulsets w0"
    using caches by (simp_all add: same_caches_def)
  have at: "sync_cluster cl p v = (v', out)"
    using run syncHandler_at [OF memberD(10,7) [OF p], of v p cl] memberD(5) [OF p] c(1) by simp
  have keyed: "keyed v" using in_step_keyed [OF env(1) memberD(2) [OF p]] c(3) by (simp add: keyed_def)
  have wf: "wf_ptr (w_heap v) p" using by_p by (simp add: bystander_def)
  have seen: "seen_at sv p v"
    using un_p memberD(2) [OF p] by (simp add: seen_at_def keys c untouched_def in_step_def)
  have free: "unobstructed p v" by (rule undisturbed(1) [OF same _ _ memberD(3) [OF p]]) (simp_all add: c)
  have plain: "plain_name p v" using same_cluster_name [OF same] memberD(4) [OF p] by simp
  obtain w2 err where "sync_cluster cl p v = (w2, Returned err)" "provided p v (both_stores sv w2)"
    by (rule run_provides_seen [OF env(1,4) wf seen keyed free plain])
  then have out: "out = Returned err" and "provided p v (both_stores sv v')" using at by simp_all
  then have served: "provided p w0 (both_stores sv v')" using provided_same [OF same_cluster_sym [OF same]] by blast
  have outside: "same_outside sv (service_keys p w0) (set_keys p w0) v v'"
    using run_outside [OF env(2) quiet keyed at] by (simp add: service_keys_def set_keys_def keys)
  have still: "st_services sv (w_env v') (service_key q w0 i) = st_services sv (w_env v) (service_key q w0 i)"
    "st_sets sv (w_env v') (set_key q w0 i) = st_sets sv (w_env v) (set_key q w0 i)"
    if "member sv w0 j q" "j \<noteq> key" "0 \<le> i" for j q i
    using outside member_keys_apart [OF p that(1) _ that(3)] that(2) by (auto simp: same_outside_def)
  have todo: "bystander q (w_heap w0) (w_heap v') \<and> untouched sv w0 q v'" if j: "j \<in> T" "member sv w0 j q" for j q
  proof -
    have by_q: "bystander q (w_heap w0) (w_heap v)" and un_q: "untouched sv w0 q v"
      using progress j by (simp_all add: progress_def)
    have ne: "j \<noteq> key" using j(1) new(1) by blast
    then have "q \<noteq> p" using memberD(7) [OF p] memberD(7) [OF j(2)] by auto
    then have "bystander q (w_heap v) (w_heap v')"
      using run_bystander [OF at wf _ _ env(4)] by_q by (simp add: bystander_def)
    moreover have "untouched sv w0 q v'" using un_q still [OF j(2) ne] by (simp add: untouched_def)
    ultimately show ?thesis using bystander_trans [OF by_q] by blast
  qed
  have kept: "provided q w0 (both_stores sv v')" if j: "j \<in> D" "member sv w0 j q" for j q
  proof (rule provided_outside)
    show "provided q w0 (both_stores sv v)" using progress j by (simp add: progress_def)
    have ne: "j \<noteq> key" using j(1) new(2) by blast
    show "fst (both_stores sv v') (service_key q w0 i) = fst (both_stores sv v) (service_key q w0 i)"
      "snd (both_stores sv v') (set_key q w0 i) = snd (both_stores sv v) (set_key q w0 i)" if "0 \<le> i" for i
      using still [OF j(2) ne that] by (simp_all add: both_stores_def)
  qed
  have "q = p" if "member sv w0 key q" for q using memberD(5) [OF p] memberD(5) [OF that] by simp
  then show "progress sv w0 (insert key D) T v'"
    using same_caches_trans [OF caches run_caches [OF at quiet env(3)]] todo kept served
    unfolding progress_def by blast
  show "\<exists>err. out = Returned err" using out by blast
qed

section \<open>The worker drains the queue\<close>

lemma progress_worlds:
  assumes "same_caches v v'" "w_heap v' = w_heap v" "w_env v' = w_env v"
  shows "progress sv w0 D T v' \<longleftrightarrow> progress sv w0 D T v"
  using assms by (simp add: progress_def same_caches_def bystander_def untouched_def both_stores_def)

lemma first_item_proceeds:
  assumes queue: "q_queue (c_queue c) = KeyItem key # rest" and sync: "syncHandler cl key (c_world c) = (w, Returned err)"
  obtains c1 where "processNextWorkItem cl c = (c1, Proceed)" "c_world c1 = w \<or> (\<exists>e. c_world c1 = HandleError e w)"
proof -
  obtain q where "processNextWorkItem cl c = process_item cl (KeyItem key) (c\<lparr>c_queue := q\<rparr>)"
    using queue by (simp add: processNextWorkItem_def Get_def)
  then show thesis
    using sync that by (cases err) (auto simp: process_item_def handle_error_def)
qed

lemma progress_handled:
  assumes "v = w \<or> (\<exists>e. v = HandleError e w)" "progress sv w0 D T w"
  shows "progress sv w0 D T v"
proof -
  have "same_caches w v" "w_heap v = w_heap w" "w_env v = w_env w"
    using assms(1) by (auto simp: HandleError_def same_caches_def)
  from progress_worlds [OF this] show ?thesis using assms(2) by blast
qed

lemma runWorker_proceeds:
  "processNextWorkItem cl c = (c1, Proceed) \<Longrightarrow> runWorker (Suc n) cl c = runWorker n cl c1"
  by simp

lemma worker_progress:
  assumes env: "serves cl sv" "confined cl sv" "no_deliveries cl" "\<And>p. quiet_for cl p"
    and fleet: "fleet sv (set keys) w0" and progress: "progress sv w0 D (set keys) (c_world c)"
    and fresh: "D \<inter> set keys = {}" and lone: "lone c" and queue: "q_queue (c_queue c) = map KeyItem keys"
    and run: "runWorker (Suc (length keys)) cl c = (c', r)"
  shows "r = (if q_shuttingDown (c_queue c) then Stopped else Blocked) \<and> q_queue (c_queue c') = [] \<and>
    progress sv w0 (D \<union> set keys) {} (c_world c')"
  using fleet progress fresh lone queue run
proof (induction keys arbitrary: D c)
  case Nil
  then show ?case using processNextWorkItem_empty [of c cl] by (auto split: if_splits)
next
  case (Cons key keys)
  have queue: "q_queue (c_queue c) = KeyItem key # map KeyItem keys" using Cons.prems(5) by simp
  have "distinct (map KeyItem (key # keys))" using Cons.prems(4,5) by (simp add: lone_def wq_ok_def)
  then have new: "key \<notin> set keys" "key \<notin> D" using Cons.prems(3) by auto
  obtain p where p: "member sv w0 key p" using Cons.prems(1) by (auto simp: fleet_def)
  have fleet': "fleet sv (set keys) w0" using Cons.prems(1) by (simp add: fleet_def)
  obtain w out where sync: "syncHandler cl key (c_world c) = (w, out)" by fastforce
  have before: "progress sv w0 D (insert key (set keys)) (c_world c)" using Cons.prems(2) by simp
  note after = progress_run [OF env p before new sync]
  then obtain err where out: "out = Returned err" by blast
  obtain c1 where one: "processNextWorkItem cl c = (c1, Proceed)" "c_world c1 = w \<or> (\<exists>e. c_world c1 = HandleError e w)"
    by (rule first_item_proceeds [OF queue sync [unfolded out]])
  note first = processNextWorkItem_first [OF Cons.prems(4) queue one(1)]
  have progress: "progress sv w0 (insert key D) (set keys) (c_world c1)" by (rule progress_handled [OF one(2) after(1)])
  have disjoint: "insert key D \<inter> set keys = {}" using new Cons.prems(3) by auto
  have "runWorker (Suc (length (key # keys))) cl c = runWorker (Suc (length keys)) cl c1"
    unfolding list.size(4) add_0_right add_Suc_right by (rule runWorker_proceeds [OF one(1)])
  then have run: "runWorker (Suc (length keys)) cl c1 = (c', r)" using Cons.prems(6) by argo
  have "r = (if q_shuttingDown (c_queue c1) then Stopped else Blocked) \<and> q_queue (c_queue c') = [] \<and>
    progress sv w0 (insert key D \<union> set keys) {} (c_world c')"
    by (rule Cons.IH [OF fleet' progress disjoint first(2,3) run])
  then show ?case unfolding first(4) by simp
qed

section \<open>From the first list of clusters to their objects\<close>

text \<open>
  The informer's first list delivers every cluster to the handler \<open>cluster_AddFunc\<close>; later the
  queue's delay has passed for each of the keys.
\<close>

definition listed :: "time \<Rightarrow> time \<Rightarrow> strmap ObjectMeta list \<Rightarrow> 'w controller \<Rightarrow> 'w controller" where
  "listed bucket now oms = fold (\<lambda>om. cluster_AddFunc bucket now (ApiObject om)) oms"

definition fired :: "time \<Rightarrow> string list \<Rightarrow> 'w controller \<Rightarrow> 'w controller" where
  "fired now = fold (\<lambda>key c. c\<lparr>c_queue := fire now (KeyItem key) (c_queue c)\<rparr>)"

text \<open>A key that has an entry in the rate limiter waits, and none waits beyond \<open>l\<close>.\<close>

definition waits_until :: "time \<Rightarrow> wq \<Rightarrow> bool" where
  "waits_until l q \<longleftrightarrow> \<not> q_shuttingDown q \<and> (\<forall>x t. q_waiting q x = Some t \<longrightarrow> t \<le> l) \<and>
     (\<forall>x. q_failures q x \<noteq> None \<longrightarrow> q_waiting q x \<noteq> None)"

lemma AddRateLimited_waits_until:
  assumes q: "waits_until l q" and l: "now + max bucket baseDelay \<le> l"
  shows "waits_until l (AddRateLimited bucket now x q)" "q_waiting (AddRateLimited bucket now x q) x \<noteq> None"
    "q_waiting q y \<noteq> None \<Longrightarrow> q_waiting (AddRateLimited bucket now x q) y \<noteq> None"
proof -
  let ?d = "snd (When bucket x q)" and ?q = "fst (When bucket x q)"
  have "0 < item_backoff (failures q x)"
    by (simp add: item_backoff_def Let_def baseDelay_def maxDelay_def)
  then have "0 < ?d" by (simp add: When_def Let_def)
  then have add: "AddRateLimited bucket now x q = insert_waiting x (now + ?d) ?q"
    using q by (simp add: AddRateLimited_def AddAfter_def When_def Let_def waits_until_def)
  have parts: "q_waiting ?q = q_waiting q" "q_shuttingDown ?q = q_shuttingDown q"
    "q_failures ?q = (q_failures q)(x \<mapsto> failures q x + 1)"
    by (simp_all add: When_def Let_def)
  have first: "now + ?d \<le> l" if "q_waiting q x = None"
  proof -
    have "q_failures q x = None" using q that unfolding waits_until_def by metis
    then have "failures q x = 0" by (simp add: failures_def)
    then have "?d = max bucket baseDelay"
      by (simp add: When_def Let_def item_backoff_def baseDelay_def maxDelay_def)
    then show ?thesis using l by simp
  qed
  show "waits_until l (AddRateLimited bucket now x q)" "q_waiting (AddRateLimited bucket now x q) x \<noteq> None"
    "q_waiting q y \<noteq> None \<Longrightarrow> q_waiting (AddRateLimited bucket now x q) y \<noteq> None"
    using q first unfolding add waits_until_def insert_waiting_def parts
    by (auto simp: parts split: option.split if_splits) (metis less_imp_le order_trans)
qed

lemma AddRateLimited_queue:
  assumes "\<not> q_shuttingDown q"
  shows "q_queue (AddRateLimited bucket now x q) = q_queue q" "q_dirty (AddRateLimited bucket now x q) = q_dirty q"
  using AddRateLimited_waits [OF assms, of bucket now x] by blast+

lemma listed_queue:
  assumes "waits_until l (c_queue c)" and l: "now + max bucket baseDelay \<le> l"
  shows "let c' = listed bucket now oms c in
    waits_until l (c_queue c') \<and> c_world c' = c_world c \<and> q_queue (c_queue c') = q_queue (c_queue c) \<and>
    q_dirty (c_queue c') = q_dirty (c_queue c) \<and> q_processing (c_queue c') = q_processing (c_queue c) \<and>
    (\<forall>x. q_waiting (c_queue c) x \<noteq> None \<or> x \<in> KeyItem ` MetaNamespaceKeyFunc ` set oms \<longrightarrow> q_waiting (c_queue c') x \<noteq> None)"
  using assms(1)
proof (induction oms arbitrary: c)
  case (Cons om oms)
  let ?k = "KeyItem (MetaNamespaceKeyFunc om)"
  let ?c1 = "c\<lparr>c_queue := AddRateLimited bucket now ?k (c_queue c)\<rparr>"
  have shut: "\<not> q_shuttingDown (c_queue c)" using Cons.prems(1) by (simp add: waits_until_def)
  note add = AddRateLimited_waits_until [OF Cons.prems(1) l] AddRateLimited_queue [OF shut] rate_limited_sets(1)
  have "waits_until l (c_queue ?c1)" using add(1) by simp
  moreover have "listed bucket now (om # oms) c = listed bucket now oms ?c1"
    by (simp add: listed_def cluster_AddFunc_def enqueueCluster_def)
  ultimately show ?case
    using Cons.IH [of ?c1] add(2-) by (simp add: Let_def)
qed (simp add: listed_def)

lemma fired_queue:
  assumes "\<not> q_shuttingDown (c_queue c)" "q_processing (c_queue c) = {}" "distinct keys"
    and "\<forall>key \<in> set keys. KeyItem key \<notin> q_dirty (c_queue c) \<and> (\<exists>t \<le> now. q_waiting (c_queue c) (KeyItem key) = Some t)"
  shows "c_world (fired now keys c) = c_world c \<and> \<not> q_shuttingDown (c_queue (fired now keys c)) \<and>
    q_queue (c_queue (fired now keys c)) = q_queue (c_queue c) @ map KeyItem keys \<and>
    q_dirty (c_queue (fired now keys c)) = q_dirty (c_queue c) \<union> KeyItem ` set keys \<and>
    q_processing (c_queue (fired now keys c)) = {}"
  using assms
proof (induction keys arbitrary: c)
  case (Cons key keys)
  let ?c1 = "c\<lparr>c_queue := fire now (KeyItem key) (c_queue c)\<rparr>"
  obtain t where t: "t \<le> now" "q_waiting (c_queue c) (KeyItem key) = Some t" using Cons.prems(4) by auto
  then have q1: "c_queue ?c1 = (c_queue c)\<lparr>q_queue := q_queue (c_queue c) @ [KeyItem key],
      q_dirty := insert (KeyItem key) (q_dirty (c_queue c)), q_waiting := (q_waiting (c_queue c))(KeyItem key := None)\<rparr>"
    using Cons.prems(1,2,4) by (simp add: fire_def Add_def Let_def)
  have "KeyItem k \<notin> q_dirty (c_queue ?c1) \<and> (\<exists>t \<le> now. q_waiting (c_queue ?c1) (KeyItem k) = Some t)" if "k \<in> set keys" for k
    using Cons.prems(3,4) that unfolding q1 by auto
  moreover have "\<not> q_shuttingDown (c_queue ?c1)" "q_processing (c_queue ?c1) = {}" "distinct keys"
    using Cons.prems(1-3) by (simp_all add: q1)
  ultimately have "c_world (fired now keys ?c1) = c_world ?c1 \<and> \<not> q_shuttingDown (c_queue (fired now keys ?c1)) \<and>
    q_queue (c_queue (fired now keys ?c1)) = q_queue (c_queue ?c1) @ map KeyItem keys \<and>
    q_dirty (c_queue (fired now keys ?c1)) = q_dirty (c_queue ?c1) \<union> KeyItem ` set keys \<and>
    q_processing (c_queue (fired now keys ?c1)) = {}"
    by (intro Cons.IH) blast+
  moreover have "fired now (key # keys) c = fired now keys ?c1" by (simp add: fired_def)
  moreover have "q_queue (c_queue ?c1) = q_queue (c_queue c) @ [KeyItem key]"
    "q_dirty (c_queue ?c1) = insert (KeyItem key) (q_dirty (c_queue c))" by (simp_all add: q1)
  ultimately show ?case by simp
qed (simp add: fired_def)

lemma first_sync_start:
  assumes keys: "keys = map MetaNamespaceKeyFunc oms" "distinct keys" and later: "now + max bucket baseDelay \<le> later"
  shows "let c = fired later keys (listed bucket now oms \<lparr>c_queue = NewQueue, c_world = w\<rparr>) in
    c_world c = w \<and> \<not> q_shuttingDown (c_queue c) \<and> q_queue (c_queue c) = map KeyItem keys \<and>
    q_dirty (c_queue c) = KeyItem ` set keys \<and> q_processing (c_queue c) = {}"
proof -
  let ?c0 = "\<lparr>c_queue = NewQueue, c_world = w\<rparr>"
  let ?c1 = "listed bucket now oms ?c0"
  have "waits_until later (c_queue ?c0)" by (simp add: waits_until_def NewQueue_def)
  note c1 = listed_queue [OF this later, of oms, unfolded Let_def]
  have shut: "\<not> q_shuttingDown (c_queue ?c1)" using c1 by (simp add: waits_until_def)
  have idle: "q_processing (c_queue ?c1) = {}" using c1 by (simp add: NewQueue_def)
  have wait: "KeyItem key \<notin> q_dirty (c_queue ?c1) \<and> (\<exists>t \<le> later. q_waiting (c_queue ?c1) (KeyItem key) = Some t)"
    if "key \<in> set keys" for key
  proof -
    have "KeyItem key \<in> KeyItem ` MetaNamespaceKeyFunc ` set oms" using that keys(1) by auto
    then have "q_waiting (c_queue ?c1) (KeyItem key) \<noteq> None" using c1 by blast
    then obtain t where t: "q_waiting (c_queue ?c1) (KeyItem key) = Some t" by auto
    then have "t \<le> later" using c1 by (simp add: waits_until_def)
    then show ?thesis using t c1 by (simp add: NewQueue_def)
  qed
  then show ?thesis using fired_queue [OF shut idle keys(2), of later] c1 by (simp add: NewQueue_def Let_def)
qed


text \<open>Two clusters are listed at time 0; their keys are ready five milliseconds later.\<close>

definition listed_meta :: "string \<Rightarrow> strmap ObjectMeta" where
  "listed_meta name = empty_meta\<lparr>om_Namespace := ''rocketmq-operator'', om_Name := name\<rparr>"


section \<open>Any number of workers\<close>

text \<open>The steps of \<open>step\<close> that workers make: one takes a key, or finishes the one it holds.\<close>

inductive work :: "'w client \<Rightarrow> 'w running \<Rightarrow> 'w running \<Rightarrow> bool" for cl where
  takes: "held i = None \<Longrightarrow> take_item (c_queue c) = Some (q, x) \<Longrightarrow>
     work cl (c, held) (c\<lparr>c_queue := q\<rparr>, held(i \<mapsto> x))"
| finishes: "held i = Some x \<Longrightarrow> process_item cl x c = (c', r) \<Longrightarrow> work cl (c, held) (c', held(i := None))"

inductive_cases workE: "work cl (c, held) s"

lemma work_step: "work cl s s' \<Longrightarrow> step cl s s'"
  by (induction rule: work.induct) (auto intro: take_step finish_step)

text \<open>
  After \<open>n\<close> steps: a key is queued, held or done, and its cluster is untouched, untouched or
  provided.
\<close>

definition draining :: "'w stored \<Rightarrow> 'w world \<Rightarrow> string list \<Rightarrow> nat \<Rightarrow> 'w running \<Rightarrow> bool" where
  "draining sv w0 keys n = (\<lambda>(c, held).
     \<exists>D T. D \<union> T = set keys \<and> D \<inter> T = {} \<and> progress sv w0 D T (c_world c) \<and>
       KeyItem ` T = set (q_queue (c_queue c)) \<union> ran held \<and> set (q_queue (c_queue c)) \<inter> ran held = {} \<and>
       distinct (q_queue (c_queue c)) \<and> q_dirty (c_queue c) = set (q_queue (c_queue c)) \<and>
       inj_on held (dom held) \<and> finite (dom held) \<and>
       n + 2 * length (q_queue (c_queue c)) + card (dom held) = 2 * length keys)"

lemma drainingE:
  assumes "draining sv w0 keys n (c, held)"
  obtains D T where "D \<union> T = set keys" "D \<inter> T = {}" "progress sv w0 D T (c_world c)"
    "KeyItem ` T = set (q_queue (c_queue c)) \<union> ran held" "set (q_queue (c_queue c)) \<inter> ran held = {}"
    "distinct (q_queue (c_queue c))" "q_dirty (c_queue c) = set (q_queue (c_queue c))"
    "inj_on held (dom held)" "finite (dom held)"
    "n + 2 * length (q_queue (c_queue c)) + card (dom held) = 2 * length keys"
  using assms unfolding draining_def prod.case by blast

lemma draining_take:
  assumes inv: "draining sv w0 keys n (c, held)" and free: "held i = None"
    and take: "take_item (c_queue c) = Some (q, x)"
  shows "draining sv w0 keys (Suc n) (c\<lparr>c_queue := q\<rparr>, held(i \<mapsto> x))"
proof -
  from inv obtain D T where inv': "D \<union> T = set keys" "D \<inter> T = {}" "progress sv w0 D T (c_world c)"
    "KeyItem ` T = set (q_queue (c_queue c)) \<union> ran held" "set (q_queue (c_queue c)) \<inter> ran held = {}"
    "distinct (q_queue (c_queue c))" "q_dirty (c_queue c) = set (q_queue (c_queue c))"
    "inj_on held (dom held)" "finite (dom held)"
    "n + 2 * length (q_queue (c_queue c)) + card (dom held) = 2 * length keys"
    by (rule drainingE)
  obtain rest where queue: "q_queue (c_queue c) = x # rest"
    and q: "q_queue q = rest" "q_dirty q = q_dirty (c_queue c) - {x}"
    using take by (auto simp: take_item_Some Get_def split: list.splits if_splits)
  have x: "x \<notin> ran held" "x \<notin> set rest" using inv'(5,6) queue by auto
  have ran: "ran (held(i \<mapsto> x)) = insert x (ran held)" using free by simp
  have "inj_on (held(i \<mapsto> x)) (dom (held(i \<mapsto> x)))"
    using inv'(8) x(1) free by (auto simp: inj_on_def ran_def dom_def)
  moreover have "card (dom (held(i \<mapsto> x))) = Suc (card (dom held))"
    using inv'(9) free by (simp add: domIff)
  ultimately show ?thesis
    unfolding draining_def prod.case
    by (intro exI [of _ D] exI [of _ T]) (use inv' queue q ran x in auto)
qed

lemma draining_finish:
  assumes env: "serves cl sv" "confined cl sv" "no_deliveries cl" "\<And>p. quiet_for cl p"
    and fleet: "fleet sv (set keys) w0" and inv: "draining sv w0 keys n (c, held)" and held: "held i = Some x"
    and run: "process_item cl x c = (c', r)"
  shows "draining sv w0 keys (Suc n) (c', held(i := None))"
proof -
  from inv obtain D T where inv': "D \<union> T = set keys" "D \<inter> T = {}" "progress sv w0 D T (c_world c)"
    "KeyItem ` T = set (q_queue (c_queue c)) \<union> ran held" "set (q_queue (c_queue c)) \<inter> ran held = {}"
    "distinct (q_queue (c_queue c))" "q_dirty (c_queue c) = set (q_queue (c_queue c))"
    "inj_on held (dom held)" "finite (dom held)"
    "n + 2 * length (q_queue (c_queue c)) + card (dom held) = 2 * length keys"
    by (rule drainingE)
  have x: "x \<in> ran held" using held by (rule ranI)
  then obtain key where key: "x = KeyItem key" "key \<in> T" using inv'(4) by blast
  obtain p where p: "member sv w0 key p" using fleet inv'(1) key(2) unfolding fleet_def by blast
  obtain w out where sync: "syncHandler cl key (c_world c) = (w, out)" by fastforce
  have before: "progress sv w0 D (insert key (T - {key})) (c_world c)" using inv'(3) insert_Diff [OF key(2)] by simp
  have new: "key \<notin> T - {key}" "key \<notin> D" using key(2) inv'(2) by blast+
  note after = progress_run [OF env p before new sync]
  obtain err where "out = Returned err" using after(2) by blast
  then have "c_world c' = w \<or> (\<exists>e. c_world c' = HandleError e w)"
    using process_key_world [OF run [unfolded key(1)]] sync by simp
  then have progress: "progress sv w0 (insert key D) (T - {key}) (c_world c')" using after(1) by (rule progress_handled)
  have "x \<notin> q_dirty (c_queue c)" using x inv'(5,7) by blast
  then have queue: "q_queue (c_queue c') = q_queue (c_queue c)" "q_dirty (c_queue c') = q_dirty (c_queue c)"
    using process_item_queue [OF run] by (auto simp: Done_def Forget_def Let_def)
  have "y \<in> ran (held(i := None)) \<longleftrightarrow> y \<in> ran held - {x}" for y
    using inv'(8) held by (auto simp: ran_def inj_on_def dom_def) (metis option.inject)
  then have ran: "ran (held(i := None)) = ran held - {x}" by blast
  have keys: "KeyItem ` (T - {key}) = set (q_queue (c_queue c)) \<union> (ran held - {x})"
  proof -
    have "KeyItem ` (T - {key}) = KeyItem ` T - {x}" using key(1) by auto
    then show ?thesis using inv'(4,5) x by blast
  qed
  have inj: "inj_on (held(i := None)) (dom (held(i := None)))" using inv'(8) by (auto simp: inj_on_def dom_def)
  have "i \<in> dom held" using held by blast
  then have card: "Suc (card (dom (held(i := None)))) = card (dom held)"
    using card_Suc_Diff1 [OF inv'(9)] unfolding dom_fun_upd by simp
  have parts: "insert key D \<union> (T - {key}) = set keys" "insert key D \<inter> (T - {key}) = {}"
    "set (q_queue (c_queue c)) \<inter> (ran held - {x}) = {}" "finite (dom (held(i := None)))"
  proof -
    show "insert key D \<union> (T - {key}) = set keys" using inv'(1) key(2) by auto
    show "insert key D \<inter> (T - {key}) = {}" using inv'(2) by auto
    show "set (q_queue (c_queue c)) \<inter> (ran held - {x}) = {}" using inv'(5) by auto
    show "finite (dom (held(i := None)))" using inv'(9) by simp
  qed
  have "Suc n + 2 * length (q_queue (c_queue c)) + card (dom (held(i := None))) = 2 * length keys"
    using inv'(10) card by linarith
  then show ?thesis
    unfolding draining_def prod.case queue ran
    by (intro exI [of _ "insert key D"] exI [of _ "T - {key}"] conjI parts progress keys inv'(6,7) inj)
qed

lemma draining_runs:
  assumes env: "serves cl sv" "confined cl sv" "no_deliveries cl" "\<And>p. quiet_for cl p"
    and fleet: "fleet sv (set keys) w0" and start: "draining sv w0 keys 0 s"
  shows "(work cl ^^ n) s s' \<Longrightarrow> draining sv w0 keys n s'"
proof (induction n arbitrary: s')
  case 0
  then show ?case using start by simp
next
  case (Suc n)
  then obtain c held where "work cl (c, held) s'" and inv: "draining sv w0 keys n (c, held)" by (metis relpowp_Suc_E surj_pair)
  then show ?case
    by (auto elim!: workE intro: draining_take draining_finish [OF env fleet])
qed

lemma draining_moves:
  assumes "draining sv w0 keys n (c, held)" "n < 2 * length keys"
  shows "\<exists>s. work cl (c, held) s"
proof (cases "q_queue (c_queue c)")
  case Nil
  then have "dom held \<noteq> {}" using assms by (auto simp: draining_def)
  then obtain i x where "held i = Some x" by blast
  then show ?thesis by (metis finishes surj_pair)
next
  case (Cons x rest)
  have "finite (dom held)" using assms(1) by (auto simp: draining_def)
  then obtain i where "held i = None" by (metis ex_new_if_finite infinite_UNIV_nat domIff)
  moreover obtain q where "take_item (c_queue c) = Some (q, x)" using Cons by (simp add: take_item_Some Get_def)
  ultimately show ?thesis by (metis takes)
qed

lemma draining_start:
  assumes "fleet sv (set keys) w" "keys = map MetaNamespaceKeyFunc oms" "distinct keys" "now + max bucket baseDelay \<le> later"
  shows "draining sv w keys 0 (fired later keys (listed bucket now oms \<lparr>c_queue = NewQueue, c_world = w\<rparr>), Map.empty)"
proof -
  let ?c = "fired later keys (listed bucket now oms \<lparr>c_queue = NewQueue, c_world = w\<rparr>)"
  note c = first_sync_start [OF assms(2-4), of w, unfolded Let_def]
  have "progress sv w {} (set keys) (c_world ?c)" using progress_start [OF assms(1)] c by simp
  moreover have "distinct (q_queue (c_queue ?c))" using c assms(3) by (simp add: distinct_map inj_on_def)
  ultimately show ?thesis
    unfolding draining_def prod.case
    by (intro exI [of _ "{}"] exI [of _ "set keys"]) (simp add: c del: o_apply)
qed

lemma draining_bound: "draining sv w0 keys n (c, held) \<Longrightarrow> n \<le> 2 * length keys"
  by (elim drainingE) linarith

lemma draining_over:
  assumes "draining sv w0 keys (2 * length keys) (c, held)"
  shows "q_queue (c_queue c) = []" "held = Map.empty" "progress sv w0 (set keys) {} (c_world c)"
proof -
  from assms obtain D T where inv': "D \<union> T = set keys" "progress sv w0 D T (c_world c)"
    "KeyItem ` T = set (q_queue (c_queue c)) \<union> ran held" "finite (dom held)"
    "2 * length keys + 2 * length (q_queue (c_queue c)) + card (dom held) = 2 * length keys"
    by (rule drainingE)
  have "length (q_queue (c_queue c)) = 0" "card (dom held) = 0" using inv'(5) by linarith+
  then show empty: "q_queue (c_queue c) = []" "held = Map.empty" using inv'(4) by simp_all
  have "KeyItem ` T = {}" using inv'(3) unfolding empty by simp
  then show "progress sv w0 (set keys) {} (c_world c)" using inv'(1,2) by simp
qed




end
