(* ===== verification/Scheme_Registration.thy ===== *)
theory Scheme_Registration
  imports K8s_Meta
begin

text \<open>
  The registration of the custom resource with the API machinery's scheme
  (\<open>register.go\<close> of the API package, of the clientset and of the fake clientset), on the
  scheme of \<open>runtime/scheme.go\<close>.

  A Go type is its package and its name. Registering panics when a kind has no version or is
  already taken by another type: such an operation is \<open>None\<close>. A type that is not registered
  has the empty list in \<open>sc_typeToGVK\<close>. Conversion and defaulting functions are not modelled.
\<close>

section \<open>The scheme\<close>

record go_type =
  ty_PkgPath :: string
  ty_Name :: string

record scheme =
  sc_gvkToType :: "GroupVersionKind \<rightharpoonup> go_type"
  sc_typeToGVK :: "go_type \<Rightarrow> GroupVersionKind list"
  sc_unversionedTypes :: "go_type \<rightharpoonup> GroupVersionKind"
  sc_unversionedKinds :: "string \<rightharpoonup> go_type"

definition NewScheme :: scheme where
  "NewScheme = \<lparr>sc_gvkToType = Map.empty, sc_typeToGVK = (\<lambda>_. []), sc_unversionedTypes = Map.empty,
     sc_unversionedKinds = Map.empty\<rparr>"

definition WithKind :: "GroupVersion \<Rightarrow> string \<Rightarrow> GroupVersionKind" where
  "WithKind gv kind = \<lparr>gvk_Group = gv_Group gv, gvk_Version = gv_Version gv, gvk_Kind = kind\<rparr>"

definition AddKnownTypeWithName :: "GroupVersionKind \<Rightarrow> go_type \<Rightarrow> scheme \<Rightarrow> scheme option" where
  "AddKnownTypeWithName gvk t s =
     (if gvk_Version gvk = '''' then None
      else if (case sc_gvkToType s gvk of Some oldT \<Rightarrow> oldT \<noteq> t | None \<Rightarrow> False) then None
      else
        (let s1 = s\<lparr>sc_gvkToType := (sc_gvkToType s)(gvk \<mapsto> t)\<rparr> in
         if gvk \<in> set (sc_typeToGVK s1 t) then Some s1
         else Some (s1\<lparr>sc_typeToGVK := (sc_typeToGVK s1)(t := sc_typeToGVK s1 t @ [gvk])\<rparr>)))"

fun AddKnownTypes :: "GroupVersion \<Rightarrow> go_type list \<Rightarrow> scheme \<Rightarrow> scheme option" where
  "AddKnownTypes gv [] s = Some s"
| "AddKnownTypes gv (t # ts) s =
     (case AddKnownTypeWithName (WithKind gv (ty_Name t)) t s of
        None \<Rightarrow> None
      | Some s' \<Rightarrow> AddKnownTypes gv ts s')"

fun add_unversioned :: "GroupVersion \<Rightarrow> go_type list \<Rightarrow> scheme \<Rightarrow> scheme option" where
  "add_unversioned version [] s = Some s"
| "add_unversioned version (t # ts) s =
     (let gvk = WithKind version (ty_Name t);
          s1 = s\<lparr>sc_unversionedTypes := (sc_unversionedTypes s)(t \<mapsto> gvk)\<rparr>;
          s2 = s1\<lparr>sc_unversionedKinds := (sc_unversionedKinds s1)(gvk_Kind gvk \<mapsto> t)\<rparr>
      in case sc_unversionedKinds s1 (gvk_Kind gvk) of
           Some old \<Rightarrow> if t \<noteq> old then None else add_unversioned version ts s2
         | None \<Rightarrow> add_unversioned version ts s2)"

definition AddUnversionedTypes :: "GroupVersion \<Rightarrow> go_type list \<Rightarrow> scheme \<Rightarrow> scheme option" where
  "AddUnversionedTypes version ts s =
     (case AddKnownTypes version ts s of
        None \<Rightarrow> None
      | Some s' \<Rightarrow> add_unversioned version ts s')"

text \<open>The second result says whether the type is unversioned.\<close>

definition ObjectKinds :: "go_type \<Rightarrow> scheme \<Rightarrow> go_error + (GroupVersionKind list \<times> bool)" where
  "ObjectKinds t s =
     (case sc_typeToGVK s t of
        [] \<Rightarrow> Inl (MessageError (''no kind is registered for the type '' @ ty_PkgPath t @ ''.'' @ ty_Name t))
      | gvks \<Rightarrow> Inr (gvks, sc_unversionedTypes s t \<noteq> None))"

definition Recognizes :: "GroupVersionKind \<Rightarrow> scheme \<Rightarrow> bool" where
  "Recognizes gvk s \<longleftrightarrow> sc_gvkToType s gvk \<noteq> None"

text \<open>A new object is its type.\<close>

definition Scheme_New :: "GroupVersionKind \<Rightarrow> scheme \<Rightarrow> go_error + go_type" where
  "Scheme_New kind s =
     (case sc_gvkToType s kind of
        Some t \<Rightarrow> Inr t
      | None \<Rightarrow>
          (case sc_unversionedKinds s (gvk_Kind kind) of
             Some t \<Rightarrow> Inr t
           | None \<Rightarrow> Inl (MessageError (''no kind '' @ gvk_Kind kind @ '' is registered''))))"

section \<open>What the packages register\<close>

definition meta_type :: "string \<Rightarrow> go_type" where
  "meta_type name = \<lparr>ty_PkgPath = ''k8s.io/apimachinery/pkg/apis/meta/v1'', ty_Name = name\<rparr>"

definition api_type :: "string \<Rightarrow> go_type" where
  "api_type name = \<lparr>ty_PkgPath = ''github.com/huanwei/rocketmq-operator/pkg/apis/rocketmq/v1alpha1'', ty_Name = name\<rparr>"

definition Unversioned :: GroupVersion where
  "Unversioned = \<lparr>gv_Group = '''', gv_Version = ''v1''\<rparr>"

definition AddToGroupVersion :: "GroupVersion \<Rightarrow> scheme \<Rightarrow> scheme option" where
  "AddToGroupVersion groupVersion s =
     (case AddKnownTypeWithName (WithKind groupVersion ''WatchEvent'') (meta_type ''WatchEvent'') s of
        None \<Rightarrow> None
      | Some s1 \<Rightarrow>
     (case AddKnownTypeWithName (WithKind \<lparr>gv_Group = gv_Group groupVersion, gv_Version = ''__internal''\<rparr> ''WatchEvent'')
             (meta_type ''InternalEvent'') s1 of
        None \<Rightarrow> None
      | Some s2 \<Rightarrow>
     (case AddKnownTypes groupVersion
             (map meta_type [''ListOptions'', ''ExportOptions'', ''GetOptions'', ''DeleteOptions'']) s2 of
        None \<Rightarrow> None
      | Some s3 \<Rightarrow>
          AddUnversionedTypes Unversioned
            (map meta_type [''Status'', ''APIVersions'', ''APIGroupList'', ''APIGroup'', ''APIResourceList'']) s3)))"

definition addKnownTypes :: "scheme \<Rightarrow> scheme option" where
  "addKnownTypes s =
     (case AddKnownTypes SchemeGroupVersion (map api_type [''BrokerCluster'', ''BrokerClusterList'']) s of
        None \<Rightarrow> None
      | Some s1 \<Rightarrow> AddToGroupVersion SchemeGroupVersion s1)"

text \<open>A scheme builder runs its functions in order; these return no error.\<close>

fun AddToScheme :: "(scheme \<Rightarrow> scheme option) list \<Rightarrow> scheme \<Rightarrow> scheme option" where
  "AddToScheme [] s = Some s"
| "AddToScheme (f # fs) s = (case f s of None \<Rightarrow> None | Some s' \<Rightarrow> AddToScheme fs s')"

definition SchemeBuilder :: "(scheme \<Rightarrow> scheme option) list" where
  "SchemeBuilder = [addKnownTypes]"

definition localSchemeBuilder :: "(scheme \<Rightarrow> scheme option) list" where
  "localSchemeBuilder = [AddToScheme SchemeBuilder]"

text \<open>The package initialisation of the clientset, and of the fake, which has a scheme of its own.\<close>

definition scheme_init :: "scheme \<Rightarrow> scheme option" where
  "scheme_init s =
     (case AddToGroupVersion \<lparr>gv_Group = '''', gv_Version = ''v1''\<rparr> s of
        None \<Rightarrow> None
      | Some s1 \<Rightarrow> AddToScheme localSchemeBuilder s1)"

definition fake_localSchemeBuilder :: "(scheme \<Rightarrow> scheme option) list" where
  "fake_localSchemeBuilder = [AddToScheme SchemeBuilder]"

definition fake_AddToScheme :: "scheme \<Rightarrow> scheme option" where
  "fake_AddToScheme = AddToScheme fake_localSchemeBuilder"

definition fake_scheme_init :: "scheme \<Rightarrow> scheme option" where
  "fake_scheme_init s =
     (case AddToGroupVersion \<lparr>gv_Group = '''', gv_Version = ''v1''\<rparr> s of
        None \<Rightarrow> None
      | Some s1 \<Rightarrow> fake_AddToScheme s1)"

section \<open>The two maps agree\<close>

definition scheme_ok :: "scheme \<Rightarrow> bool" where
  "scheme_ok s \<longleftrightarrow> (\<forall>t. distinct (sc_typeToGVK s t)) \<and>
     (\<forall>gvk t. gvk \<in> set (sc_typeToGVK s t) \<longleftrightarrow> sc_gvkToType s gvk = Some t)"

definition registered :: "GroupVersionKind \<Rightarrow> go_type \<Rightarrow> scheme \<Rightarrow> bool" where
  "registered gvk t s \<longleftrightarrow> sc_gvkToType s gvk = Some t \<and> gvk \<in> set (sc_typeToGVK s t)"

definition unversioned :: "GroupVersion \<Rightarrow> go_type \<Rightarrow> scheme \<Rightarrow> bool" where
  "unversioned version t s \<longleftrightarrow> sc_unversionedTypes s t = Some (WithKind version (ty_Name t)) \<and>
     sc_unversionedKinds s (ty_Name t) = Some t"

text \<open>
  \<open>grows s s'\<close>: a registration was added: what was registered stays, and the maps still agree.
\<close>

definition grows :: "scheme \<Rightarrow> scheme \<Rightarrow> bool" where
  "grows s s' \<longleftrightarrow> (\<forall>gvk t. registered gvk t s \<longrightarrow> registered gvk t s') \<and>
     (\<forall>t. unversioned Unversioned t s \<longrightarrow> unversioned Unversioned t s') \<and> (scheme_ok s \<longrightarrow> scheme_ok s')"

lemma grows_refl: "grows s s"
  by (simp add: grows_def)

lemma grows_trans: "grows s s' \<Longrightarrow> grows s' s'' \<Longrightarrow> grows s s''"
  by (simp add: grows_def)

lemma known_name:
  assumes "AddKnownTypeWithName gvk t s = Some s'"
  shows "registered gvk t s'" "grows s s'"
proof -
  have free: "sc_gvkToType s gvk = None \<or> sc_gvkToType s gvk = Some t"
    using assms by (auto simp: AddKnownTypeWithName_def split: if_splits option.splits)
  have s': "sc_gvkToType s' = (sc_gvkToType s)(gvk \<mapsto> t)"
    "sc_typeToGVK s' = (if gvk \<in> set (sc_typeToGVK s t) then sc_typeToGVK s
       else (sc_typeToGVK s)(t := sc_typeToGVK s t @ [gvk]))"
    "sc_unversionedTypes s' = sc_unversionedTypes s" "sc_unversionedKinds s' = sc_unversionedKinds s"
    using assms by (auto simp: AddKnownTypeWithName_def Let_def split: if_splits)
  show "registered gvk t s'" by (simp add: registered_def s')
  have "registered g u s \<Longrightarrow> registered g u s'" for g u using free by (auto simp: registered_def s')
  moreover have "unversioned Unversioned u s \<Longrightarrow> unversioned Unversioned u s'" for u by (simp add: unversioned_def s')
  moreover have "scheme_ok s'" if ok: "scheme_ok s"
    unfolding scheme_ok_def
  proof (intro conjI allI)
    fix u show "distinct (sc_typeToGVK s' u)" using ok by (simp add: scheme_ok_def s')
  next
    fix g u
    have "g \<in> set (sc_typeToGVK s' u) \<longleftrightarrow> g \<in> set (sc_typeToGVK s u) \<or> (g = gvk \<and> u = t)" by (auto simp: s')
    also have "\<dots> \<longleftrightarrow> sc_gvkToType s g = Some u \<or> (g = gvk \<and> u = t)" using ok by (simp add: scheme_ok_def)
    also have "\<dots> \<longleftrightarrow> sc_gvkToType s' g = Some u" using free by (auto simp: s')
    finally show "g \<in> set (sc_typeToGVK s' u) \<longleftrightarrow> sc_gvkToType s' g = Some u" .
  qed
  ultimately show "grows s s'" by (simp add: grows_def)
qed

lemma known_again:
  assumes "registered gvk t s" "gvk_Version gvk \<noteq> ''''"
  shows "AddKnownTypeWithName gvk t s = Some s"
proof -
  have "s\<lparr>sc_gvkToType := (sc_gvkToType s)(gvk \<mapsto> t)\<rparr> = s" using assms(1) by (simp add: registered_def fun_upd_idem)
  then show ?thesis using assms by (simp add: AddKnownTypeWithName_def registered_def)
qed

lemma known_types:
  assumes "AddKnownTypes gv ts s = Some s'"
  shows "\<forall>t \<in> set ts. registered (WithKind gv (ty_Name t)) t s'" "grows s s'"
proof -
  have "(\<forall>t \<in> set ts. registered (WithKind gv (ty_Name t)) t s') \<and> grows s s'"
    using assms
  proof (induction ts arbitrary: s)
    case (Cons t ts)
    then obtain s1 where s1: "AddKnownTypeWithName (WithKind gv (ty_Name t)) t s = Some s1" "AddKnownTypes gv ts s1 = Some s'"
      by (auto split: option.splits)
    then show ?case using Cons.IH [OF s1(2)] known_name [OF s1(1)] grows_trans by (auto simp: grows_def)
  qed (simp add: grows_refl)
  then show "\<forall>t \<in> set ts. registered (WithKind gv (ty_Name t)) t s'" "grows s s'" by simp_all
qed

lemma known_types_again:
  "\<forall>t \<in> set ts. registered (WithKind gv (ty_Name t)) t s \<Longrightarrow> gv_Version gv \<noteq> '''' \<Longrightarrow> AddKnownTypes gv ts s = Some s"
  by (induction ts) (simp_all add: known_again WithKind_def)

lemma unversioned_types:
  assumes "add_unversioned Unversioned ts s = Some s'"
  shows "\<forall>t \<in> set ts. unversioned Unversioned t s'" "grows s s'"
proof -
  have "(\<forall>t \<in> set ts. unversioned Unversioned t s') \<and> grows s s'"
    using assms
  proof (induction ts arbitrary: s)
    case (Cons t ts)
    let ?s2 = "s\<lparr>sc_unversionedTypes := (sc_unversionedTypes s)(t \<mapsto> WithKind Unversioned (ty_Name t)),
        sc_unversionedKinds := (sc_unversionedKinds s)(ty_Name t \<mapsto> t)\<rparr>"
    have rest: "add_unversioned Unversioned ts ?s2 = Some s'"
      and free: "sc_unversionedKinds s (ty_Name t) \<in> {None, Some t}"
      using Cons.prems by (auto simp: Let_def WithKind_def split: option.splits if_splits)
    have "unversioned Unversioned u ?s2" if "unversioned Unversioned u s" for u
      using that free by (auto simp: unversioned_def)
    then have "grows s ?s2" by (simp add: grows_def registered_def scheme_ok_def)
    moreover have "unversioned Unversioned t ?s2" by (simp add: unversioned_def)
    ultimately show ?case using Cons.IH [OF rest] grows_trans by (auto simp: grows_def)
  qed (simp add: grows_refl)
  then show "\<forall>t \<in> set ts. unversioned Unversioned t s'" "grows s s'" by simp_all
qed

lemma unversioned_again:
  assumes "\<forall>t \<in> set ts. unversioned Unversioned t s"
  shows "add_unversioned Unversioned ts s = Some s"
  using assms
proof (induction ts)
  case (Cons t ts)
  have "s\<lparr>sc_unversionedTypes := (sc_unversionedTypes s)(t \<mapsto> WithKind Unversioned (ty_Name t)),
      sc_unversionedKinds := (sc_unversionedKinds s)(ty_Name t \<mapsto> t)\<rparr> = s"
    using Cons.prems by (simp add: unversioned_def fun_upd_idem)
  then show ?case using Cons by (simp add: Let_def WithKind_def unversioned_def)
qed simp

section \<open>What the operator's packages leave\<close>

definition option_types :: "go_type list" where
  "option_types = map meta_type [''ListOptions'', ''ExportOptions'', ''GetOptions'', ''DeleteOptions'']"

definition status_types :: "go_type list" where
  "status_types = map meta_type [''Status'', ''APIVersions'', ''APIGroupList'', ''APIGroup'', ''APIResourceList'']"

definition internal_version :: "GroupVersion \<Rightarrow> GroupVersion" where
  "internal_version gv = \<lparr>gv_Group = gv_Group gv, gv_Version = ''__internal''\<rparr>"

definition group_registered :: "GroupVersion \<Rightarrow> scheme \<Rightarrow> bool" where
  "group_registered gv s \<longleftrightarrow>
     registered (WithKind gv ''WatchEvent'') (meta_type ''WatchEvent'') s \<and>
     registered (WithKind (internal_version gv) ''WatchEvent'') (meta_type ''InternalEvent'') s \<and>
     (\<forall>t \<in> set option_types. registered (WithKind gv (ty_Name t)) t s) \<and>
     (\<forall>t \<in> set status_types. registered (WithKind Unversioned (ty_Name t)) t s \<and> unversioned Unversioned t s)"

lemma AddToGroupVersion_grows:
  assumes "AddToGroupVersion gv s = Some s'"
  shows "group_registered gv s'" "grows s s'" "gv_Version gv \<noteq> ''''"
proof -
  obtain s1 s2 s3 s4 where steps:
    "AddKnownTypeWithName (WithKind gv ''WatchEvent'') (meta_type ''WatchEvent'') s = Some s1"
    "AddKnownTypeWithName (WithKind (internal_version gv) ''WatchEvent'') (meta_type ''InternalEvent'') s1 = Some s2"
    "AddKnownTypes gv option_types s2 = Some s3" "AddKnownTypes Unversioned status_types s3 = Some s4"
    "add_unversioned Unversioned status_types s4 = Some s'"
    using assms by (auto simp: AddToGroupVersion_def AddUnversionedTypes_def option_types_def status_types_def
        internal_version_def split: option.splits)
  note k = known_name [OF steps(1)] known_name [OF steps(2)] known_types [OF steps(3)] known_types [OF steps(4)]
    unversioned_types [OF steps(5)]
  note g4 = k(10) and g3 = grows_trans [OF k(8,10)]
  note g2 = grows_trans [OF k(6) g3]
  note g1 = grows_trans [OF k(4) g2]
  have "registered (WithKind gv ''WatchEvent'') (meta_type ''WatchEvent'') s'" using k(1) g1 by (simp add: grows_def)
  moreover have "registered (WithKind (internal_version gv) ''WatchEvent'') (meta_type ''InternalEvent'') s'"
    using k(3) g2 by (simp add: grows_def)
  moreover have "\<forall>t \<in> set option_types. registered (WithKind gv (ty_Name t)) t s'"
    using k(5) g3 by (simp add: grows_def)
  moreover have "\<forall>t \<in> set status_types. registered (WithKind Unversioned (ty_Name t)) t s'"
    using k(7) g4 by (simp add: grows_def)
  ultimately show "group_registered gv s'" using k(9) by (simp add: group_registered_def)
  show "grows s s'" by (rule grows_trans [OF k(2) g1])
  show "gv_Version gv \<noteq> ''''" using steps(1) by (auto simp: AddKnownTypeWithName_def WithKind_def)
qed

lemma AddToGroupVersion_again:
  assumes "group_registered gv s" "gv_Version gv \<noteq> ''''"
  shows "AddToGroupVersion gv s = Some s"
  using assms known_again [of "WithKind gv ''WatchEvent''" "meta_type ''WatchEvent''" s]
    known_again [of "WithKind (internal_version gv) ''WatchEvent''" "meta_type ''InternalEvent''" s]
    known_types_again [of option_types gv s] known_types_again [of status_types Unversioned s]
    unversioned_again [of status_types s]
  by (simp add: AddToGroupVersion_def AddUnversionedTypes_def group_registered_def WithKind_def internal_version_def
      option_types_def [symmetric] status_types_def [symmetric] Unversioned_def del: list.map)

text \<open>
  C39: Registering the custom resource with a consistent scheme, in which the maps from kinds to
  types and from types to kinds agree, keeps it consistent and takes nothing away. Afterwards
  the kind BrokerCluster of the operator's group and version makes a broker cluster, the type
  is known under that kind, and registering again, as the controller does for every instance
  it makes, changes nothing and does not panic.
\<close>

theorem registration_idempotent:
  assumes "AddToScheme SchemeBuilder s = Some s'" "scheme_ok s"
  shows "scheme_ok s' \<and> (\<forall>gvk. Recognizes gvk s \<longrightarrow> Scheme_New gvk s' = Scheme_New gvk s) \<and>
    Scheme_New BrokerClusterGVK s' = Inr (api_type ''BrokerCluster'') \<and>
    (\<exists>gvks b. ObjectKinds (api_type ''BrokerCluster'') s' = Inr (gvks, b) \<and> BrokerClusterGVK \<in> set gvks) \<and>
    AddToScheme SchemeBuilder s' = Some s'"
proof -
  let ?api = "map api_type [''BrokerCluster'', ''BrokerClusterList'']"
  obtain s1 where steps: "AddKnownTypes SchemeGroupVersion ?api s = Some s1" "AddToGroupVersion SchemeGroupVersion s1 = Some s'"
    using assms(1) by (auto simp: SchemeBuilder_def addKnownTypes_def split: option.splits)
  note known = known_types [OF steps(1)] and group = AddToGroupVersion_grows [OF steps(2)]
  have api: "\<forall>t \<in> set ?api. registered (WithKind SchemeGroupVersion (ty_Name t)) t s'"
    using known(1) group(2) unfolding grows_def by blast
  have gvk: "WithKind SchemeGroupVersion ''BrokerCluster'' = BrokerClusterGVK"
    by (simp add: WithKind_def BrokerClusterGVK_def ClusterCRDResourceKind_def)
  then have bc: "registered BrokerClusterGVK (api_type ''BrokerCluster'') s'"
    using api by (simp add: api_type_def)
  have all: "grows s s'" by (rule grows_trans [OF known(2) group(2)])
  then have ok: "scheme_ok s'" using assms(2) by (simp add: grows_def)
  have keep: "Scheme_New g s' = Scheme_New g s" if rec: "Recognizes g s" for g
  proof -
    obtain t where t: "sc_gvkToType s g = Some t" using rec by (auto simp: Recognizes_def)
    then have "registered g t s'" using all assms(2) by (simp add: grows_def registered_def scheme_ok_def)
    then show ?thesis using t by (simp add: Scheme_New_def registered_def)
  qed
  have again: "AddToScheme SchemeBuilder s' = Some s'"
    using known_types_again [OF api] AddToGroupVersion_again [OF group(1,3)] group(3)
    by (simp add: SchemeBuilder_def addKnownTypes_def del: list.map AddKnownTypes.simps)
  have "\<exists>gvks b. ObjectKinds (api_type ''BrokerCluster'') s' = Inr (gvks, b) \<and> BrokerClusterGVK \<in> set gvks"
    using bc by (auto simp: ObjectKinds_def registered_def split: list.split)
  then show ?thesis using ok keep bc again by (simp add: Scheme_New_def registered_def)
qed

lemma new_scheme_ok: "scheme_ok NewScheme"
  by (simp add: scheme_ok_def NewScheme_def)

text \<open>
  The scheme of the clientset, made by its package initialisation: a broker cluster has one
  kind, which is not unversioned.
\<close>

lemma clientset_scheme:
  "map_option (ObjectKinds (api_type ''BrokerCluster'')) (scheme_init NewScheme) = Some (Inr ([BrokerClusterGVK], False))"
  by code_simp

text \<open>
  The fake clientset's own scheme is the same, so its tracker files broker clusters under the
  kind the real clientset uses.
\<close>

lemma fake_scheme: "fake_scheme_init s = scheme_init s"
  unfolding fake_scheme_init_def scheme_init_def fake_AddToScheme_def fake_localSchemeBuilder_def
    localSchemeBuilder_def by (rule refl)

theorem registration_idempotent_witness:
  "\<exists>s. AddToScheme SchemeBuilder NewScheme = Some s \<and> AddToScheme SchemeBuilder s = Some s"
proof -
  have "AddToScheme SchemeBuilder NewScheme \<noteq> None" by code_simp
  then obtain s where "AddToScheme SchemeBuilder NewScheme = Some s" by blast
  then show ?thesis using registration_idempotent [OF _ new_scheme_ok] by blast
qed

end
