(* ===== verification/Broker_Controller.thy ===== *)
theory Broker_Controller
  imports Convergence Scheme_Registration
begin

text \<open>
  Making the controller (\<open>NewBrokerController\<close>): the registration of the custom resource, the
  initial state, and which handler each informer calls. The event recorder is not modelled.

  Pods and services have informers, whose stores the controller reads, but no handlers. A
  handler for updates of stateful sets asserts its arguments' type; only stateful sets come
  from that informer.
\<close>

section \<open>Construction\<close>

record 'w event_handlers =
  eh_AddFunc :: "informer_obj \<Rightarrow> 'w controller \<Rightarrow> 'w controller"
  eh_UpdateFunc :: "informer_obj \<Rightarrow> informer_obj \<Rightarrow> 'w controller \<Rightarrow> 'w controller"
  eh_DeleteFunc :: "informer_obj \<Rightarrow> 'w controller \<Rightarrow> 'w controller"

text \<open>Informers deliver to all handlers that were added to them.\<close>

definition cluster_handlers :: "time \<Rightarrow> time \<Rightarrow> 'w event_handlers" where
  "cluster_handlers bucket now =
     \<lparr>eh_AddFunc = cluster_AddFunc bucket now, eh_UpdateFunc = cluster_UpdateFunc bucket now,
      eh_DeleteFunc = cluster_DeleteFunc\<rparr>"

record 'w set_handlers =
  sh_AddFunc :: "informer_obj \<Rightarrow> 'w controller \<Rightarrow> 'w controller"
  sh_UpdateFunc :: "StatefulSet \<Rightarrow> StatefulSet \<Rightarrow> 'w controller \<Rightarrow> 'w controller"
  sh_DeleteFunc :: "informer_obj \<Rightarrow> 'w controller \<Rightarrow> 'w controller"

definition statefulset_handlers :: "time \<Rightarrow> time \<Rightarrow> 'w set_handlers" where
  "statefulset_handlers bucket now =
     \<lparr>sh_AddFunc = handleObject bucket now, sh_UpdateFunc = ss_UpdateFunc bucket now,
      sh_DeleteFunc = handleObject bucket now\<rparr>"

text \<open>
  The stores are those of the informers; the queue is new. A panic of the registration is
  \<open>None\<close>; the shared scheme is the one the kubernetes clientset keeps.
\<close>

definition NewBrokerController :: "scheme \<Rightarrow> 'w world \<Rightarrow> (scheme \<times> 'w controller) option" where
  "NewBrokerController shared informers =
     (case AddToScheme localSchemeBuilder shared of
        None \<Rightarrow> None
      | Some s \<Rightarrow> Some (s, \<lparr>c_queue = NewQueue, c_world = informers\<rparr>))"

section \<open>Events\<close>

datatype informer_event =
    ClusterAdded informer_obj
  | ClusterUpdated informer_obj informer_obj
  | ClusterDeleted informer_obj
  | SetAdded informer_obj
  | SetUpdated StatefulSet StatefulSet
  | SetDeleted informer_obj
  | PodEvent informer_obj
  | ServiceEvent informer_obj

fun deliver :: "time \<Rightarrow> time \<Rightarrow> informer_event \<Rightarrow> 'w controller \<Rightarrow> 'w controller" where
  "deliver bucket now (ClusterAdded obj) c = eh_AddFunc (cluster_handlers bucket now) obj c"
| "deliver bucket now (ClusterUpdated old new) c = eh_UpdateFunc (cluster_handlers bucket now) old new c"
| "deliver bucket now (ClusterDeleted obj) c = eh_DeleteFunc (cluster_handlers bucket now) obj c"
| "deliver bucket now (SetAdded obj) c = sh_AddFunc (statefulset_handlers bucket now) obj c"
| "deliver bucket now (SetUpdated old new) c = sh_UpdateFunc (statefulset_handlers bucket now) old new c"
| "deliver bucket now (SetDeleted obj) c = sh_DeleteFunc (statefulset_handlers bucket now) obj c"
| "deliver bucket now (PodEvent _) c = c"
| "deliver bucket now (ServiceEvent _) c = c"

section \<open>What events do\<close>

lemma deliver_step:
  assumes "deliver bucket now ev c = c'"
  shows "c' = c \<or> step cl (c, held) (c', held)"
proof (cases ev)
  case (SetUpdated old new)
  then have "c' = c \<or> c' = handleObject bucket now (ApiObject (ss_ObjectMeta new)) c"
    using assms by (auto simp: statefulset_handlers_def ss_UpdateFunc_def onClusterReady_def Let_def
        split: option.splits if_splits)
  then show ?thesis by (metis object_event)
next
  case (ClusterDeleted obj)
  then show ?thesis using assms
    by (auto simp: cluster_handlers_def cluster_DeleteFunc_def onClusterDeleted_def split: informer_obj.splits)
qed (use assms in \<open>auto simp: cluster_handlers_def statefulset_handlers_def cluster_AddFunc_def
        cluster_UpdateFunc_def intro: cluster_event object_event\<close>)

text \<open>
  C22: What the controller's event handlers do. From a new controller on, delivering an event
  leads only to states the interleavings of workers and events can reach, so that what holds
  of those holds of the controller with its handlers. While the queue is open, an added or
  updated cluster has its key waiting for its time, also on a resync, which reports the same
  object again. A resync of a stateful set, a deleted cluster, and all events of pods and
  services put nothing into the queue: a service that someone deletes is not replaced until
  another event of its cluster comes.
\<close>

theorem events_reach_queue:
  assumes new: "NewBrokerController shared informers = Some (s, c0)"
    and after: "(step cl)\<^sup>*\<^sup>* (c0, Map.empty) (c, held)"
  shows "reachable cl (deliver bucket now ev c, held) \<and>
    (case ev of
       ClusterAdded (ApiObject om) \<Rightarrow> \<not> q_shuttingDown (c_queue c) \<longrightarrow>
         q_waiting (c_queue (deliver bucket now ev c)) (KeyItem (MetaNamespaceKeyFunc om)) \<noteq> None
     | ClusterUpdated old (ApiObject om) \<Rightarrow> \<not> q_shuttingDown (c_queue c) \<longrightarrow>
         q_waiting (c_queue (deliver bucket now ev c)) (KeyItem (MetaNamespaceKeyFunc om)) \<noteq> None
     | ClusterDeleted _ \<Rightarrow> deliver bucket now ev c = c
     | SetUpdated old new' \<Rightarrow> om_ResourceVersion (ss_ObjectMeta old) = om_ResourceVersion (ss_ObjectMeta new') \<longrightarrow>
         deliver bucket now ev c = c
     | PodEvent _ \<Rightarrow> deliver bucket now ev c = c
     | ServiceEvent _ \<Rightarrow> deliver bucket now ev c = c
     | _ \<Rightarrow> True)"
proof -
  have "reachable cl (c0, Map.empty)"
    using new start by (auto simp: NewBrokerController_def split: option.splits)
  with after have "reachable cl (c, held)"
    by (induction rule: rtranclp_induct) (auto intro: advance)
  then have reach: "reachable cl (deliver bucket now ev c, held)"
    using deliver_step [of bucket now ev c _ cl held] by (metis advance)
  have waits: "q_waiting (AddRateLimited bucket now x q) x \<noteq> None" if "\<not> q_shuttingDown q" for x q
    using that by (metis AddRateLimited_waits option.distinct(1))
  show ?thesis
    by (cases ev) (use reach waits in \<open>auto simp: cluster_handlers_def statefulset_handlers_def cluster_AddFunc_def
        cluster_UpdateFunc_def cluster_DeleteFunc_def onClusterDeleted_def ss_UpdateFunc_def enqueueCluster_def
        split: informer_obj.split\<close>)
qed

theorem events_reach_queue_witness:
  "\<exists>s c. NewBrokerController NewScheme sample_world = Some (s, c) \<and>
     q_waiting (c_queue (deliver 0 0 (ClusterUpdated (ApiObject (bc_ObjectMeta sample_cluster))
       (ApiObject (bc_ObjectMeta sample_cluster))) c)) (KeyItem ''rocketmq-operator/mybrokercluster'') \<noteq> None"
proof -
  have "AddToScheme localSchemeBuilder NewScheme \<noteq> None" by code_simp
  then obtain s where new: "NewBrokerController NewScheme sample_world =
      Some (s, \<lparr>c_queue = NewQueue, c_world = sample_world\<rparr>)"
    by (auto simp: NewBrokerController_def)
  have "MetaNamespaceKeyFunc (bc_ObjectMeta sample_cluster) = ''rocketmq-operator/mybrokercluster''"
    by (simp add: MetaNamespaceKeyFunc_def)
  then show ?thesis
    using new events_reach_queue [OF new rtranclp.rtrancl_refl, of accepting_client 0 0
        "ClusterUpdated (ApiObject (bc_ObjectMeta sample_cluster)) (ApiObject (bc_ObjectMeta sample_cluster))"]
    by (simp add: NewQueue_def)
qed

end
