(* ===== verification/Operator_Options.thy ===== *)
theory Operator_Options
  imports Complex_Main Client
begin

text \<open>
  The operator's options (\<open>pkg/options/options.go\<close>), the way \<open>main\<close> builds them, and the
  resync period computed from them (\<open>cmd/rocketmq-operator\<close>).

  The file system, the YAML parser, the host name and the parser of durations are a
  parameter, \<open>host\<close>. A flag is registered with pflag's \<open>StringVar\<close> or \<open>DurationVar\<close>, which
  store the flag's default into the variable at once; \<open>flag_default\<close> is that store, and
  \<open>set_flag\<close> the one for a flag given on the command line. \<open>glog.Fatalf\<close> ends the process:
  \<open>Fatal\<close>.
\<close>

section \<open>The options\<close>

record OperatorOpts =
  KubeConfig :: string
  Master :: string
  OptNamespace :: string
  Hostname :: string
  MinResyncPeriod :: time

definition empty_opts :: OperatorOpts where
  "empty_opts = \<lparr>KubeConfig = '''', Master = '''', OptNamespace = '''', Hostname = '''', MinResyncPeriod = 0\<rparr>"

record host =
  host_Abs :: "string \<Rightarrow> go_error + string"
  host_Exists :: "string \<Rightarrow> bool"
  host_ReadFile :: "string \<Rightarrow> go_error + string"
  host_Unmarshal :: "string \<Rightarrow> OperatorOpts \<Rightarrow> go_error + OperatorOpts"
  host_Hostname :: "go_error + string"
  host_ParseDuration :: "string \<Rightarrow> go_error + time"

datatype 'a loaded = Loaded 'a | Failed go_error | Fatal string

definition twelveHours :: time where
  "twelveHours = 12 * 3600 * 10 ^ 9"

definition OperatorOpts_EnsureDefaults :: "host \<Rightarrow> OperatorOpts \<Rightarrow> OperatorOpts loaded" where
  "OperatorOpts_EnsureDefaults env s =
     (case (if Hostname s = ''''
            then (case host_Hostname env of
                    Inl err \<Rightarrow> Fatal ''Failed to get the hostname''
                  | Inr hostname \<Rightarrow> Loaded (s\<lparr>Hostname := hostname\<rparr>))
            else Loaded s) of
        Loaded s1 \<Rightarrow>
          Loaded (if MinResyncPeriod s1 \<le> 0 then s1\<lparr>MinResyncPeriod := twelveHours\<rparr> else s1)
      | r \<Rightarrow> r)"

definition quoted :: "string \<Rightarrow> string" where
  "quoted s = CHR 0x27 # s @ [CHR 0x27]"

definition NewOperatorOpts :: "host \<Rightarrow> string \<Rightarrow> OperatorOpts loaded" where
  "NewOperatorOpts env filePath =
     (case host_Abs env filePath of
        Inl err \<Rightarrow> Failed (Wrap err (''failed to determine Operator configuration absolute path: '' @ quoted filePath))
      | Inr yamlPath \<Rightarrow>
          (if host_Exists env filePath
           then
             (case host_ReadFile env yamlPath of
                Inl err \<Rightarrow> Failed (Wrap err (''failed to read Operator configuration: '' @ quoted filePath))
              | Inr yamlFile \<Rightarrow>
                  (case host_Unmarshal env yamlFile empty_opts of
                     Inl err \<Rightarrow> Failed (Wrap err (''failed to parse Operator configuration: '' @ quoted filePath))
                   | Inr config \<Rightarrow> OperatorOpts_EnsureDefaults env config))
           else OperatorOpts_EnsureDefaults env empty_opts))"

section \<open>Flags\<close>

datatype opt_flag = Flag_kubeconfig | Flag_master | Flag_namespace | Flag_min_resync_period

fun flag_name :: "opt_flag \<Rightarrow> string" where
  "flag_name Flag_kubeconfig = ''kubeconfig''"
| "flag_name Flag_master = ''master''"
| "flag_name Flag_namespace = ''namespace''"
| "flag_name Flag_min_resync_period = ''min-resync-period''"

text \<open>The default given for each flag, stored into its variable by the registration.\<close>

fun flag_default :: "opt_flag \<Rightarrow> OperatorOpts \<Rightarrow> OperatorOpts" where
  "flag_default Flag_kubeconfig s = s\<lparr>KubeConfig := KubeConfig s\<rparr>"
| "flag_default Flag_master s = s\<lparr>Master := Master s\<rparr>"
| "flag_default Flag_namespace s = s\<lparr>OptNamespace := ''''\<rparr>"
| "flag_default Flag_min_resync_period s = s\<lparr>MinResyncPeriod := MinResyncPeriod s\<rparr>"

definition AddFlags :: "OperatorOpts \<Rightarrow> OperatorOpts \<times> opt_flag list" where
  "AddFlags s =
     (let flags = [Flag_kubeconfig, Flag_master, Flag_namespace, Flag_min_resync_period]
      in (fold flag_default flags s, flags))"

fun set_flag :: "host \<Rightarrow> opt_flag \<Rightarrow> string \<Rightarrow> OperatorOpts \<Rightarrow> go_error + OperatorOpts" where
  "set_flag env Flag_kubeconfig v s = Inr (s\<lparr>KubeConfig := v\<rparr>)"
| "set_flag env Flag_master v s = Inr (s\<lparr>Master := v\<rparr>)"
| "set_flag env Flag_namespace v s = Inr (s\<lparr>OptNamespace := v\<rparr>)"
| "set_flag env Flag_min_resync_period v s =
     (case host_ParseDuration env v of Inl err \<Rightarrow> Inl err | Inr d \<Rightarrow> Inr (s\<lparr>MinResyncPeriod := d\<rparr>))"

text \<open>The command line: pairs of a registered flag and its value, applied in order.\<close>

fun parse_flags :: "host \<Rightarrow> (opt_flag \<times> string) list \<Rightarrow> OperatorOpts \<Rightarrow> go_error + OperatorOpts" where
  "parse_flags env [] s = Inr s"
| "parse_flags env ((f, v) # args) s =
     (case set_flag env f v s of Inl err \<Rightarrow> Inl err | Inr s' \<Rightarrow> parse_flags env args s')"

section \<open>Start-up\<close>

definition configPath :: string where
  "configPath = ''/etc/rocketmq-operator/operator-config.yaml''"

definition buildVersion :: string where
  "buildVersion = ''0.1''"

definition GetBuildVersion :: string where
  "GetBuildVersion = buildVersion"

text \<open>What \<open>main\<close> hands to \<open>app.Run\<close>, if it gets that far.\<close>

definition main_options :: "host \<Rightarrow> (opt_flag \<times> string) list \<Rightarrow> OperatorOpts loaded" where
  "main_options env args =
     (case NewOperatorOpts env configPath of
        Failed err \<Rightarrow> Failed err
      | Fatal m \<Rightarrow> Fatal m
      | Loaded opts \<Rightarrow>
          (case parse_flags env args (fst (AddFlags opts)) of
             Inl err \<Rightarrow> Failed err
           | Inr opts' \<Rightarrow> Loaded opts'))"

text \<open>
  \<open>rand.Float64()\<close> is a parameter \<open>r\<close> between 0 and 1; the float product is taken exactly.
\<close>

definition resyncPeriod :: "OperatorOpts \<Rightarrow> rat \<Rightarrow> time" where
  "resyncPeriod s r = (let factor = r + 1 in \<lfloor>rat_of_int (MinResyncPeriod s) * factor\<rfloor>)"

section \<open>Properties\<close>

lemma OperatorOpts_EnsureDefaults_cases:
  "OperatorOpts_EnsureDefaults env s = Loaded s' \<Longrightarrow>
     KubeConfig s' = KubeConfig s \<and> Master s' = Master s \<and> OptNamespace s' = OptNamespace s \<and>
     0 < MinResyncPeriod s' \<and> (0 < MinResyncPeriod s \<longrightarrow> MinResyncPeriod s' = MinResyncPeriod s) \<and>
     (Hostname s \<noteq> '''' \<longrightarrow> Hostname s' = Hostname s)"
  by (auto simp: OperatorOpts_EnsureDefaults_def twelveHours_def split: if_splits sum.splits)

lemma AddFlags_simps [simp]: "fst (AddFlags s) = s\<lparr>OptNamespace := ''''\<rparr>"
  by (simp add: AddFlags_def)

lemma parse_flags_unset:
  assumes "parse_flags env args s = Inr s'"
  shows "Flag_namespace \<notin> fst ` set args \<Longrightarrow> OptNamespace s' = OptNamespace s"
    and "Flag_master \<notin> fst ` set args \<Longrightarrow> Master s' = Master s"
    and "Flag_kubeconfig \<notin> fst ` set args \<Longrightarrow> KubeConfig s' = KubeConfig s"
    and "Flag_min_resync_period \<notin> fst ` set args \<Longrightarrow> MinResyncPeriod s' = MinResyncPeriod s"
  using assms
proof (induction args arbitrary: s)
  case (Cons a args)
  obtain f v where a: "a = (f, v)" by fastforce
  { case 1 with Cons(1) show ?case by (cases f) (auto simp: a split: sum.splits) }
  { case 2 with Cons(2) show ?case by (cases f) (auto simp: a split: sum.splits) }
  { case 3 with Cons(3) show ?case by (cases f) (auto simp: a split: sum.splits) }
  { case 4 with Cons(4) show ?case by (cases f) (auto simp: a split: sum.splits) }
qed simp_all

text \<open>
  The namespace of the configuration file is ignored. Whatever the file says, without a
  \<open>--namespace\<close> flag the operator runs with the empty namespace, that is, watching all
  namespaces, because registering the flag stores its constant default; the other
  settings of the file are kept unless a flag overrides them.
\<close>

theorem config_namespace_ignored:
  assumes run: "main_options env args = Loaded opts"
    and cfg: "host_Abs env configPath = Inr path" "host_Exists env configPath"
      "host_ReadFile env path = Inr text" "host_Unmarshal env text empty_opts = Inr config"
  shows "(Flag_namespace \<notin> fst ` set args \<longrightarrow> OptNamespace opts = NamespaceAll) \<and>
    (Flag_master \<notin> fst ` set args \<longrightarrow> Master opts = Master config) \<and>
    (Flag_kubeconfig \<notin> fst ` set args \<longrightarrow> KubeConfig opts = KubeConfig config)"
proof -
  obtain s where s: "OperatorOpts_EnsureDefaults env config = Loaded s"
    "parse_flags env args (s\<lparr>OptNamespace := ''''\<rparr>) = Inr opts"
    using run cfg
    by (auto simp: main_options_def NewOperatorOpts_def split: loaded.splits sum.splits)
  show ?thesis
    using parse_flags_unset [OF s(2)] OperatorOpts_EnsureDefaults_cases [OF s(1)]
    by (auto simp: NamespaceAll_def)
qed

text \<open>A host whose configuration file asks for the namespace prod.\<close>

definition sample_host :: host where
  "sample_host =
     \<lparr>host_Abs = Inr, host_Exists = (\<lambda>_. True), host_ReadFile = (\<lambda>_. Inr ''namespace: prod''),
      host_Unmarshal = (\<lambda>t s. Inr (s\<lparr>OptNamespace := ''prod'', Master := ''https://10.0.0.1''\<rparr>)),
      host_Hostname = Inr ''pod-0'',
      host_ParseDuration = (\<lambda>_. Inl (MessageError ''time: invalid duration''))\<rparr>"

theorem config_namespace_ignored_witness:
  "\<exists>opts. main_options sample_host [] = Loaded opts \<and> OptNamespace opts = NamespaceAll \<and>
     Master opts = ''https://10.0.0.1''"
proof -
  obtain opts where run: "main_options sample_host [] = Loaded opts"
    by (simp add: main_options_def NewOperatorOpts_def sample_host_def OperatorOpts_EnsureDefaults_def
        empty_opts_def)
  have "host_Abs sample_host configPath = Inr configPath" "host_Exists sample_host configPath"
    "host_ReadFile sample_host configPath = Inr ''namespace: prod''"
    "host_Unmarshal sample_host ''namespace: prod'' empty_opts =
       Inr (empty_opts\<lparr>OptNamespace := ''prod'', Master := ''https://10.0.0.1''\<rparr>)"
    by (simp_all add: sample_host_def)
  from config_namespace_ignored [OF run this] run show ?thesis by simp
qed

lemma resyncPeriod_range:
  assumes m: "0 < MinResyncPeriod opts" and r: "0 \<le> r" "r < 1"
  shows "MinResyncPeriod opts \<le> resyncPeriod opts r" "resyncPeriod opts r < 2 * MinResyncPeriod opts"
proof -
  let ?m = "rat_of_int (MinResyncPeriod opts)"
  have "?m \<le> ?m * (r + 1)" using m r(1) by (simp add: algebra_simps)
  then show "MinResyncPeriod opts \<le> resyncPeriod opts r" by (simp add: resyncPeriod_def Let_def le_floor_iff)
  have "?m * (r + 1) < ?m * 2" using m r(2) by (intro mult_strict_left_mono) auto
  then show "resyncPeriod opts r < 2 * MinResyncPeriod opts"
    by (simp add: resyncPeriod_def Let_def floor_less_iff algebra_simps)
qed

text \<open>
  Options loaded from a file or by default always have a positive resync period, so the
  period computed from them lies between that minimum and twice it, and is positive.
\<close>

theorem resync_period_range:
  assumes "NewOperatorOpts env path = Loaded opts" "0 \<le> r" "r < 1"
  shows "0 < MinResyncPeriod opts \<and> MinResyncPeriod opts \<le> resyncPeriod opts r \<and>
    resyncPeriod opts r < 2 * MinResyncPeriod opts"
proof -
  obtain s where "OperatorOpts_EnsureDefaults env s = Loaded opts"
    using assms(1) by (auto simp: NewOperatorOpts_def split: sum.splits if_splits)
  then have m: "0 < MinResyncPeriod opts" using OperatorOpts_EnsureDefaults_cases by blast
  then show ?thesis using resyncPeriod_range [OF m assms(2,3)] by simp
qed

theorem resync_period_range_witness:
  "\<exists>opts. NewOperatorOpts sample_host configPath = Loaded opts \<and>
     twelveHours \<le> resyncPeriod opts (1 / 2) \<and> resyncPeriod opts (1 / 2) < 2 * twelveHours"
proof -
  obtain opts where opts: "NewOperatorOpts sample_host configPath = Loaded opts"
    and "MinResyncPeriod opts = twelveHours"
    by (simp add: NewOperatorOpts_def sample_host_def OperatorOpts_EnsureDefaults_def empty_opts_def)
  then show ?thesis using resync_period_range [OF opts, of "1 / 2"] by auto
qed

end
