(* ===== verification/Go_Path.thy ===== *)
theory Go_Path
  imports Go_Text
begin

text \<open>
  Go's \<open>path\<close> package, as far as request paths are made with it: \<open>path.Clean\<close> and
  \<open>path.Join\<close>, on the elements between slashes. For elements that are valid segments
  (\<open>valid_segment\<close>) joining is concatenation (\<open>path_Join_valid\<close>), and the path determines
  its segments (\<open>abs_path_inj\<close>).
\<close>

section \<open>Clean and Join\<close>

fun join :: "char \<Rightarrow> string list \<Rightarrow> string" where
  "join sep [] = []"
| "join sep [s] = s"
| "join sep (s # t # ss) = s @ sep # join sep (t # ss)"

text \<open>
  \<open>out\<close> holds the elements kept so far, last one first. Empty elements and dots vanish; a
  double dot removes the element before it, and at the root of a rooted path it vanishes.
\<close>

fun clean_elements :: "bool \<Rightarrow> string list \<Rightarrow> string list \<Rightarrow> string list" where
  "clean_elements rooted out [] = rev out"
| "clean_elements rooted out (s # ss) =
     (if s = '''' \<or> s = ''.'' then clean_elements rooted out ss
      else if s = ''..'' then
        (case out of
           [] \<Rightarrow> clean_elements rooted (if rooted then [] else [s]) ss
         | t # ts \<Rightarrow> if t = ''..'' then clean_elements rooted (s # out) ss
                     else clean_elements rooted ts ss)
      else clean_elements rooted (s # out) ss)"

definition path_Clean :: "string \<Rightarrow> string" where
  "path_Clean p =
     (if p = '''' then ''.''
      else
        (let rooted = (hd p = CHR ''/'');
             es = clean_elements rooted [] (split_at (CHR ''/'') p)
         in if rooted then CHR ''/'' # join (CHR ''/'') es
            else if es = [] then ''.'' else join (CHR ''/'') es))"

text \<open>Leading empty elements are skipped; without any other the result is empty.\<close>

definition path_Join :: "string list \<Rightarrow> string" where
  "path_Join elem =
     (case dropWhile (\<lambda>e. e = '''') elem of
        [] \<Rightarrow> ''''
      | es \<Rightarrow> path_Clean (join (CHR ''/'') es))"

section \<open>Paths of valid segments\<close>

definition valid_segment :: "string \<Rightarrow> bool" where
  "valid_segment s \<longleftrightarrow> s \<noteq> '''' \<and> CHR ''/'' \<notin> set s \<and> s \<noteq> ''.'' \<and> s \<noteq> ''..''"

definition abs_path :: "string list \<Rightarrow> string" where
  "abs_path ss = CHR ''/'' # join (CHR ''/'') ss"

lemma split_at_sep: "split_at sep (a @ sep # b) = split_at sep a @ split_at sep b"
proof (induction a)
  case (Cons c a)
  then show ?case by (cases "split_at sep a") auto
qed simp

lemma split_at_join: "ss \<noteq> [] \<Longrightarrow> split_at sep (join sep ss) = concat (map (split_at sep) ss)"
  by (induction sep ss rule: join.induct) (simp_all add: split_at_sep)

lemma split_at_join_valid:
  assumes "ss \<noteq> []" "\<forall>s \<in> set ss. sep \<notin> set s"
  shows "split_at sep (join sep ss) = ss"
proof -
  have "concat (map (split_at sep) ss) = ss" using assms(2)
    by (induction ss) (auto simp: split_at_none)
  then show ?thesis using assms(1) by (simp add: split_at_join)
qed

lemma clean_valid:
  assumes "\<forall>s \<in> set ss. s = '''' \<or> valid_segment s"
  shows "clean_elements rooted out ss = rev out @ filter (\<lambda>s. s \<noteq> '''') ss"
  using assms by (induction ss arbitrary: out) (auto simp: valid_segment_def)

lemma split_abs_path:
  assumes "\<forall>s \<in> set ss. valid_segment s"
  shows "filter (\<lambda>s. s \<noteq> '''') (split_at (CHR ''/'') (abs_path ss)) = ss \<and>
    (\<forall>s \<in> set (split_at (CHR ''/'') (abs_path ss)). s = '''' \<or> valid_segment s)"
proof (cases ss)
  case Nil
  then show ?thesis by (simp add: abs_path_def)
next
  case (Cons s ss')
  then have "split_at (CHR ''/'') (join (CHR ''/'') ss) = ss"
    using assms by (intro split_at_join_valid) (auto simp: valid_segment_def)
  moreover have "filter (\<lambda>s. s \<noteq> '''') ss = ss" using assms by (simp add: filter_id_conv valid_segment_def)
  ultimately show ?thesis using assms by (simp add: abs_path_def)
qed

lemma join_Cons: "join sep (s # ss) = s @ (if ss = [] then [] else sep # join sep ss)"
  by (cases ss) simp_all

lemma valid_segmentD: "valid_segment s \<Longrightarrow> CHR ''/'' \<notin> set s \<and> s \<noteq> []"
  by (simp add: valid_segment_def)

text \<open>The segments of a piece of a path, and pieces all of whose elements are valid or empty.\<close>

definition segments :: "string \<Rightarrow> string list" where
  "segments p = filter (\<lambda>s. s \<noteq> []) (split_at (CHR ''/'') p)"

definition plain_path :: "string \<Rightarrow> bool" where
  "plain_path p \<longleftrightarrow> (\<forall>s \<in> set (split_at (CHR ''/'') p). s = [] \<or> valid_segment s)"

lemma plain_abs_path:
  assumes "\<forall>s \<in> set ss. valid_segment s"
  shows "plain_path (abs_path ss)" "segments (abs_path ss) = ss"
  using split_abs_path [OF assms] by (simp_all add: plain_path_def segments_def)

lemma plain_segment:
  assumes "e = [] \<or> valid_segment e"
  shows "plain_path e" "segments e = (if e = [] then [] else [e])"
proof -
  have "CHR ''/'' \<notin> set e" using assms valid_segmentD by fastforce
  then have "split_at (CHR ''/'') e = [e]" by (rule split_at_none)
  then show "plain_path e" "segments e = (if e = [] then [] else [e])"
    using assms by (simp_all add: plain_path_def segments_def)
qed

lemma path_Join_rooted:
  assumes p: "p \<noteq> []" "hd p = CHR ''/''" and plain: "\<forall>e \<in> set (p # es). plain_path e"
  shows "path_Join (p # es) = abs_path (concat (map segments (p # es)))"
proof -
  let ?sp = "split_at (CHR ''/'')"
  define j where "j = join (CHR ''/'') (p # es)"
  have j: "j \<noteq> []" "hd j = CHR ''/''" using p by (simp_all add: j_def join_Cons)
  have el: "?sp j = concat (map ?sp (p # es))" unfolding j_def by (rule split_at_join) simp
  have "\<forall>s \<in> set (concat (map ?sp (p # es))). s = [] \<or> valid_segment s"
    using plain by (auto simp: plain_path_def)
  then have "clean_elements True [] (?sp j) = filter (\<lambda>s. s \<noteq> []) (concat (map ?sp (p # es)))"
    unfolding el by (simp only: clean_valid rev.simps append_Nil)
  also have "\<dots> = concat (map segments (p # es))"
    unfolding segments_def [abs_def] by (simp only: filter_concat map_map o_def)
  finally have "path_Clean j = abs_path (concat (map segments (p # es)))"
    using j by (simp add: path_Clean_def abs_path_def)
  moreover have "dropWhile (\<lambda>e. e = []) (p # es) = p # es" using p by simp
  ultimately show ?thesis unfolding path_Join_def by (simp add: j_def)
qed

text \<open>Joining segments to a path of segments; empty elements vanish.\<close>

lemma path_Join_valid:
  assumes ss: "\<forall>s \<in> set ss. valid_segment s" and es: "\<forall>e \<in> set es. e = [] \<or> valid_segment e"
  shows "path_Join (abs_path ss # es) = abs_path (ss @ filter (\<lambda>e. e \<noteq> []) es)"
proof -
  have "concat (map segments es) = filter (\<lambda>e. e \<noteq> []) es"
    using es by (induction es) (simp_all add: plain_segment(2))
  moreover have "\<forall>e \<in> set (abs_path ss # es). plain_path e"
    using es plain_segment(1) plain_abs_path(1) [OF ss] by auto
  moreover have "abs_path ss \<noteq> []" "hd (abs_path ss) = CHR ''/''" by (simp_all add: abs_path_def)
  ultimately show ?thesis using path_Join_rooted [of "abs_path ss" es] plain_abs_path(2) [OF ss] by simp
qed

lemma abs_path_inj:
  assumes "\<forall>s \<in> set ss. valid_segment s" "\<forall>s \<in> set ts. valid_segment s"
  shows "abs_path ss = abs_path ts \<longleftrightarrow> ss = ts"
  using split_abs_path [OF assms(1)] split_abs_path [OF assms(2)] by metis

end
