(* ===== verification/Rest_Request.thy ===== *)
theory Rest_Request
  imports Go_Path K8s_Meta
begin

text \<open>
  The request builder of client-go (\<open>rest/request.go\<close>, \<open>rest/client.go\<close>) that the generated
  clientset chains: setters that record the first error, the URL made of the recorded
  parts, and the checks before anything is sent.

  What happens between the built request and the decoded answer is a parameter: the
  transport (\<open>'w \<Rightarrow> http_request \<Rightarrow> 'w \<times> (go_error + string)\<close>) stands for the HTTP exchange
  with its resends on Retry-After, and encodings are functions of the caller. Throttling,
  backoff, timeouts and headers other than the content type are not modelled. In error
  messages \<open>%q\<close> is the text between quotes.
\<close>

section \<open>State\<close>

record RESTClient =
  rc_base :: string
  rc_versionedAPIPath :: string
  rc_ContentType :: string

record request =
  rq_verb :: string
  rq_pathPrefix :: string
  rq_subpath :: string
  rq_params :: "string \<rightharpoonup> string list"
  rq_header_ContentType :: "string option"
  rq_namespace :: string
  rq_namespaceSet :: bool
  rq_resource :: string
  rq_resourceName :: string
  rq_subresource :: string
  rq_contentType :: string
  rq_err :: "go_error option"
  rq_body :: "string option"

definition NewRequest :: "string \<Rightarrow> string \<Rightarrow> string \<Rightarrow> string \<Rightarrow> request" where
  "NewRequest verb basePath versionedAPIPath contentType =
     \<lparr>rq_verb = verb, rq_pathPrefix = path_Join [path_Join [''/'', basePath], versionedAPIPath],
      rq_subpath = '''', rq_params = Map.empty, rq_header_ContentType = None, rq_namespace = '''',
      rq_namespaceSet = False, rq_resource = '''', rq_resourceName = '''', rq_subresource = '''',
      rq_contentType = contentType, rq_err = None, rq_body = None\<rparr>"

definition Verb :: "RESTClient \<Rightarrow> string \<Rightarrow> request" where
  "Verb c verb = NewRequest verb (rc_base c) (rc_versionedAPIPath c) (rc_ContentType c)"

definition RC_Post :: "RESTClient \<Rightarrow> request" where "RC_Post c = Verb c ''POST''"
definition RC_Put :: "RESTClient \<Rightarrow> request" where "RC_Put c = Verb c ''PUT''"
definition RC_Get :: "RESTClient \<Rightarrow> request" where "RC_Get c = Verb c ''GET''"
definition RC_Delete :: "RESTClient \<Rightarrow> request" where "RC_Delete c = Verb c ''DELETE''"

definition RC_Patch :: "RESTClient \<Rightarrow> string \<Rightarrow> request" where
  "RC_Patch c pt = (Verb c ''PATCH'')\<lparr>rq_header_ContentType := Some pt\<rparr>"

section \<open>Setters\<close>

definition quoted :: "string \<Rightarrow> string" where
  "quoted s = CHR 0x22 # s @ [CHR 0x22]"

text \<open>The printed form of a list of strings (\<open>%v\<close>).\<close>

definition fmt_strings :: "string list \<Rightarrow> string" where
  "fmt_strings ss = ''['' @ join (CHR '' '') ss @ '']''"

definition IsValidPathSegmentName :: "string \<Rightarrow> string list" where
  "IsValidPathSegmentName name =
     (if name = ''.'' \<or> name = ''..'' then [''may not be '' @ CHR 0x27 # name @ [CHR 0x27]]
      else (if CHR ''/'' \<in> set name then [''may not contain '' @ CHR 0x27 # ''/'' @ [CHR 0x27]] else []) @
           (if CHR ''%'' \<in> set name then [''may not contain '' @ CHR 0x27 # ''%'' @ [CHR 0x27]] else []))"

text \<open>Every setter first returns a request that already has an error as it is.\<close>

definition fail :: "string \<Rightarrow> request \<Rightarrow> request" where
  "fail msg r = r\<lparr>rq_err := Some (MessageError msg)\<rparr>"

definition Request_Resource :: "string \<Rightarrow> request \<Rightarrow> request" where
  "Request_Resource resource r =
     (if rq_err r \<noteq> None then r
      else if rq_resource r \<noteq> '''' then
        fail (''resource already set to '' @ quoted (rq_resource r) @ '', cannot change to '' @ quoted resource) r
      else if IsValidPathSegmentName resource \<noteq> [] then
        fail (''invalid resource '' @ quoted resource @ '': '' @ fmt_strings (IsValidPathSegmentName resource)) r
      else r\<lparr>rq_resource := resource\<rparr>)"

text \<open>The first invalid subresource is the one reported.\<close>

definition Request_SubResource :: "string list \<Rightarrow> request \<Rightarrow> request" where
  "Request_SubResource subresources r =
     (if rq_err r \<noteq> None then r
      else if rq_subresource r \<noteq> '''' then
        fail (''subresource already set to '' @ quoted (rq_resource r) @ '', cannot change to '' @
          quoted (path_Join subresources)) r
      else case find (\<lambda>s. IsValidPathSegmentName s \<noteq> []) subresources of
             Some s \<Rightarrow> fail (''invalid subresource '' @ quoted s @ '': '' @ fmt_strings (IsValidPathSegmentName s)) r
           | None \<Rightarrow> r\<lparr>rq_subresource := path_Join subresources\<rparr>)"

definition Request_Name :: "string \<Rightarrow> request \<Rightarrow> request" where
  "Request_Name resourceName r =
     (if rq_err r \<noteq> None then r
      else if resourceName = '''' then fail ''resource name may not be empty'' r
      else if rq_resourceName r \<noteq> '''' then
        fail (''resource name already set to '' @ quoted (rq_resourceName r) @ '', cannot change to '' @
          quoted resourceName) r
      else if IsValidPathSegmentName resourceName \<noteq> [] then
        fail (''invalid resource name '' @ quoted resourceName @ '': '' @
          fmt_strings (IsValidPathSegmentName resourceName)) r
      else r\<lparr>rq_resourceName := resourceName\<rparr>)"

definition Request_Namespace :: "string \<Rightarrow> request \<Rightarrow> request" where
  "Request_Namespace namespace r =
     (if rq_err r \<noteq> None then r
      else if rq_namespaceSet r then
        fail (''namespace already set to '' @ quoted (rq_namespace r) @ '', cannot change to '' @ quoted namespace) r
      else if IsValidPathSegmentName namespace \<noteq> [] then
        fail (''invalid namespace '' @ quoted namespace @ '': '' @ fmt_strings (IsValidPathSegmentName namespace)) r
      else r\<lparr>rq_namespaceSet := True, rq_namespace := namespace\<rparr>)"

text \<open>\<open>params\<close> is what the parameter codec makes of the options object.\<close>

definition Request_VersionedParams :: "go_error + (string \<rightharpoonup> string list) \<Rightarrow> request \<Rightarrow> request" where
  "Request_VersionedParams params r =
     (if rq_err r \<noteq> None then r
      else case params of
             Inl err \<Rightarrow> r\<lparr>rq_err := Some err\<rparr>
           | Inr ps \<Rightarrow>
               r\<lparr>rq_params := (\<lambda>k. case ps k of
                     None \<Rightarrow> rq_params r k
                   | Some v \<Rightarrow> Some (case rq_params r k of None \<Rightarrow> v | Some u \<Rightarrow> u @ v))\<rparr>)"

text \<open>
  \<open>Body\<close> of an object: nothing for a nil pointer, else its encoding with the client's
  content type; \<open>Body\<close> of bytes sends them as they are.
\<close>

definition Request_Body :: "(go_error + string) option \<Rightarrow> request \<Rightarrow> request" where
  "Request_Body encoded r =
     (if rq_err r \<noteq> None then r
      else case encoded of
             None \<Rightarrow> r
           | Some (Inl err) \<Rightarrow> r\<lparr>rq_err := Some err\<rparr>
           | Some (Inr data) \<Rightarrow> r\<lparr>rq_body := Some data, rq_header_ContentType := Some (rq_contentType r)\<rparr>)"

definition Request_Body_bytes :: "string \<Rightarrow> request \<Rightarrow> request" where
  "Request_Body_bytes data r = (if rq_err r \<noteq> None then r else r\<lparr>rq_body := Some data\<rparr>)"

section \<open>The URL and the exchange\<close>

definition to_lower :: "char \<Rightarrow> char" where
  "to_lower c = (let n = of_char c :: nat in if 65 \<le> n \<and> n \<le> 90 then char_of (n + 32) else c)"

definition Request_URL :: "request \<Rightarrow> string" where
  "Request_URL r =
     (let p0 = rq_pathPrefix r;
          p1 = (if rq_namespaceSet r \<and> rq_namespace r \<noteq> '''' then path_Join [p0, ''namespaces'', rq_namespace r] else p0);
          p2 = (if rq_resource r \<noteq> '''' then path_Join [p1, map to_lower (rq_resource r)] else p1)
      in if rq_resourceName r \<noteq> '''' \<or> rq_subpath r \<noteq> '''' \<or> rq_subresource r \<noteq> ''''
         then path_Join [p2, rq_resourceName r, rq_subresource r, rq_subpath r] else p2)"

record http_request =
  hq_verb :: string
  hq_path :: string
  hq_query :: "string \<rightharpoonup> string list"
  hq_ContentType :: "string option"
  hq_body :: "string option"

type_synonym 'w transport = "'w \<Rightarrow> http_request \<Rightarrow> 'w \<times> (go_error + string)"

definition http_of :: "request \<Rightarrow> http_request" where
  "http_of r = \<lparr>hq_verb = rq_verb r, hq_path = Request_URL r, hq_query = rq_params r,
     hq_ContentType = rq_header_ContentType r, hq_body = rq_body r\<rparr>"

text \<open>The checks \<open>request\<close> makes before sending.\<close>

definition request_check :: "request \<Rightarrow> go_error option" where
  "request_check r =
     (if rq_err r \<noteq> None then rq_err r
      else if (rq_verb r = ''GET'' \<or> rq_verb r = ''PUT'' \<or> rq_verb r = ''DELETE'') \<and> rq_namespaceSet r \<and>
              rq_resourceName r \<noteq> '''' \<and> rq_namespace r = '''' then
        Some (MessageError ''an empty namespace may not be set when a resource name is provided'')
      else if rq_verb r = ''POST'' \<and> rq_namespaceSet r \<and> rq_namespace r = '''' then
        Some (MessageError ''an empty namespace may not be set during creation'')
      else None)"

definition Request_Do :: "'w transport \<Rightarrow> request \<Rightarrow> 'w \<Rightarrow> 'w \<times> (go_error + string)" where
  "Request_Do tr r w =
     (case request_check r of Some err \<Rightarrow> (w, Inl err) | None \<Rightarrow> tr w (http_of r))"

text \<open>\<open>Watch\<close> sends without those checks; the answer is the stream.\<close>

definition Request_Watch :: "'w transport \<Rightarrow> request \<Rightarrow> 'w \<Rightarrow> 'w \<times> (go_error + string)" where
  "Request_Watch tr r w =
     (case rq_err r of Some err \<Rightarrow> (w, Inl err) | None \<Rightarrow> tr w (http_of r))"

definition Into :: "(string \<Rightarrow> go_error + 'r) \<Rightarrow> go_error + string \<Rightarrow> go_error + 'r" where
  "Into decode result =
     (case result of
        Inl err \<Rightarrow> Inl err
      | Inr body \<Rightarrow> if body = '''' then Inl (MessageError ''0-length response'') else decode body)"

section \<open>What the setters leave\<close>

lemma valid_name_segment:
  "IsValidPathSegmentName s = [] \<Longrightarrow> s \<noteq> '''' \<Longrightarrow> valid_segment s"
  by (auto simp: IsValidPathSegmentName_def valid_segment_def split: if_splits)

text \<open>The error of a request stays, whatever is called afterwards.\<close>

lemma setters_keep_error:
  assumes "rq_err r \<noteq> None"
  shows "Request_Resource s r = r" "Request_SubResource ss r = r" "Request_Name s r = r"
    "Request_Namespace s r = r" "Request_VersionedParams ps r = r" "Request_Body b r = r"
    "Request_Body_bytes s r = r" "Request_Do tr r w = (w, Inl (the (rq_err r)))"
    "Request_Watch tr r w = (w, Inl (the (rq_err r)))"
  using assms
  by (auto simp: Request_Resource_def Request_SubResource_def Request_Name_def Request_Namespace_def
      Request_VersionedParams_def Request_Body_def Request_Body_bytes_def Request_Do_def request_check_def
      Request_Watch_def)

lemma fail_err [simp]: "rq_err (fail msg r) = Some (MessageError msg)"
  by (simp add: fail_def)

text \<open>The URL of a request whose prefix is a path and whose parts are valid.\<close>

lemma Request_URL_parts:
  assumes "rq_pathPrefix r = abs_path ss" "\<forall>s \<in> set ss. valid_segment s"
    and "rq_namespaceSet r \<Longrightarrow> rq_namespace r = '''' \<or> valid_segment (rq_namespace r)"
    and "valid_segment (map to_lower (rq_resource r))"
    and "rq_resourceName r = '''' \<or> valid_segment (rq_resourceName r)"
    and "rq_subresource r = '''' \<or> valid_segment (rq_subresource r)" "rq_subpath r = ''''"
  shows "Request_URL r = abs_path (ss @
      (if rq_namespaceSet r \<and> rq_namespace r \<noteq> '''' then [''namespaces'', rq_namespace r] else []) @
      map to_lower (rq_resource r) # filter (\<lambda>s. s \<noteq> '''') [rq_resourceName r, rq_subresource r])"
proof -
  let ?ns = "if rq_namespaceSet r \<and> rq_namespace r \<noteq> '''' then [''namespaces'', rq_namespace r] else []"
  have names: "valid_segment ''namespaces''" by (simp add: valid_segment_def)
  define p1 where "p1 = ss @ ?ns"
  have v1: "\<forall>s \<in> set p1. valid_segment s" using assms(2,3) names by (auto simp: p1_def)
  have e1: "(if rq_namespaceSet r \<and> rq_namespace r \<noteq> '''' then path_Join [abs_path ss, ''namespaces'', rq_namespace r]
      else abs_path ss) = abs_path p1"
    using path_Join_valid [OF assms(2), of "[''namespaces'', rq_namespace r]"] assms(3) names
    by (auto simp: p1_def)
  define p2 where "p2 = p1 @ [map to_lower (rq_resource r)]"
  have v2: "\<forall>s \<in> set p2. valid_segment s" using v1 assms(4) by (auto simp: p2_def)
  have res: "rq_resource r \<noteq> ''''" using assms(4) by (auto simp: valid_segment_def)
  have e2: "path_Join [abs_path p1, map to_lower (rq_resource r)] = abs_path p2"
    using path_Join_valid [OF v1, of "[map to_lower (rq_resource r)]"] assms(4) valid_segmentD [OF assms(4)]
    by (simp add: p2_def)
  have e3: "path_Join [abs_path p2, rq_resourceName r, rq_subresource r, rq_subpath r] =
      abs_path (p2 @ filter (\<lambda>s. s \<noteq> '''') [rq_resourceName r, rq_subresource r])"
    using path_Join_valid [OF v2, of "[rq_resourceName r, rq_subresource r, rq_subpath r]"] assms(5-7) by simp
  show ?thesis
    unfolding Request_URL_def Let_def assms(1) e1 using res e2 e3 assms(7) by (simp add: p1_def p2_def)
qed

end
