(* ===== verification/Clientset.thy ===== *)
theory Clientset
  imports Complex_Main Rest_Request Client
begin

text \<open>
  The generated clientset (\<open>pkg/generated/clientset/versioned\<close>): the typed client of broker
  clusters, which turns its eight verbs into requests, and the constructors that make the
  clients from a configuration.

  The encodings of clusters and options and the construction of REST clients
  (\<open>rest.RESTClientFor\<close>, the discovery client) are parameters. An operation returns an
  error or the decoded answer; the empty object Go returns beside an error is left out.
\<close>

section \<open>Options and encodings\<close>

record GetOptions =
  go_ResourceVersion :: string
  go_IncludeUninitialized :: bool

record ListOptions =
  lo_LabelSelector :: string
  lo_FieldSelector :: string
  lo_IncludeUninitialized :: bool
  lo_Watch :: bool
  lo_ResourceVersion :: string
  lo_TimeoutSeconds :: "int option"
  lo_Limit :: int
  lo_Continue :: string

record DeleteOptions =
  do_GracePeriodSeconds :: "int option"
  do_OrphanDependents :: "bool option"
  do_PropagationPolicy :: "string option"

record codec =
  co_GetOptions :: "GetOptions \<Rightarrow> go_error + (string \<rightharpoonup> string list)"
  co_ListOptions :: "ListOptions \<Rightarrow> go_error + (string \<rightharpoonup> string list)"
  co_DeleteOptions :: "DeleteOptions \<Rightarrow> go_error + string"
  co_Cluster :: "cluster_val \<Rightarrow> go_error + string"
  co_DecodeCluster :: "string \<Rightarrow> go_error + cluster_val"
  co_DecodeList :: "string \<Rightarrow> go_error + cluster_val BrokerClusterList"

section \<open>The typed client\<close>

record brokerClusters =
  bcs_client :: RESTClient
  bcs_ns :: string

definition newBrokerClusters :: "RESTClient \<Rightarrow> string \<Rightarrow> brokerClusters" where
  "newBrokerClusters rest namespace = \<lparr>bcs_client = rest, bcs_ns = namespace\<rparr>"

definition Clusters_Get :: "codec \<Rightarrow> 'w transport \<Rightarrow> brokerClusters \<Rightarrow> string \<Rightarrow> GetOptions \<Rightarrow> 'w
    \<Rightarrow> 'w \<times> (go_error + cluster_val)" where
  "Clusters_Get co tr c name options w =
     (let r0 = RC_Get (bcs_client c);
          r1 = Request_Namespace (bcs_ns c) r0;
          r2 = Request_Resource ''brokerclusters'' r1;
          r3 = Request_Name name r2;
          r4 = Request_VersionedParams (co_GetOptions co options) r3
      in case Request_Do tr r4 w of (w', result) \<Rightarrow> (w', Into (co_DecodeCluster co) result))"

definition Clusters_List :: "codec \<Rightarrow> 'w transport \<Rightarrow> brokerClusters \<Rightarrow> ListOptions \<Rightarrow> 'w
    \<Rightarrow> 'w \<times> (go_error + cluster_val BrokerClusterList)" where
  "Clusters_List co tr c opts w =
     (let r0 = RC_Get (bcs_client c);
          r1 = Request_Namespace (bcs_ns c) r0;
          r2 = Request_Resource ''brokerclusters'' r1;
          r3 = Request_VersionedParams (co_ListOptions co opts) r2
      in case Request_Do tr r3 w of (w', result) \<Rightarrow> (w', Into (co_DecodeList co) result))"

text \<open>The options are passed by value: setting \<open>Watch\<close> is not seen by the caller.\<close>

definition Clusters_Watch :: "codec \<Rightarrow> 'w transport \<Rightarrow> brokerClusters \<Rightarrow> ListOptions \<Rightarrow> 'w
    \<Rightarrow> 'w \<times> (go_error + string)" where
  "Clusters_Watch co tr c opts w =
     (let opts1 = opts\<lparr>lo_Watch := True\<rparr>;
          r0 = RC_Get (bcs_client c);
          r1 = Request_Namespace (bcs_ns c) r0;
          r2 = Request_Resource ''brokerclusters'' r1;
          r3 = Request_VersionedParams (co_ListOptions co opts1) r2
      in Request_Watch tr r3 w)"

definition Clusters_Create :: "codec \<Rightarrow> 'w transport \<Rightarrow> brokerClusters \<Rightarrow> cluster_val \<Rightarrow> 'w
    \<Rightarrow> 'w \<times> (go_error + cluster_val)" where
  "Clusters_Create co tr c brokerCluster w =
     (let r0 = RC_Post (bcs_client c);
          r1 = Request_Namespace (bcs_ns c) r0;
          r2 = Request_Resource ''brokerclusters'' r1;
          r3 = Request_Body (Some (co_Cluster co brokerCluster)) r2
      in case Request_Do tr r3 w of (w', result) \<Rightarrow> (w', Into (co_DecodeCluster co) result))"

definition Clusters_Update :: "codec \<Rightarrow> 'w transport \<Rightarrow> brokerClusters \<Rightarrow> cluster_val \<Rightarrow> 'w
    \<Rightarrow> 'w \<times> (go_error + cluster_val)" where
  "Clusters_Update co tr c brokerCluster w =
     (let r0 = RC_Put (bcs_client c);
          r1 = Request_Namespace (bcs_ns c) r0;
          r2 = Request_Resource ''brokerclusters'' r1;
          r3 = Request_Name (om_Name (bc_ObjectMeta brokerCluster)) r2;
          r4 = Request_Body (Some (co_Cluster co brokerCluster)) r3
      in case Request_Do tr r4 w of (w', result) \<Rightarrow> (w', Into (co_DecodeCluster co) result))"

text \<open>\<open>Do().Error()\<close> is the error of the exchange; the body of the answer is not decoded.\<close>

definition Clusters_Delete :: "codec \<Rightarrow> 'w transport \<Rightarrow> brokerClusters \<Rightarrow> string \<Rightarrow> DeleteOptions option \<Rightarrow> 'w
    \<Rightarrow> 'w \<times> go_error option" where
  "Clusters_Delete co tr c name options w =
     (let r0 = RC_Delete (bcs_client c);
          r1 = Request_Namespace (bcs_ns c) r0;
          r2 = Request_Resource ''brokerclusters'' r1;
          r3 = Request_Name name r2;
          r4 = Request_Body (map_option (co_DeleteOptions co) options) r3
      in case Request_Do tr r4 w of (w', result) \<Rightarrow> (w', err_of result))"

definition Clusters_DeleteCollection :: "codec \<Rightarrow> 'w transport \<Rightarrow> brokerClusters \<Rightarrow> DeleteOptions option
    \<Rightarrow> ListOptions \<Rightarrow> 'w \<Rightarrow> 'w \<times> go_error option" where
  "Clusters_DeleteCollection co tr c options listOptions w =
     (let r0 = RC_Delete (bcs_client c);
          r1 = Request_Namespace (bcs_ns c) r0;
          r2 = Request_Resource ''brokerclusters'' r1;
          r3 = Request_VersionedParams (co_ListOptions co listOptions) r2;
          r4 = Request_Body (map_option (co_DeleteOptions co) options) r3
      in case Request_Do tr r4 w of (w', result) \<Rightarrow> (w', err_of result))"

definition Clusters_Patch :: "codec \<Rightarrow> 'w transport \<Rightarrow> brokerClusters \<Rightarrow> string \<Rightarrow> string \<Rightarrow> string
    \<Rightarrow> string list \<Rightarrow> 'w \<Rightarrow> 'w \<times> (go_error + cluster_val)" where
  "Clusters_Patch co tr c name pt data subresources w =
     (let r0 = RC_Patch (bcs_client c) pt;
          r1 = Request_Namespace (bcs_ns c) r0;
          r2 = Request_Resource ''brokerclusters'' r1;
          r3 = Request_SubResource subresources r2;
          r4 = Request_Name name r3;
          r5 = Request_Body_bytes data r4
      in case Request_Do tr r5 w of (w', result) \<Rightarrow> (w', Into (co_DecodeCluster co) result))"

section \<open>Constructors\<close>

text \<open>
  The parts of \<open>rest.Config\<close> the constructors look at or set; \<open>cfg_Rest\<close> is the rest (host,
  credentials). A rate limiter is a token bucket of a rate and a burst.
\<close>

record RateLimiter =
  tb_QPS :: real
  tb_Burst :: int

record Config =
  cfg_Rest :: string
  cfg_APIPath :: string
  cfg_GroupVersion :: "GroupVersion option"
  cfg_NegotiatedSerializer :: "string option"
  cfg_UserAgent :: string
  cfg_QPS :: real
  cfg_Burst :: int
  cfg_RateLimiter :: "RateLimiter option"

record rest_env =
  env_RESTClientFor :: "Config \<Rightarrow> go_error + RESTClient"
  env_NewDiscoveryClientForConfig :: "Config \<Rightarrow> go_error + RESTClient"
  env_DefaultKubernetesUserAgent :: string

definition setConfigDefaults :: "rest_env \<Rightarrow> Config \<Rightarrow> Config" where
  "setConfigDefaults env config =
     (let c = config\<lparr>cfg_GroupVersion := Some SchemeGroupVersion, cfg_APIPath := ''/apis'',
                     cfg_NegotiatedSerializer := Some ''DirectCodecFactory''\<rparr>
      in if cfg_UserAgent c = '''' then c\<lparr>cfg_UserAgent := env_DefaultKubernetesUserAgent env\<rparr> else c)"

text \<open>A client is its REST client; a nil client is \<open>None\<close>.\<close>

definition ROCKETMQ_New :: "RESTClient \<Rightarrow> RESTClient" where
  "ROCKETMQ_New c = c"

definition ROCKETMQ_NewForConfig :: "rest_env \<Rightarrow> Config \<Rightarrow> go_error + RESTClient" where
  "ROCKETMQ_NewForConfig env c =
     (case env_RESTClientFor env (setConfigDefaults env c) of
        Inl err \<Rightarrow> Inl err
      | Inr client \<Rightarrow> Inr (ROCKETMQ_New client))"

text \<open>\<open>OrDie\<close> panics with the error: \<open>Inl\<close> is the panic's value.\<close>

definition ROCKETMQ_NewForConfigOrDie :: "rest_env \<Rightarrow> Config \<Rightarrow> go_error + RESTClient" where
  "ROCKETMQ_NewForConfigOrDie env c = ROCKETMQ_NewForConfig env c"

definition ROCKETMQ_RESTClient :: "RESTClient option \<Rightarrow> RESTClient option" where
  "ROCKETMQ_RESTClient c = (case c of None \<Rightarrow> None | Some rest \<Rightarrow> Some rest)"

definition ROCKETMQ_BrokerClusters :: "RESTClient \<Rightarrow> string \<Rightarrow> brokerClusters" where
  "ROCKETMQ_BrokerClusters c namespace = newBrokerClusters c namespace"

record Clientset =
  cs_Discovery :: RESTClient
  cs_ROCKETMQV1alpha1 :: RESTClient

definition ROCKETMQV1alpha1 :: "Clientset \<Rightarrow> RESTClient" where
  "ROCKETMQV1alpha1 c = cs_ROCKETMQV1alpha1 c"

definition ROCKETMQ :: "Clientset \<Rightarrow> RESTClient" where
  "ROCKETMQ c = cs_ROCKETMQV1alpha1 c"

definition Clientset_Discovery :: "Clientset option \<Rightarrow> RESTClient option" where
  "Clientset_Discovery c = (case c of None \<Rightarrow> None | Some cs \<Rightarrow> Some (cs_Discovery cs))"

definition share_limiter :: "Config \<Rightarrow> Config" where
  "share_limiter c =
     (if cfg_RateLimiter c = None \<and> cfg_QPS c > 0
      then c\<lparr>cfg_RateLimiter := Some \<lparr>tb_QPS = cfg_QPS c, tb_Burst = cfg_Burst c\<rparr>\<rparr> else c)"

definition NewForConfig :: "rest_env \<Rightarrow> Config \<Rightarrow> go_error + Clientset" where
  "NewForConfig env c =
     (let configShallowCopy = share_limiter c in
      case ROCKETMQ_NewForConfig env configShallowCopy of
        Inl err \<Rightarrow> Inl err
      | Inr r \<Rightarrow>
          (case env_NewDiscoveryClientForConfig env configShallowCopy of
             Inl err \<Rightarrow> Inl err
           | Inr d \<Rightarrow> Inr \<lparr>cs_Discovery = d, cs_ROCKETMQV1alpha1 = r\<rparr>))"

definition NewForConfigOrDie :: "rest_env \<Rightarrow> Config \<Rightarrow> go_error + Clientset" where
  "NewForConfigOrDie env c =
     (case ROCKETMQ_NewForConfigOrDie env c of
        Inl err \<Rightarrow> Inl err
      | Inr r \<Rightarrow>
          (case env_NewDiscoveryClientForConfig env c of
             Inl err \<Rightarrow> Inl err
           | Inr d \<Rightarrow> Inr \<lparr>cs_Discovery = d, cs_ROCKETMQV1alpha1 = r\<rparr>))"

definition Clientset_New :: "RESTClient \<Rightarrow> Clientset" where
  "Clientset_New c = \<lparr>cs_Discovery = c, cs_ROCKETMQV1alpha1 = ROCKETMQ_New c\<rparr>"

text \<open>The API path of a group version (\<open>rest/url_utils.go\<close>).\<close>

definition DefaultVersionedAPIPath :: "string \<Rightarrow> GroupVersion \<Rightarrow> string" where
  "DefaultVersionedAPIPath apiPath groupVersion =
     (let versionedAPIPath = path_Join [''/'', apiPath] in
      if gv_Group groupVersion \<noteq> ''''
      then path_Join [versionedAPIPath, gv_Group groupVersion, gv_Version groupVersion]
      else path_Join [versionedAPIPath, gv_Version groupVersion])"


section \<open>The requests of the typed client\<close>

text \<open>
  A REST client for the group and version of broker clusters, of a server whose API starts at
  the path \<open>pre\<close> (empty unless a proxy moves it).
\<close>

definition base_path :: "string list \<Rightarrow> string" where
  "base_path pre = (if pre = [] then ''/'' else abs_path pre @ ''/'')"

definition standard_client :: "string list \<Rightarrow> RESTClient \<Rightarrow> bool" where
  "standard_client pre rc \<longleftrightarrow> (\<forall>s \<in> set pre. valid_segment s) \<and> rc_base rc = base_path pre \<and>
     rc_versionedAPIPath rc = DefaultVersionedAPIPath ''/apis'' SchemeGroupVersion"

definition api_prefix :: "string list \<Rightarrow> string list" where
  "api_prefix pre = pre @ [''apis'', GroupName, ''v1alpha1'']"

definition collection_path :: "string list \<Rightarrow> string \<Rightarrow> string" where
  "collection_path pre ns =
     abs_path (api_prefix pre @ (if ns = '''' then [] else [''namespaces'', ns]) @ [''brokerclusters''])"

definition object_path :: "string list \<Rightarrow> string \<Rightarrow> string \<Rightarrow> string" where
  "object_path pre ns name =
     abs_path (api_prefix pre @ (if ns = '''' then [] else [''namespaces'', ns]) @ [''brokerclusters'', name])"

lemma versioned_path:
  "DefaultVersionedAPIPath ''/apis'' SchemeGroupVersion = abs_path [''apis'', GroupName, ''v1alpha1'']"
  by code_simp

lemma prefix_valid: "\<forall>s \<in> set [''apis'', GroupName, ''v1alpha1'']. valid_segment s"
  by code_simp

lemma api_prefix_valid: "\<forall>s \<in> set pre. valid_segment s \<Longrightarrow> \<forall>s \<in> set (api_prefix pre). valid_segment s"
  using prefix_valid by (auto simp: api_prefix_def)

lemma split_base_path:
  assumes "\<forall>s \<in> set pre. valid_segment s"
  shows "plain_path (base_path pre)" "segments (base_path pre) = pre"
proof -
  have "split_at (CHR ''/'') (base_path pre) =
      (if pre = [] then [[], []] else split_at (CHR ''/'') (abs_path pre) @ [[]])"
    using split_at_sep [of "CHR ''/''" "abs_path pre" "[]"] by (simp add: base_path_def)
  then show "plain_path (base_path pre)" "segments (base_path pre) = pre"
    using split_abs_path [OF assms] by (auto simp: plain_path_def segments_def)
qed

lemma Verb_pathPrefix:
  assumes "standard_client pre rc"
  shows "rq_pathPrefix (Verb rc v) = abs_path (api_prefix pre)"
proof -
  have pre: "\<forall>s \<in> set pre. valid_segment s" using assms by (simp add: standard_client_def)
  let ?v = "[''apis'', GroupName, ''v1alpha1'']"
  have root: "plain_path ''/''" "segments ''/'' = []" by (simp_all add: plain_path_def segments_def)
  have "path_Join [''/'', base_path pre] = abs_path pre"
    using path_Join_rooted [of "''/''" "[base_path pre]"] split_base_path [OF pre] root by simp
  moreover have "path_Join [abs_path pre, abs_path ?v] = abs_path (api_prefix pre)"
  proof -
    have "\<forall>e \<in> set (abs_path pre # [abs_path ?v]). plain_path e"
      using plain_abs_path(1) [OF pre] plain_abs_path(1) [OF prefix_valid] by auto
    moreover have "abs_path pre \<noteq> []" "hd (abs_path pre) = CHR ''/''" by (simp_all add: abs_path_def)
    ultimately have "path_Join [abs_path pre, abs_path ?v] = abs_path (concat (map segments [abs_path pre, abs_path ?v]))"
      by (intro path_Join_rooted)
    then show ?thesis
      by (simp only: list.map concat.simps append_Nil2 plain_abs_path(2) [OF pre]
          plain_abs_path(2) [OF prefix_valid] api_prefix_def)
  qed
  ultimately show ?thesis
    using assms by (simp only: Verb_def NewRequest_def standard_client_def versioned_path request.simps)
qed

lemma resource_lower: "map to_lower ''brokerclusters'' = ''brokerclusters''"
  by code_simp

lemma resource_ok: "IsValidPathSegmentName ''brokerclusters'' = []" "valid_segment ''brokerclusters''"
  by code_simp+

text \<open>The common start of all verbs.\<close>

definition started :: "RESTClient \<Rightarrow> string \<Rightarrow> string \<Rightarrow> request" where
  "started rc verb ns = Request_Resource ''brokerclusters'' (Request_Namespace ns (Verb rc verb))"

lemma started_ok:
  assumes "IsValidPathSegmentName ns = []"
  shows "started rc verb ns = (Verb rc verb)\<lparr>rq_namespaceSet := True, rq_namespace := ns,
     rq_resource := ''brokerclusters''\<rparr>"
  using assms
  by (simp add: started_def Request_Namespace_def Request_Resource_def Verb_def NewRequest_def resource_ok)

lemma started_bad:
  assumes "IsValidPathSegmentName ns \<noteq> []"
  shows "rq_err (started rc verb ns) \<noteq> None"
  using assms
  by (simp add: started_def Request_Namespace_def Request_Resource_def Verb_def NewRequest_def fail_def)


text \<open>What a started request becomes: its URL, and the outcome of sending it.\<close>

lemma started_URL:
  assumes "standard_client pre rc" "IsValidPathSegmentName ns = []" "name = '''' \<or> IsValidPathSegmentName name = []"
  shows "Request_URL ((started rc verb ns)\<lparr>rq_resourceName := name, rq_params := ps, rq_body := b,
      rq_header_ContentType := ct\<rparr>) = (if name = '''' then collection_path pre ns else object_path pre ns name)"
proof -
  let ?r = "(started rc verb ns)\<lparr>rq_resourceName := name, rq_params := ps, rq_body := b, rq_header_ContentType := ct\<rparr>"
  have parts: "rq_pathPrefix ?r = abs_path (api_prefix pre)" "rq_namespace ?r = ns" "rq_namespaceSet ?r"
    "rq_resource ?r = ''brokerclusters''" "rq_resourceName ?r = name" "rq_subresource ?r = ''''" "rq_subpath ?r = ''''"
    using Verb_pathPrefix [OF assms(1)] by (simp_all add: started_ok [OF assms(2)] Verb_def NewRequest_def)
  have v: "\<forall>s \<in> set (api_prefix pre). valid_segment s"
    using assms(1) unfolding standard_client_def by (intro api_prefix_valid) blast
  have "Request_URL ?r = abs_path (api_prefix pre @
      (if rq_namespaceSet ?r \<and> rq_namespace ?r \<noteq> '''' then [''namespaces'', rq_namespace ?r] else []) @
      map to_lower (rq_resource ?r) # filter (\<lambda>s. s \<noteq> '''') [rq_resourceName ?r, rq_subresource ?r])"
    by (rule Request_URL_parts [OF parts(1) v])
       (use valid_name_segment assms(2,3) in \<open>auto simp only: parts resource_lower resource_ok simp_thms\<close>)
  then show ?thesis
    unfolding parts resource_lower using parts(3) by (auto simp: collection_path_def object_path_def)
qed

text \<open>\<open>send\<close> is one exchange whose answer is decoded.\<close>

definition send :: "'w transport \<Rightarrow> 'w \<Rightarrow> http_request \<Rightarrow> (go_error + string \<Rightarrow> 'r) \<Rightarrow> 'w \<times> 'r" where
  "send tr w q decode = (case tr w q of (w', result) \<Rightarrow> (w', decode result))"

lemma started_http:
  assumes "standard_client pre rc" "IsValidPathSegmentName ns = []" "name = '''' \<or> IsValidPathSegmentName name = []"
  shows "http_of ((started rc verb ns)\<lparr>rq_resourceName := name, rq_params := ps, rq_body := b,
      rq_header_ContentType := ct\<rparr>) =
    \<lparr>hq_verb = verb, hq_path = (if name = '''' then collection_path pre ns else object_path pre ns name),
     hq_query = ps, hq_ContentType = ct, hq_body = b\<rparr>"
  unfolding http_of_def started_URL [OF assms]
  by (simp add: started_ok [OF assms(2)] Verb_def NewRequest_def)


lemma Do_started:
  assumes "standard_client pre rc" "IsValidPathSegmentName ns = []" "name = '''' \<or> IsValidPathSegmentName name = []"
    and "r = (started rc verb ns)\<lparr>rq_resourceName := name, rq_params := ps, rq_body := b, rq_header_ContentType := ct\<rparr>"
    and "ns \<noteq> '''' \<or> (verb \<noteq> ''POST'' \<and> (name = '''' \<or> verb = ''PATCH''))"
  shows "Request_Do tr r w = tr w
    \<lparr>hq_verb = verb, hq_path = (if name = '''' then collection_path pre ns else object_path pre ns name),
     hq_query = ps, hq_ContentType = ct, hq_body = b\<rparr>"
proof -
  have "rq_err r = None" "rq_verb r = verb" "rq_namespace r = ns" "rq_resourceName r = name"
    unfolding assms(4) by (simp_all add: started_ok [OF assms(2)] Verb_def NewRequest_def)
  then have "request_check r = None" using assms(5) by (auto simp: request_check_def)
  then show ?thesis
    unfolding Request_Do_def assms(4) started_http [OF assms(1-3)] by simp
qed

lemma VersionedParams_fresh:
  assumes "rq_err r = None" "rq_params r = Map.empty"
  shows "Request_VersionedParams ps r =
    (case ps of Inl err \<Rightarrow> r\<lparr>rq_err := Some err\<rparr> | Inr q \<Rightarrow> r\<lparr>rq_params := q\<rparr>)"
proof -
  have "(\<lambda>k. case q k of None \<Rightarrow> rq_params r k
      | Some v \<Rightarrow> Some (case rq_params r k of None \<Rightarrow> v | Some u \<Rightarrow> u @ v)) = q" for q
    by (rule ext) (simp add: assms(2) split: option.split)
  then show ?thesis using assms(1) by (simp add: Request_VersionedParams_def split: sum.split)
qed

lemma started_fields:
  assumes "IsValidPathSegmentName ns = []"
  shows "rq_err (started rc verb ns) = None" "rq_params (started rc verb ns) = Map.empty"
    "rq_resourceName (started rc verb ns) = []" "rq_subresource (started rc verb ns) = []"
    "rq_body (started rc verb ns) = None" "rq_header_ContentType (started rc verb ns) = None"
    "rq_contentType (started rc verb ns) = rc_ContentType rc"
  using assms by (simp_all add: started_ok Verb_def NewRequest_def)

lemma Name_started:
  assumes "IsValidPathSegmentName ns = []" "IsValidPathSegmentName name = []" "name \<noteq> []"
  shows "Request_Name name (started rc verb ns) = (started rc verb ns)\<lparr>rq_resourceName := name\<rparr>"
  using assms by (simp add: Request_Name_def started_fields)

text \<open>The optional parts a verb adds, in the form of \<open>Do_started\<close>.\<close>

lemma built_request:
  assumes "IsValidPathSegmentName ns = []"
  shows "(started rc verb ns)\<lparr>rq_resourceName := name\<rparr> = (started rc verb ns)\<lparr>rq_resourceName := name,
      rq_params := Map.empty, rq_body := None, rq_header_ContentType := None\<rparr>"
    and "(started rc verb ns)\<lparr>rq_resourceName := name, rq_params := q\<rparr> = (started rc verb ns)\<lparr>rq_resourceName := name,
      rq_params := q, rq_body := None, rq_header_ContentType := None\<rparr>"
    and "(started rc verb ns)\<lparr>rq_params := q\<rparr> = (started rc verb ns)\<lparr>rq_resourceName := [],
      rq_params := q, rq_body := None, rq_header_ContentType := None\<rparr>"
    and "(started rc verb ns)\<lparr>rq_resourceName := name, rq_body := Some d, rq_header_ContentType := ct\<rparr> =
      (started rc verb ns)\<lparr>rq_resourceName := name, rq_params := Map.empty, rq_body := Some d, rq_header_ContentType := ct\<rparr>"
    and "(started rc verb ns)\<lparr>rq_body := Some d, rq_header_ContentType := ct\<rparr> =
      (started rc verb ns)\<lparr>rq_resourceName := [], rq_params := Map.empty, rq_body := Some d, rq_header_ContentType := ct\<rparr>"
    and "(started rc verb ns)\<lparr>rq_params := q, rq_body := Some d, rq_header_ContentType := ct\<rparr> =
      (started rc verb ns)\<lparr>rq_resourceName := [], rq_params := q, rq_body := Some d, rq_header_ContentType := ct\<rparr>"
  using assms by (simp_all add: started_ok Verb_def NewRequest_def)

lemma collection_reads:
  assumes std: "standard_client pre rc" and ns: "IsValidPathSegmentName ns = []"
  shows "Clusters_List co tr (newBrokerClusters rc ns) lopts w =
      (case co_ListOptions co lopts of
         Inl err \<Rightarrow> (w, Inl err)
       | Inr q \<Rightarrow> send tr w \<lparr>hq_verb = ''GET'', hq_path = collection_path pre ns, hq_query = q,
                     hq_ContentType = None, hq_body = None\<rparr> (Into (co_DecodeList co)))"
    and "Clusters_Watch co tr (newBrokerClusters rc ns) lopts w =
      (case co_ListOptions co (lopts\<lparr>lo_Watch := True\<rparr>) of
         Inl err \<Rightarrow> (w, Inl err)
       | Inr q \<Rightarrow> tr w \<lparr>hq_verb = ''GET'', hq_path = collection_path pre ns, hq_query = q,
                     hq_ContentType = None, hq_body = None\<rparr>)"
proof -
  note st = started_fields [OF ns]
  let ?get = "\<lambda>path q. \<lparr>hq_verb = ''GET'', hq_path = path, hq_query = q, hq_ContentType = None, hq_body = None\<rparr>"
  have "Request_Do tr (Request_VersionedParams (co_ListOptions co lopts) (started rc ''GET'' ns)) w =
      (case co_ListOptions co lopts of Inl err \<Rightarrow> (w, Inl err) | Inr q \<Rightarrow> tr w (?get (collection_path pre ns) q))"
    using Do_started [OF std ns disjI1 [OF refl] built_request(3) [OF ns], where verb = "''GET''"]
    by (auto simp: st VersionedParams_fresh setters_keep_error split: sum.split)
  then show "Clusters_List co tr (newBrokerClusters rc ns) lopts w =
      (case co_ListOptions co lopts of
         Inl err \<Rightarrow> (w, Inl err)
       | Inr q \<Rightarrow> send tr w (?get (collection_path pre ns) q) (Into (co_DecodeList co)))"
    by (simp add: Clusters_List_def RC_Get_def newBrokerClusters_def started_def Let_def send_def Into_def split: sum.split)
  have "Request_Watch tr (Request_VersionedParams ps (started rc ''GET'' ns)) w =
      (case ps of Inl err \<Rightarrow> (w, Inl err) | Inr q \<Rightarrow> tr w (?get (collection_path pre ns) q))" for ps
    using started_http [OF std ns disjI1 [OF refl], where verb = "''GET''" and b = None and ct = None]
    unfolding built_request(3) [OF ns, symmetric]
    by (auto simp: st VersionedParams_fresh Request_Watch_def split: sum.split)
  then show "Clusters_Watch co tr (newBrokerClusters rc ns) lopts w =
      (case co_ListOptions co (lopts\<lparr>lo_Watch := True\<rparr>) of
         Inl err \<Rightarrow> (w, Inl err) | Inr q \<Rightarrow> tr w (?get (collection_path pre ns) q))"
    by (simp add: Clusters_Watch_def RC_Get_def newBrokerClusters_def started_def Let_def)
qed

text \<open>
  What the typed client sends. For a valid namespace and name each verb makes exactly one
  exchange: its HTTP verb, the path of the object or of the namespace's collection under
  the API group and version, and the encoded options or object; the answer is decoded. If
  an encoding fails, that error is returned and nothing is sent.
\<close>

theorem typed_reads:
  assumes std: "standard_client pre rc" and ns: "IsValidPathSegmentName ns = []" "ns \<noteq> ''''"
    and name: "IsValidPathSegmentName name = []" "name \<noteq> ''''"
  shows "Clusters_Get co tr (newBrokerClusters rc ns) name opts w =
      (case co_GetOptions co opts of
         Inl err \<Rightarrow> (w, Inl err)
       | Inr q \<Rightarrow> send tr w \<lparr>hq_verb = ''GET'', hq_path = object_path pre ns name, hq_query = q,
                     hq_ContentType = None, hq_body = None\<rparr> (Into (co_DecodeCluster co))) \<and>
    Clusters_List co tr (newBrokerClusters rc ns) lopts w =
      (case co_ListOptions co lopts of
         Inl err \<Rightarrow> (w, Inl err)
       | Inr q \<Rightarrow> send tr w \<lparr>hq_verb = ''GET'', hq_path = collection_path pre ns, hq_query = q,
                     hq_ContentType = None, hq_body = None\<rparr> (Into (co_DecodeList co))) \<and>
    Clusters_Watch co tr (newBrokerClusters rc ns) lopts w =
      (case co_ListOptions co (lopts\<lparr>lo_Watch := True\<rparr>) of
         Inl err \<Rightarrow> (w, Inl err)
       | Inr q \<Rightarrow> tr w \<lparr>hq_verb = ''GET'', hq_path = collection_path pre ns, hq_query = q,
                     hq_ContentType = None, hq_body = None\<rparr>)"
proof -
  note st = started_fields [OF ns(1)] Name_started [OF ns(1) name]
  let ?get = "\<lambda>path q. \<lparr>hq_verb = ''GET'', hq_path = path, hq_query = q, hq_ContentType = None, hq_body = None\<rparr>"
  have "Request_Do tr (Request_VersionedParams (co_GetOptions co opts) (Request_Name name (started rc ''GET'' ns))) w =
      (case co_GetOptions co opts of Inl err \<Rightarrow> (w, Inl err) | Inr q \<Rightarrow> tr w (?get (object_path pre ns name) q))"
    using Do_started [OF std ns(1) disjI2 [OF name(1)] built_request(2) [OF ns(1)]] name(2) ns(2)
    by (auto simp: st VersionedParams_fresh setters_keep_error split: sum.split)
  then have "Clusters_Get co tr (newBrokerClusters rc ns) name opts w =
      (case co_GetOptions co opts of
         Inl err \<Rightarrow> (w, Inl err)
       | Inr q \<Rightarrow> send tr w (?get (object_path pre ns name) q) (Into (co_DecodeCluster co)))"
    by (simp add: Clusters_Get_def RC_Get_def newBrokerClusters_def started_def Let_def send_def Into_def split: sum.split)
  then show ?thesis using collection_reads [OF std ns(1)] by (intro conjI)
qed


lemma Do_put:
  assumes std: "standard_client pre rc" and ns: "IsValidPathSegmentName ns = []" "ns \<noteq> ''''"
    and name: "IsValidPathSegmentName name = []" "name \<noteq> ''''"
  shows "Request_Do tr (Request_Body (Some e) (Request_Name name (started rc ''PUT'' ns))) w =
      (case e of Inl err \<Rightarrow> (w, Inl err) | Inr d \<Rightarrow> tr w \<lparr>hq_verb = ''PUT'', hq_path = object_path pre ns name,
         hq_query = Map.empty, hq_ContentType = Some (rc_ContentType rc), hq_body = Some d\<rparr>)"
  using Do_started [OF std ns(1) disjI2 [OF name(1)] built_request(4) [OF ns(1)]] ns(2) name(2)
  by (auto simp: started_fields [OF ns(1)] Name_started [OF ns(1) name] Request_Body_def setters_keep_error split: sum.split)

lemma update_put:
  assumes std: "standard_client pre rc" and ns: "IsValidPathSegmentName ns = []" "ns \<noteq> ''''"
    and name: "IsValidPathSegmentName (om_Name (bc_ObjectMeta x)) = []" "om_Name (bc_ObjectMeta x) \<noteq> ''''"
  shows "Clusters_Update co tr (newBrokerClusters rc ns) x w =
      (case co_Cluster co x of
         Inl err \<Rightarrow> (w, Inl err)
       | Inr d \<Rightarrow> send tr w \<lparr>hq_verb = ''PUT'', hq_path = object_path pre ns (om_Name (bc_ObjectMeta x)),
                     hq_query = Map.empty, hq_ContentType = Some (rc_ContentType rc), hq_body = Some d\<rparr>
                   (Into (co_DecodeCluster co)))"
  using Do_put [OF std ns name, of tr _ w]
  by (simp add: Clusters_Update_def RC_Put_def newBrokerClusters_def started_def Let_def send_def Into_def split: sum.split)



text \<open>A request the checks refuse; later setters cannot repair it.\<close>

definition refused :: "request \<Rightarrow> bool" where
  "refused r \<longleftrightarrow> request_check r \<noteq> None"

lemma refused_Do: "refused r \<Longrightarrow> \<exists>e. Request_Do tr r w = (w, Inl e)"
  by (auto simp: refused_def Request_Do_def)

lemma refused_keep:
  "refused r \<Longrightarrow> refused (Request_VersionedParams ps r)"
  "refused r \<Longrightarrow> refused (Request_Body b r)"
  "refused r \<Longrightarrow> refused (Request_Body_bytes s r)"
  by (auto simp: refused_def request_check_def Request_VersionedParams_def Request_Body_def
      Request_Body_bytes_def split: sum.splits option.splits if_splits)

lemma error_refused: "rq_err r \<noteq> None \<Longrightarrow> refused r"
  by (simp add: refused_def request_check_def)

lemma bad_name_refused:
  assumes "IsValidPathSegmentName ns \<noteq> [] \<or> IsValidPathSegmentName name \<noteq> [] \<or> name = ''''"
  shows "refused (Request_Name name (started rc verb ns))"
    and "refused (Request_Name name (Request_SubResource ss (Request_Resource ''brokerclusters''
      (Request_Namespace ns (RC_Patch rc pt)))))"
proof -
  have name: "rq_err (Request_Name name r) \<noteq> None" if "rq_err r \<noteq> None \<or> IsValidPathSegmentName ns = []" for r
    using that assms by (cases "rq_err r") (auto simp: Request_Name_def fail_def)
  then show "refused (Request_Name name (started rc verb ns))"
    using started_bad error_refused by blast
  have "rq_err (Request_Namespace ns (RC_Patch rc pt)) \<noteq> None \<or> IsValidPathSegmentName ns = []"
    by (simp add: RC_Patch_def Request_Namespace_def Verb_def NewRequest_def fail_def)
  then show "refused (Request_Name name (Request_SubResource ss (Request_Resource ''brokerclusters''
      (Request_Namespace ns (RC_Patch rc pt)))))"
    using name setters_keep_error(1,2) error_refused by metis
qed

lemma empty_ns: "IsValidPathSegmentName '''' = []"
  by (simp add: IsValidPathSegmentName_def)

lemma empty_namespace_refused:
  "verb \<in> {''GET'', ''PUT'', ''DELETE''} \<Longrightarrow> refused (Request_Name name (started rc verb ''''))"
  "refused (started rc ''POST'' '''')"
  by (auto simp: refused_def request_check_def Request_Name_def started_ok [OF empty_ns] Verb_def NewRequest_def fail_def)


text \<open>
  Different objects have different addresses: the requests for two clusters with valid
  names go to the same path exactly when namespace and name are the same, and the path of
  an object is never the path of a collection.
\<close>

theorem object_paths_unique:
  assumes std: "standard_client pre rc"
    and valid: "IsValidPathSegmentName ns = []" "ns \<noteq> ''''" "IsValidPathSegmentName name = []" "name \<noteq> ''''"
      "IsValidPathSegmentName ns' = []" "ns' \<noteq> ''''" "IsValidPathSegmentName name' = []" "name' \<noteq> ''''"
  defines "url \<equiv> \<lambda>ns. \<lambda>name. Request_URL (Request_Name name (Request_Resource ''brokerclusters''
      (Request_Namespace ns (RC_Get rc))))"
  shows "(url ns name = url ns' name' \<longleftrightarrow> ns = ns' \<and> name = name') \<and>
    url ns name \<noteq> Request_URL (Request_Resource ''brokerclusters'' (Request_Namespace ns' (RC_Get rc)))"
proof -
  have pre: "\<forall>s \<in> set (api_prefix pre). valid_segment s"
    using std unfolding standard_client_def by (intro api_prefix_valid) blast
  have u: "url n m = object_path pre n m" if "IsValidPathSegmentName n = []" "IsValidPathSegmentName m = []" "m \<noteq> ''''" for n m
    using started_URL [OF std that(1) disjI2 [OF that(2)], where verb = "''GET''"] that(3) Name_started [OF that]
    unfolding url_def started_def [symmetric] RC_Get_def by (metis built_request(1) [OF that(1)])
  have c: "Request_URL (Request_Resource ''brokerclusters'' (Request_Namespace ns' (RC_Get rc))) = collection_path pre ns'"
  proof -
    have "Request_Resource ''brokerclusters'' (Request_Namespace ns' (RC_Get rc)) = (started rc ''GET'' ns')
        \<lparr>rq_resourceName := '''', rq_params := Map.empty, rq_body := None, rq_header_ContentType := None\<rparr>"
      unfolding RC_Get_def started_def [symmetric] by (simp add: started_ok [OF valid(5)] Verb_def NewRequest_def)
    then show ?thesis using started_URL [OF std valid(5) disjI1 [OF refl]] by simp
  qed
  have segs: "\<forall>s \<in> set (api_prefix pre @ [''namespaces'', n] @ [''brokerclusters'', m]). valid_segment s"
    "\<forall>s \<in> set (api_prefix pre @ [''namespaces'', n] @ [''brokerclusters'']). valid_segment s"
    if "IsValidPathSegmentName n = []" "n \<noteq> ''''" "IsValidPathSegmentName m = []" "m \<noteq> ''''" for n m
    using pre that valid_name_segment resource_ok(2) by (auto simp: valid_segment_def)
  have "url ns name = url ns' name' \<longleftrightarrow> ns = ns' \<and> name = name'"
    unfolding u [OF valid(1,3,4)] u [OF valid(5,7,8)] object_path_def
    using abs_path_inj [OF segs(1) [OF valid(1-4)] segs(1) [OF valid(5-8)]] valid(2,6) by simp
  moreover have "object_path pre ns name \<noteq> collection_path pre ns'"
    unfolding object_path_def collection_path_def
    using abs_path_inj [OF segs(1) [OF valid(1-4)] segs(2) [OF valid(5-8)]] valid(2,6) by simp
  ultimately show ?thesis using u [OF valid(1,3,4)] c by simp
qed


section \<open>A sample\<close>

text \<open>A transport that records the requests and answers with a fixed text.\<close>

definition recording :: "http_request list transport" where
  "recording w q = (w @ [q], Inr ''ok'')"

definition sample_rest :: RESTClient where
  "sample_rest = \<lparr>rc_base = ''/'', rc_versionedAPIPath = ''/apis/rocketmq.huanwei.io/v1alpha1'',
     rc_ContentType = ''application/json''\<rparr>"

definition sample_codec :: codec where
  "sample_codec = \<lparr>co_GetOptions = (\<lambda>_. Inr Map.empty), co_ListOptions = (\<lambda>_. Inr Map.empty),
     co_DeleteOptions = (\<lambda>_. Inr ''{}''), co_Cluster = (\<lambda>c. Inr (om_Name (bc_ObjectMeta c))),
     co_DecodeCluster = (\<lambda>_. Inr sample_cluster), co_DecodeList = (\<lambda>_. Inl (MessageError ''not a list''))\<rparr>"

lemma sample_standard: "standard_client [] sample_rest"
proof -
  have "abs_path [''apis'', GroupName, ''v1alpha1''] = ''/apis/rocketmq.huanwei.io/v1alpha1''" by code_simp
  then show ?thesis by (simp add: standard_client_def sample_rest_def base_path_def versioned_path)
qed

lemma sample_names:
  "IsValidPathSegmentName ''prod'' = []" "IsValidPathSegmentName ''mybrokercluster'' = []"
  by code_simp+

theorem typed_reads_witness:
  "Clusters_Get sample_codec recording (newBrokerClusters sample_rest ''prod'') ''mybrokercluster''
     \<lparr>go_ResourceVersion = '''', go_IncludeUninitialized = False\<rparr> [] =
   ([\<lparr>hq_verb = ''GET'', hq_path = ''/apis/rocketmq.huanwei.io/v1alpha1/namespaces/prod/brokerclusters/mybrokercluster'',
      hq_query = Map.empty, hq_ContentType = None, hq_body = None\<rparr>], Inr sample_cluster)"
proof -
  have path: "object_path [] ''prod'' ''mybrokercluster'' =
      ''/apis/rocketmq.huanwei.io/v1alpha1/namespaces/prod/brokerclusters/mybrokercluster''" by code_simp
  show ?thesis
    using typed_reads [OF sample_standard sample_names(1) _ sample_names(2), of sample_codec recording _ "[]"]
    by (simp add: sample_codec_def path send_def recording_def Into_def)
qed



theorem object_paths_unique_witness:
  "Request_URL (Request_Name ''mybrokercluster'' (Request_Resource ''brokerclusters''
      (Request_Namespace ''prod'' (RC_Get sample_rest)))) \<noteq>
   Request_URL (Request_Name ''prod'' (Request_Resource ''brokerclusters''
      (Request_Namespace ''mybrokercluster'' (RC_Get sample_rest))))"
  using object_paths_unique [OF sample_standard sample_names(1) _ sample_names(2) _ sample_names(2) _ sample_names(1)]
  by simp

end
