(* ===== verification/Informer_Factory.thy ===== *)
theory Informer_Factory
  imports Indexer Clientset
begin

text \<open>
  The generated shared informer factory (\<open>pkg/generated/informers/externalversions\<close>).

  \<open>reflect.Type\<close> values are strings here; an informer is made by a function the caller
  passes (\<open>newFunc\<close>) and is the value of its arguments; what it lists and watches with are
  \<open>ListFunc\<close> and \<open>WatchFunc\<close>. \<open>fa_runs\<close> lists the informers whose \<open>Run\<close>
  the factory has started, in order. \<open>range\<close> over a Go map visits the entries in an
  unspecified order: \<open>order\<close>, a parameter of \<open>Start\<close>, is a list of all requested types.
\<close>

section \<open>The factory\<close>

type_synonym tweak = "ListOptions \<Rightarrow> ListOptions"

record informer =
  inf_client :: Clientset
  inf_Type :: string
  inf_Namespace :: string
  inf_Resync :: time
  inf_tweak :: "tweak option"
  inf_indexers :: "string list"

record factory =
  fa_client :: Clientset
  fa_namespace :: string
  fa_tweak :: "tweak option"
  fa_defaultResync :: time
  fa_customResync :: "string \<rightharpoonup> time"
  fa_informers :: "string \<rightharpoonup> informer"
  fa_startedInformers :: "string \<Rightarrow> bool"
  fa_runs :: "informer list"

type_synonym factory_option = "factory \<Rightarrow> factory"

definition WithCustomResyncConfig :: "(string \<times> time) list \<Rightarrow> factory_option" where
  "WithCustomResyncConfig resyncConfig f =
     f\<lparr>fa_customResync := fold (\<lambda>(k, v) m. m(k \<mapsto> v)) resyncConfig (fa_customResync f)\<rparr>"

definition WithTweakListOptions :: "tweak option \<Rightarrow> factory_option" where
  "WithTweakListOptions tweak f = f\<lparr>fa_tweak := tweak\<rparr>"

definition WithNamespace :: "string \<Rightarrow> factory_option" where
  "WithNamespace namespace f = f\<lparr>fa_namespace := namespace\<rparr>"

definition NewSharedInformerFactoryWithOptions :: "Clientset \<Rightarrow> time \<Rightarrow> factory_option list \<Rightarrow> factory" where
  "NewSharedInformerFactoryWithOptions client defaultResync options =
     fold (\<lambda>opt f. opt f) options
       \<lparr>fa_client = client, fa_namespace = NamespaceAll, fa_tweak = None, fa_defaultResync = defaultResync,
        fa_customResync = Map.empty, fa_informers = Map.empty, fa_startedInformers = (\<lambda>_. False), fa_runs = []\<rparr>"

definition NewSharedInformerFactory :: "Clientset \<Rightarrow> time \<Rightarrow> factory" where
  "NewSharedInformerFactory client defaultResync = NewSharedInformerFactoryWithOptions client defaultResync []"

definition NewFilteredSharedInformerFactory :: "Clientset \<Rightarrow> time \<Rightarrow> string \<Rightarrow> tweak option \<Rightarrow> factory" where
  "NewFilteredSharedInformerFactory client defaultResync namespace tweak =
     NewSharedInformerFactoryWithOptions client defaultResync [WithNamespace namespace, WithTweakListOptions tweak]"

text \<open>\<open>Start\<close> runs every requested informer that is not running yet.\<close>

definition start_one :: "string \<Rightarrow> factory \<Rightarrow> factory" where
  "start_one informerType f =
     (case fa_informers f informerType of
        None \<Rightarrow> f
      | Some informer \<Rightarrow>
          (if \<not> fa_startedInformers f informerType
           then f\<lparr>fa_runs := fa_runs f @ [informer],
                  fa_startedInformers := (fa_startedInformers f)(informerType := True)\<rparr>
           else f))"

definition Start :: "string list \<Rightarrow> factory \<Rightarrow> factory" where
  "Start order f = fold start_one order f"

text \<open>\<open>WaitForCacheSync\<close> waits for the started informers and reports each.\<close>

definition factory_WaitForCacheSync :: "(informer \<Rightarrow> bool) \<Rightarrow> factory \<Rightarrow> string \<rightharpoonup> bool" where
  "factory_WaitForCacheSync waited f =
     (\<lambda>informType. case fa_informers f informType of
        None \<Rightarrow> None
      | Some informer \<Rightarrow> if fa_startedInformers f informType then Some (waited informer) else None)"

definition InformerFor :: "string \<Rightarrow> (Clientset \<Rightarrow> time \<Rightarrow> informer) \<Rightarrow> factory \<Rightarrow> factory \<times> informer" where
  "InformerFor informerType newFunc f =
     (case fa_informers f informerType of
        Some informer \<Rightarrow> (f, informer)
      | None \<Rightarrow>
          (let resyncPeriod =
             (case fa_customResync f informerType of Some d \<Rightarrow> d | None \<Rightarrow> fa_defaultResync f);
               informer = newFunc (fa_client f) resyncPeriod
           in (f\<lparr>fa_informers := (fa_informers f)(informerType \<mapsto> informer)\<rparr>, informer)))"

section \<open>The informer of broker clusters\<close>

definition BrokerClusterType :: string where
  "BrokerClusterType = ''*v1alpha1.BrokerCluster''"

definition NewFilteredBrokerClusterInformer :: "Clientset \<Rightarrow> string \<Rightarrow> time \<Rightarrow> string list \<Rightarrow> tweak option \<Rightarrow> informer" where
  "NewFilteredBrokerClusterInformer client namespace resyncPeriod indexers tweakListOptions =
     \<lparr>inf_client = client, inf_Type = BrokerClusterType, inf_Namespace = namespace, inf_Resync = resyncPeriod,
      inf_tweak = tweakListOptions, inf_indexers = indexers\<rparr>"

definition NewBrokerClusterInformer :: "Clientset \<Rightarrow> string \<Rightarrow> time \<Rightarrow> string list \<Rightarrow> informer" where
  "NewBrokerClusterInformer client namespace resyncPeriod indexers =
     NewFilteredBrokerClusterInformer client namespace resyncPeriod indexers None"

text \<open>The two functions of the informer's \<open>cache.ListWatch\<close>.\<close>

definition tweaked :: "tweak option \<Rightarrow> ListOptions \<Rightarrow> ListOptions" where
  "tweaked tweakListOptions options =
     (case tweakListOptions of None \<Rightarrow> options | Some tweak \<Rightarrow> tweak options)"

definition ListFunc :: "codec \<Rightarrow> 'w transport \<Rightarrow> informer \<Rightarrow> ListOptions \<Rightarrow> 'w
    \<Rightarrow> 'w \<times> (go_error + cluster_val BrokerClusterList)" where
  "ListFunc co tr i options =
     Clusters_List co tr (ROCKETMQ_BrokerClusters (ROCKETMQV1alpha1 (inf_client i)) (inf_Namespace i))
       (tweaked (inf_tweak i) options)"

definition WatchFunc :: "codec \<Rightarrow> 'w transport \<Rightarrow> informer \<Rightarrow> ListOptions \<Rightarrow> 'w \<Rightarrow> 'w \<times> (go_error + string)" where
  "WatchFunc co tr i options =
     Clusters_Watch co tr (ROCKETMQ_BrokerClusters (ROCKETMQV1alpha1 (inf_client i)) (inf_Namespace i))
       (tweaked (inf_tweak i) options)"

text \<open>
  The way from the factory to the informer: \<open>ROCKETMQ().V1alpha1().BrokerClusters()\<close>. The
  factory each of these structs points to is passed beside it.
\<close>

record group =
  gp_namespace :: string
  gp_tweak :: "tweak option"

record version =
  ve_namespace :: string
  ve_tweak :: "tweak option"

record brokerClusterInformer =
  bi_namespace :: string
  bi_tweak :: "tweak option"

definition rocketmq_New :: "string \<Rightarrow> tweak option \<Rightarrow> group" where
  "rocketmq_New namespace tweak = \<lparr>gp_namespace = namespace, gp_tweak = tweak\<rparr>"

definition v1alpha1_New :: "string \<Rightarrow> tweak option \<Rightarrow> version" where
  "v1alpha1_New namespace tweak = \<lparr>ve_namespace = namespace, ve_tweak = tweak\<rparr>"

definition V1alpha1 :: "group \<Rightarrow> version" where
  "V1alpha1 g = v1alpha1_New (gp_namespace g) (gp_tweak g)"

definition version_BrokerClusters :: "version \<Rightarrow> brokerClusterInformer" where
  "version_BrokerClusters v = \<lparr>bi_namespace = ve_namespace v, bi_tweak = ve_tweak v\<rparr>"

definition factory_ROCKETMQ :: "factory \<Rightarrow> group" where
  "factory_ROCKETMQ f = rocketmq_New (fa_namespace f) (fa_tweak f)"

definition brokerClusterInformer_defaultInformer :: "brokerClusterInformer \<Rightarrow> Clientset \<Rightarrow> time \<Rightarrow> informer" where
  "brokerClusterInformer_defaultInformer b client resyncPeriod =
     NewFilteredBrokerClusterInformer client (bi_namespace b) resyncPeriod [''namespace''] (bi_tweak b)"

definition brokerClusterInformer_Informer :: "brokerClusterInformer \<Rightarrow> factory \<Rightarrow> factory \<times> informer" where
  "brokerClusterInformer_Informer b f =
     InformerFor BrokerClusterType (brokerClusterInformer_defaultInformer b) f"

definition ClusterInformer :: "factory \<Rightarrow> factory \<times> informer" where
  "ClusterInformer f = brokerClusterInformer_Informer (version_BrokerClusters (V1alpha1 (factory_ROCKETMQ f))) f"

record genericInformer =
  gi_informer :: informer
  gi_resource :: GroupResource

definition ForResource :: "GroupVersionResource \<Rightarrow> factory \<Rightarrow> factory \<times> (go_error + genericInformer)" where
  "ForResource resource f =
     (if resource = \<lparr>gvr_Group = gv_Group SchemeGroupVersion, gvr_Version = gv_Version SchemeGroupVersion,
                     gvr_Resource = ''brokerclusters''\<rparr>
      then (case ClusterInformer f of
              (f', i) \<Rightarrow>
                (f', Inr \<lparr>gi_informer = i,
                          gi_resource = \<lparr>gr_Group = gvr_Group resource, gr_Resource = gvr_Resource resource\<rparr>\<rparr>))
      else (f, Inl (MessageError (''no informer found for '' @ gvr_Group resource @ ''/'' @ gvr_Version resource @
              '', Resource='' @ gvr_Resource resource))))"

section \<open>Properties\<close>

lemma start_one_parts [simp]:
  "fa_informers (start_one t f) = fa_informers f"
  "fa_startedInformers (start_one t f) t' =
     (fa_startedInformers f t' \<or> (t' = t \<and> fa_informers f t \<noteq> None))"
  by (auto simp: start_one_def split: option.split)

lemma Start_parts:
  "fa_informers (Start order f) = fa_informers f"
  "fa_startedInformers (Start order f) t \<longleftrightarrow>
     fa_startedInformers f t \<or> (t \<in> set order \<and> fa_informers f t \<noteq> None)"
  by (induction order arbitrary: f) (auto simp: Start_def)

text \<open>
  An operation on a factory; the only one that can change which informer a type has is
  \<open>InformerFor\<close>, and only for a type that has none.
\<close>

datatype factory_op = Request string "Clientset \<Rightarrow> time \<Rightarrow> informer" | StartAll "string list"

fun run_factory_op :: "factory_op \<Rightarrow> factory \<Rightarrow> factory" where
  "run_factory_op (Request t newFunc) f = fst (InformerFor t newFunc f)"
| "run_factory_op (StartAll order) f = Start order f"



definition factory_ok :: "factory \<Rightarrow> bool" where
  "factory_ok f \<longleftrightarrow>
     (\<forall>t. fa_startedInformers f t \<longrightarrow> fa_informers f t \<noteq> None) \<and>
     (\<exists>ts. distinct ts \<and> set ts = {t. fa_startedInformers f t} \<and>
        fa_runs f = map (\<lambda>t. the (fa_informers f t)) ts)"

lemma start_one_ok: "factory_ok f \<Longrightarrow> factory_ok (start_one t f)"
proof -
  assume ok: "factory_ok f"
  then obtain ts where ts: "distinct ts" "set ts = {t. fa_startedInformers f t}"
    "fa_runs f = map (\<lambda>t. the (fa_informers f t)) ts"
    by (auto simp: factory_ok_def)
  show ?thesis
  proof (cases "fa_informers f t \<noteq> None \<and> \<not> fa_startedInformers f t")
    case False
    then have "start_one t f = f" by (auto simp: start_one_def split: option.split)
    with ok show ?thesis by simp
  next
    case True
    then obtain i where i: "fa_informers f t = Some i" and new: "\<not> fa_startedInformers f t" by blast
    have "t \<notin> set ts" using new ts(2) by simp
    then have 1: "distinct (ts @ [t])" using ts(1) by simp
    have 2: "set (ts @ [t]) = {t'. fa_startedInformers (start_one t f) t'}"
      unfolding set_append ts(2) start_one_parts(2) i by auto
    have "fa_runs (start_one t f) = fa_runs f @ [i]" using i new by (simp add: start_one_def)
    then have 3: "fa_runs (start_one t f) = map (\<lambda>u. the (fa_informers (start_one t f) u)) (ts @ [t])"
      using ts(3) i by simp
    have "\<forall>t'. fa_startedInformers f t' \<longrightarrow> fa_informers f t' \<noteq> None"
      using ok unfolding factory_ok_def by (rule conjunct1)
    then have 4: "fa_informers (start_one t f) t' \<noteq> None" if "fa_startedInformers (start_one t f) t'" for t'
      using that unfolding start_one_parts by blast
    have "\<exists>ts. distinct ts \<and> set ts = {t'. fa_startedInformers (start_one t f) t'} \<and>
        fa_runs (start_one t f) = map (\<lambda>u. the (fa_informers (start_one t f) u)) ts"
      by (rule exI [of _ "ts @ [t]"]) (rule conjI [OF 1 conjI [OF 2 3]])
    then show ?thesis unfolding factory_ok_def using 4 by (intro conjI allI impI)
  qed
qed

lemma Start_ok: "factory_ok f \<Longrightarrow> factory_ok (Start order f)"
  unfolding Start_def by (induction order arbitrary: f) (simp_all add: start_one_ok)

lemma InformerFor_ok: "factory_ok f \<Longrightarrow> factory_ok (fst (InformerFor t newFunc f))"
proof (cases "fa_informers f t")
  case None
  assume ok: "factory_ok f"
  then obtain ts where ts: "distinct ts" "set ts = {t. fa_startedInformers f t}"
    "fa_runs f = map (\<lambda>t. the (fa_informers f t)) ts"
    by (auto simp: factory_ok_def)
  have "t \<notin> set ts" using ok None ts(2) by (auto simp: factory_ok_def)
  let ?g = "fst (InformerFor t newFunc f)"
  have g: "fa_startedInformers ?g = fa_startedInformers f" "fa_runs ?g = fa_runs f"
    "\<And>u. u \<noteq> t \<Longrightarrow> fa_informers ?g u = fa_informers f u" "fa_informers ?g t \<noteq> None"
    using None by (simp_all add: InformerFor_def Let_def)
  have "map (\<lambda>u. the (fa_informers ?g u)) ts = map (\<lambda>u. the (fa_informers f u)) ts"
  proof (rule map_cong [OF refl])
    fix u assume "u \<in> set ts"
    with \<open>t \<notin> set ts\<close> have "u \<noteq> t" by auto
    then show "the (fa_informers ?g u) = the (fa_informers f u)" by (rule arg_cong [OF g(3)])
  qed
  moreover have "\<forall>u. fa_startedInformers ?g u \<longrightarrow> fa_informers ?g u \<noteq> None"
    using ok g by (metis factory_ok_def)
  ultimately show ?thesis unfolding factory_ok_def using ts g(1,2) by metis
qed (simp add: InformerFor_def)


definition sample_clientset :: Clientset where
  "sample_clientset = Clientset_New sample_rest"


text \<open>
  A filtered factory confines its informers. The broker cluster informer it makes lists
  and watches with GET requests to the collection of the factory's namespace (of all
  namespaces if that is empty), its options passed through the factory's filter, and has the
  factory's default resync period; \<open>ForResource\<close> gives that informer for the custom resource and
  an error for everything else.
\<close>

theorem factory_namespace:
  fixes d :: time and ns :: string and tw :: "tweak option" and client :: Clientset
  defines "f \<equiv> NewFilteredSharedInformerFactory client d ns tw"
  defines "i \<equiv> snd (ClusterInformer f)"
  assumes std: "standard_client pre (cs_ROCKETMQV1alpha1 client)" and ns: "IsValidPathSegmentName ns = []"
    and params: "co_ListOptions co (tweaked tw opts) = Inr q"
      "co_ListOptions co ((tweaked tw opts)\<lparr>lo_Watch := True\<rparr>) = Inr q'"
  shows "inf_Resync i = d \<and>
    ListFunc co tr i opts w =
      send tr w \<lparr>hq_verb = ''GET'', hq_path = collection_path pre ns, hq_query = q, hq_ContentType = None,
        hq_body = None\<rparr> (Into (co_DecodeList co)) \<and>
    WatchFunc co tr i opts w =
      tr w \<lparr>hq_verb = ''GET'', hq_path = collection_path pre ns, hq_query = q', hq_ContentType = None,
        hq_body = None\<rparr> \<and>
    (case ForResource r f of
       (f', Inr g) \<Rightarrow> r = \<lparr>gvr_Group = GroupName, gvr_Version = ''v1alpha1'', gvr_Resource = ''brokerclusters''\<rparr> \<and>
          gi_informer g = i
     | (f', Inl e) \<Rightarrow> f' = f \<and>
          r \<noteq> \<lparr>gvr_Group = GroupName, gvr_Version = ''v1alpha1'', gvr_Resource = ''brokerclusters''\<rparr>)"

proof -
  have i: "i = \<lparr>inf_client = client, inf_Type = BrokerClusterType, inf_Namespace = ns, inf_Resync = d,
      inf_tweak = tw, inf_indexers = [''namespace'']\<rparr>"
    by (simp add: i_def f_def NewFilteredSharedInformerFactory_def NewSharedInformerFactoryWithOptions_def
        WithNamespace_def WithTweakListOptions_def ClusterInformer_def brokerClusterInformer_Informer_def InformerFor_def
        version_BrokerClusters_def V1alpha1_def v1alpha1_New_def factory_ROCKETMQ_def rocketmq_New_def
        Let_def brokerClusterInformer_defaultInformer_def NewFilteredBrokerClusterInformer_def)
  have "ListFunc co tr i opts w = send tr w \<lparr>hq_verb = ''GET'', hq_path = collection_path pre ns, hq_query = q,
      hq_ContentType = None, hq_body = None\<rparr> (Into (co_DecodeList co))"
    "WatchFunc co tr i opts w = tr w \<lparr>hq_verb = ''GET'', hq_path = collection_path pre ns, hq_query = q',
      hq_ContentType = None, hq_body = None\<rparr>"
    using collection_reads [OF std ns, of co tr "tweaked tw opts" w] params
    by (simp_all add: ListFunc_def WatchFunc_def i ROCKETMQV1alpha1_def ROCKETMQ_BrokerClusters_def)
  moreover have "inf_Resync i = d" by (simp add: i)
  moreover have "case ForResource r f of
       (f', Inr g) \<Rightarrow> r = \<lparr>gvr_Group = GroupName, gvr_Version = ''v1alpha1'', gvr_Resource = ''brokerclusters''\<rparr> \<and>
          gi_informer g = i
     | (f', Inl e) \<Rightarrow> f' = f \<and>
          r \<noteq> \<lparr>gvr_Group = GroupName, gvr_Version = ''v1alpha1'', gvr_Resource = ''brokerclusters''\<rparr>"
    by (auto simp: ForResource_def SchemeGroupVersion_def i_def split: prod.split)
  ultimately show ?thesis by blast
qed

definition first_page :: ListOptions where
  "first_page = \<lparr>lo_LabelSelector = '''', lo_FieldSelector = '''', lo_IncludeUninitialized = False, lo_Watch = False,
     lo_ResourceVersion = ''0'', lo_TimeoutSeconds = None, lo_Limit = 500, lo_Continue = ''''\<rparr>"

theorem factory_namespace_witness:
  "ListFunc sample_codec recording (snd (ClusterInformer (NewFilteredSharedInformerFactory sample_clientset 5 ''prod'' None)))
     first_page [] =
   ([\<lparr>hq_verb = ''GET'', hq_path = ''/apis/rocketmq.huanwei.io/v1alpha1/namespaces/prod/brokerclusters'',
      hq_query = Map.empty, hq_ContentType = None, hq_body = None\<rparr>], Inl (MessageError ''not a list''))"
proof -
  have path: "collection_path [] ''prod'' = ''/apis/rocketmq.huanwei.io/v1alpha1/namespaces/prod/brokerclusters''" by code_simp
  have "standard_client [] (cs_ROCKETMQV1alpha1 sample_clientset)"
    using sample_standard by (simp add: sample_clientset_def Clientset_New_def ROCKETMQ_New_def)
  then show ?thesis
    using factory_namespace [of "[]" sample_clientset "''prod''" sample_codec None first_page Map.empty Map.empty 5 recording "[]"]
      sample_names(1)
    by (simp add: sample_codec_def path send_def recording_def Into_def)
qed

end
