(* ===== verification/Start_Up.thy ===== *)
theory Start_Up
  imports Operator_Options Informer_Factory Broker_Controller
begin

text \<open>
  How the operator is put together (\<open>app.Run\<close>, \<open>NewBrokerController\<close>): clients, informer
  factories, informers, listers, controls and the controller, and which informers the two
  factories start.

  The informer of a type is the value of its arguments, as in \<open>Informer_Factory\<close>; the store
  behind a lister is named by the informer that fills it. The factory for the objects of
  Kubernetes itself is client-go's (\<open>informers/factory.go\<close>), over a client of any type \<open>'k\<close>.
  The parameters are in \<open>start_env\<close>: reading the client configuration, making the clients,
  the random numbers, and the order in which \<open>range\<close> visits a map.
\<close>

section \<open>The informer factory of client-go\<close>

record 'k kube_informer =
  ki_client :: 'k
  ki_Type :: string
  ki_Namespace :: string
  ki_Resync :: time

record 'k kube_factory =
  kf_client :: 'k
  kf_namespace :: string
  kf_defaultResync :: time
  kf_informers :: "string \<rightharpoonup> 'k kube_informer"
  kf_startedInformers :: "string \<Rightarrow> bool"
  kf_runs :: "'k kube_informer list"

definition kube_NewFilteredSharedInformerFactory :: "'k \<Rightarrow> time \<Rightarrow> string \<Rightarrow> 'k kube_factory" where
  "kube_NewFilteredSharedInformerFactory client defaultResync namespace =
     \<lparr>kf_client = client, kf_namespace = namespace, kf_defaultResync = defaultResync, kf_informers = Map.empty,
      kf_startedInformers = (\<lambda>_. False), kf_runs = []\<rparr>"

definition kube_InformerFor :: "string \<Rightarrow> ('k \<Rightarrow> time \<Rightarrow> 'k kube_informer) \<Rightarrow> 'k kube_factory
    \<Rightarrow> 'k kube_factory \<times> 'k kube_informer" where
  "kube_InformerFor informerType newFunc f =
     (case kf_informers f informerType of
        Some informer \<Rightarrow> (f, informer)
      | None \<Rightarrow>
          (let informer = newFunc (kf_client f) (kf_defaultResync f)
           in (f\<lparr>kf_informers := (kf_informers f)(informerType \<mapsto> informer)\<rparr>, informer)))"

definition kube_start_one :: "string \<Rightarrow> 'k kube_factory \<Rightarrow> 'k kube_factory" where
  "kube_start_one informerType f =
     (case kf_informers f informerType of
        None \<Rightarrow> f
      | Some informer \<Rightarrow>
          (if \<not> kf_startedInformers f informerType
           then f\<lparr>kf_runs := kf_runs f @ [informer],
                  kf_startedInformers := (kf_startedInformers f)(informerType := True)\<rparr>
           else f))"

definition kube_Start :: "string list \<Rightarrow> 'k kube_factory \<Rightarrow> 'k kube_factory" where
  "kube_Start order f = fold kube_start_one order f"

text \<open>The three informers the controller asks that factory for.\<close>

definition StatefulSetType :: string where
  "StatefulSetType = ''*v1.StatefulSet''"

definition PodType :: string where
  "PodType = ''*v1.Pod''"

definition ServiceType :: string where
  "ServiceType = ''*v1.Service''"

definition kube_Informer :: "string \<Rightarrow> string \<Rightarrow> 'k kube_factory \<Rightarrow> 'k kube_factory \<times> 'k kube_informer" where
  "kube_Informer type namespace f =
     kube_InformerFor type
       (\<lambda>client resyncPeriod. \<lparr>ki_client = client, ki_Type = type, ki_Namespace = namespace, ki_Resync = resyncPeriod\<rparr>) f"

definition statefulSetInformer_Informer :: "string \<Rightarrow> 'k kube_factory \<Rightarrow> 'k kube_factory \<times> 'k kube_informer" where
  "statefulSetInformer_Informer namespace = kube_Informer StatefulSetType namespace"

definition podInformer_Informer :: "string \<Rightarrow> 'k kube_factory \<Rightarrow> 'k kube_factory \<times> 'k kube_informer" where
  "podInformer_Informer namespace = kube_Informer PodType namespace"

definition serviceInformer_Informer :: "string \<Rightarrow> 'k kube_factory \<Rightarrow> 'k kube_factory \<times> 'k kube_informer" where
  "serviceInformer_Informer namespace = kube_Informer ServiceType namespace"

section \<open>Listers and controls\<close>

definition brokerClusterInformer_Lister :: "brokerClusterInformer \<Rightarrow> factory
    \<Rightarrow> factory \<times> informer brokerClusterLister" where
  "brokerClusterInformer_Lister b f =
     (case brokerClusterInformer_Informer b f of (f', i) \<Rightarrow> (f', NewBrokerClusterLister i))"

definition genericInformer_Informer :: "genericInformer \<Rightarrow> informer" where
  "genericInformer_Informer f = gi_informer f"

record clusterUpdater =
  cu_client :: Clientset
  cu_lister :: "informer brokerClusterLister"

definition newClusterUpdater :: "Clientset \<Rightarrow> informer brokerClusterLister \<Rightarrow> clusterUpdater" where
  "newClusterUpdater client lister = \<lparr>cu_client = client, cu_lister = lister\<rparr>"

record 'k realServiceControl =
  rsc_client :: 'k
  rsc_serviceLister :: "'k kube_informer"

definition NewRealServiceControl :: "'k \<Rightarrow> 'k kube_informer \<Rightarrow> 'k realServiceControl" where
  "NewRealServiceControl client serviceLister = \<lparr>rsc_client = client, rsc_serviceLister = serviceLister\<rparr>"

record 'k realStatefulSetControl =
  rssc_client :: 'k
  rssc_statefulSetLister :: "'k kube_informer"

definition NewRealStatefulSetControl :: "'k \<Rightarrow> 'k kube_informer \<Rightarrow> 'k realStatefulSetControl" where
  "NewRealStatefulSetControl client statefulSetLister =
     \<lparr>rssc_client = client, rssc_statefulSetLister = statefulSetLister\<rparr>"

record 'k realPodControl =
  rpc_client :: 'k
  rpc_podLister :: "'k kube_informer"

definition NewRealPodControl :: "'k \<Rightarrow> 'k kube_informer \<Rightarrow> 'k realPodControl" where
  "NewRealPodControl client podLister = \<lparr>rpc_client = client, rpc_podLister = podLister\<rparr>"

section \<open>The controller\<close>

record 'k BrokerController =
  bc_opConfig :: OperatorOpts
  bc_kubeClient :: 'k
  bc_opClient :: Clientset
  bc_queue :: wq
  bc_clusterLister :: "informer brokerClusterLister"
  bc_clusterListerSynced :: informer
  bc_clusterUpdater :: clusterUpdater
  bc_statefulSetLister :: "'k kube_informer"
  bc_statefulSetListerSynced :: "'k kube_informer"
  bc_statefulSetControl :: "'k realStatefulSetControl"
  bc_podLister :: "'k kube_informer"
  bc_podListerSynced :: "'k kube_informer"
  bc_podControl :: "'k realPodControl"
  bc_serviceLister :: "'k kube_informer"
  bc_serviceListerSynced :: "'k kube_informer"
  bc_serviceControl :: "'k realServiceControl"

text \<open>
  The fields in the order the composite literal evaluates them; each use of an informer asks
  its factory for it. The handlers are added to the same informers afterwards.
\<close>

definition make_controller :: "OperatorOpts \<Rightarrow> Clientset \<Rightarrow> 'k \<Rightarrow> brokerClusterInformer \<Rightarrow> string
    \<Rightarrow> factory \<Rightarrow> 'k kube_factory \<Rightarrow> factory \<times> 'k kube_factory \<times> 'k BrokerController" where
  "make_controller opConfig opClient kubeClient clusterInformer namespace f0 k0 =
     (let (f1, clusterLister) = brokerClusterInformer_Lister clusterInformer f0;
          (f2, clusterSynced) = brokerClusterInformer_Informer clusterInformer f1;
          (f3, updaterLister) = brokerClusterInformer_Lister clusterInformer f2;
          (k1, serviceLister) = serviceInformer_Informer namespace k0;
          (k2, serviceSynced) = serviceInformer_Informer namespace k1;
          (k3, serviceControlLister) = serviceInformer_Informer namespace k2;
          (k4, setLister) = statefulSetInformer_Informer namespace k3;
          (k5, setSynced) = statefulSetInformer_Informer namespace k4;
          (k6, setControlLister) = statefulSetInformer_Informer namespace k5;
          (k7, podLister) = podInformer_Informer namespace k6;
          (k8, podSynced) = podInformer_Informer namespace k7;
          (k9, podControlLister) = podInformer_Informer namespace k8
      in (f3, k9,
          \<lparr>bc_opConfig = opConfig, bc_kubeClient = kubeClient, bc_opClient = opClient, bc_queue = NewQueue,
           bc_clusterLister = clusterLister, bc_clusterListerSynced = clusterSynced,
           bc_clusterUpdater = newClusterUpdater opClient updaterLister,
           bc_statefulSetLister = setLister, bc_statefulSetListerSynced = setSynced,
           bc_statefulSetControl = NewRealStatefulSetControl kubeClient setControlLister,
           bc_podLister = podLister, bc_podListerSynced = podSynced,
           bc_podControl = NewRealPodControl kubeClient podControlLister,
           bc_serviceLister = serviceLister, bc_serviceListerSynced = serviceSynced,
           bc_serviceControl = NewRealServiceControl kubeClient serviceControlLister\<rparr>))"

text \<open>The informers \<open>BrokerController.Run\<close> waits for, in the order it names them.\<close>

definition awaited :: "'k BrokerController \<Rightarrow> string list" where
  "awaited m =
     [inf_Type (bc_clusterListerSynced m), ki_Type (bc_statefulSetListerSynced m), ki_Type (bc_podListerSynced m),
      ki_Type (bc_serviceListerSynced m)]"

section \<open>Run\<close>

record 'k start_env =
  se_BuildConfigFromFlags :: "string \<Rightarrow> string \<Rightarrow> go_error + Config"
  se_rest :: rest_env
  se_KubeNewForConfigOrDie :: "Config \<Rightarrow> go_error + 'k"
  se_rand_kube :: rat
  se_rand_operator :: rat
  se_scheme :: scheme
  se_order :: "string list"
  se_kube_order :: "string list"

record 'k system =
  sy_factory :: factory
  sy_kube_factory :: "'k kube_factory"
  sy_controller :: "'k BrokerController"

text \<open>
  \<open>app.Run\<close> between the signal handler and the wait: clients, factories, the controller, and
  the start of both factories. \<open>None\<close> is a panic, of a client's constructor or of the
  registration with the scheme.
\<close>

definition build_system :: "'k start_env \<Rightarrow> OperatorOpts \<Rightarrow> Config \<Rightarrow> 'k system option" where
  "build_system env s kubeconfig =
     (case se_KubeNewForConfigOrDie env kubeconfig of
        Inl _ \<Rightarrow> None
      | Inr kubeClient \<Rightarrow>
     (case NewForConfigOrDie (se_rest env) kubeconfig of
        Inl _ \<Rightarrow> None
      | Inr opClient \<Rightarrow>
          (let kubeFactory = kube_NewFilteredSharedInformerFactory kubeClient (resyncPeriod s (se_rand_kube env)) (OptNamespace s);
               operatorFactory = NewFilteredSharedInformerFactory opClient (resyncPeriod s (se_rand_operator env)) (OptNamespace s) None;
               clusterInformer = version_BrokerClusters (V1alpha1 (factory_ROCKETMQ operatorFactory))
           in case AddToScheme localSchemeBuilder (se_scheme env) of
                None \<Rightarrow> None
              | Some _ \<Rightarrow>
                  (case make_controller s opClient kubeClient clusterInformer (OptNamespace s) operatorFactory kubeFactory of
                     (f, k, m) \<Rightarrow>
                       Some \<lparr>sy_factory = Start (se_order env) f, sy_kube_factory = kube_Start (se_kube_order env) k,
                             sy_controller = m\<rparr>))))"

text \<open>The types of the running informers.\<close>

definition running :: "'k system \<Rightarrow> string list" where
  "running sys = map inf_Type (fa_runs (sy_factory sys)) @ map ki_Type (kf_runs (sy_kube_factory sys))"

section \<open>What the controller is made of\<close>

lemma kube_InformerFor_parts:
  "kube_InformerFor t new f = (f', i) \<Longrightarrow> kf_informers f' t = Some i"
  "kube_InformerFor t new f = (f', i) \<Longrightarrow> kf_informers f t = Some j \<Longrightarrow> f' = f \<and> i = j"
  by (auto simp: kube_InformerFor_def Let_def split: option.splits)

definition the_informer :: "'k kube_factory \<Rightarrow> string \<Rightarrow> string \<Rightarrow> 'k kube_informer" where
  "the_informer k ns t = \<lparr>ki_client = kf_client k, ki_Type = t, ki_Namespace = ns, ki_Resync = kf_defaultResync k\<rparr>"

lemma kube_Informer_new:
  "kf_informers k t = None \<Longrightarrow>
     kube_Informer t ns k = (k\<lparr>kf_informers := (kf_informers k)(t \<mapsto> the_informer k ns t)\<rparr>, the_informer k ns t)"
  by (simp add: kube_Informer_def kube_InformerFor_def the_informer_def Let_def)

lemma kube_Informer_again: "kf_informers k t = Some i \<Longrightarrow> kube_Informer t ns k = (k, i)"
  by (simp add: kube_Informer_def kube_InformerFor_def)

lemma type_names_distinct [simp]:
  "StatefulSetType \<noteq> PodType" "PodType \<noteq> ServiceType" "StatefulSetType \<noteq> ServiceType"
  "PodType \<noteq> StatefulSetType" "ServiceType \<noteq> PodType" "ServiceType \<noteq> StatefulSetType"
  by (simp_all add: StatefulSetType_def PodType_def ServiceType_def)

text \<open>The three informers of a new factory after the controller has asked for them.\<close>

definition three_informers :: "'k kube_factory \<Rightarrow> string \<Rightarrow> string \<rightharpoonup> 'k kube_informer" where
  "three_informers k ns =
     [ServiceType \<mapsto> the_informer k ns ServiceType, StatefulSetType \<mapsto> the_informer k ns StatefulSetType,
      PodType \<mapsto> the_informer k ns PodType]"

lemma the_informer_upd [simp]: "the_informer (k\<lparr>kf_informers := m\<rparr>) = the_informer k"
  by (simp add: the_informer_def fun_eq_iff)

lemma make_controller_eq:
  assumes "kf_informers k0 = Map.empty" and "brokerClusterInformer_Informer b f0 = (f1, i)"
  shows "make_controller s opClient kubeClient b ns f0 k0 =
    (f1, k0\<lparr>kf_informers := three_informers k0 ns\<rparr>,
     \<lparr>bc_opConfig = s, bc_kubeClient = kubeClient, bc_opClient = opClient, bc_queue = NewQueue,
      bc_clusterLister = NewBrokerClusterLister i, bc_clusterListerSynced = i,
      bc_clusterUpdater = newClusterUpdater opClient (NewBrokerClusterLister i),
      bc_statefulSetLister = the_informer k0 ns StatefulSetType,
      bc_statefulSetListerSynced = the_informer k0 ns StatefulSetType,
      bc_statefulSetControl = NewRealStatefulSetControl kubeClient (the_informer k0 ns StatefulSetType),
      bc_podLister = the_informer k0 ns PodType, bc_podListerSynced = the_informer k0 ns PodType,
      bc_podControl = NewRealPodControl kubeClient (the_informer k0 ns PodType),
      bc_serviceLister = the_informer k0 ns ServiceType, bc_serviceListerSynced = the_informer k0 ns ServiceType,
      bc_serviceControl = NewRealServiceControl kubeClient (the_informer k0 ns ServiceType)\<rparr>)"
proof -
  have again: "brokerClusterInformer_Informer b f1 = (f1, i)"
    using assms(2)
    by (auto simp: brokerClusterInformer_Informer_def InformerFor_def Let_def split: option.splits)
  show ?thesis
    using assms(1)
    by (simp add: make_controller_def assms(2) again brokerClusterInformer_Lister_def serviceInformer_Informer_def
        statefulSetInformer_Informer_def podInformer_Informer_def kube_Informer_new kube_Informer_again
        three_informers_def)
qed

section \<open>What runs\<close>

definition kube_ok :: "'k kube_factory \<Rightarrow> bool" where
  "kube_ok f \<longleftrightarrow>
     (\<forall>t i. kf_informers f t = Some i \<longrightarrow> ki_Type i = t) \<and>
     (\<forall>i \<in> set (kf_runs f). kf_informers f (ki_Type i) = Some i) \<and>
     distinct (map ki_Type (kf_runs f)) \<and>
     ki_Type ` set (kf_runs f) = {t. kf_startedInformers f t}"

lemma kube_start_one_ok: "kube_ok f \<Longrightarrow> kube_ok (kube_start_one t f)"
  by (auto simp: kube_ok_def kube_start_one_def split: option.split)

lemma kube_start_one_parts [simp]:
  "kf_informers (kube_start_one t f) = kf_informers f"
  "kf_startedInformers (kube_start_one t f) t' \<longleftrightarrow> kf_startedInformers f t' \<or> (t' = t \<and> kf_informers f t \<noteq> None)"
  by (auto simp: kube_start_one_def split: option.split)

lemma kube_Start_parts:
  "kf_informers (kube_Start order f) = kf_informers f"
  "kf_startedInformers (kube_Start order f) t \<longleftrightarrow>
     kf_startedInformers f t \<or> (t \<in> set order \<and> kf_informers f t \<noteq> None)"
  "kube_ok f \<Longrightarrow> kube_ok (kube_Start order f)"
  by (induction order arbitrary: f) (auto simp: kube_Start_def kube_start_one_ok)

text \<open>\<open>range\<close> visits every entry of the map, in some order.\<close>

definition visits_all :: "'k start_env \<Rightarrow> bool" where
  "visits_all env \<longleftrightarrow> BrokerClusterType \<in> set (se_order env) \<and>
     StatefulSetType \<in> set (se_kube_order env) \<and> PodType \<in> set (se_kube_order env) \<and>
     ServiceType \<in> set (se_kube_order env)"

lemma build_system_shape:
  assumes "build_system env s cfg = Some sys"
  obtains kube op where "se_KubeNewForConfigOrDie env cfg = Inr kube"
    "NewForConfigOrDie (se_rest env) cfg = Inr op"
    "sy_factory sys =
       (let f = fst (ClusterInformer (NewFilteredSharedInformerFactory op (resyncPeriod s (se_rand_operator env))
                  (OptNamespace s) None)) in Start (se_order env) f)"
    "sy_kube_factory sys =
       (let k0 = kube_NewFilteredSharedInformerFactory kube (resyncPeriod s (se_rand_kube env)) (OptNamespace s);
            k = k0\<lparr>kf_informers := three_informers k0 (OptNamespace s)\<rparr> in kube_Start (se_kube_order env) k)"
    "bc_clusterListerSynced (sy_controller sys) =
       snd (ClusterInformer (NewFilteredSharedInformerFactory op (resyncPeriod s (se_rand_operator env))
              (OptNamespace s) None))"
    "bc_clusterUpdater (sy_controller sys) = \<lparr>cu_client = op, cu_lister = bc_clusterLister (sy_controller sys)\<rparr>"
    "bc_clusterLister (sy_controller sys) = NewBrokerClusterLister (bc_clusterListerSynced (sy_controller sys))"
    "tl (awaited (sy_controller sys)) = [StatefulSetType, PodType, ServiceType]"
proof -
  obtain kube op where c: "se_KubeNewForConfigOrDie env cfg = Inr kube" "NewForConfigOrDie (se_rest env) cfg = Inr op"
    using assms by (auto simp: build_system_def split: sum.splits)
  let ?k0 = "kube_NewFilteredSharedInformerFactory kube (resyncPeriod s (se_rand_kube env)) (OptNamespace s)"
  let ?f0 = "NewFilteredSharedInformerFactory op (resyncPeriod s (se_rand_operator env)) (OptNamespace s) None"
  let ?b = "version_BrokerClusters (V1alpha1 (factory_ROCKETMQ ?f0))"
  obtain f1 i where i: "brokerClusterInformer_Informer ?b ?f0 = (f1, i)" by fastforce
  have empty: "kf_informers ?k0 = Map.empty" by (simp add: kube_NewFilteredSharedInformerFactory_def)
  show thesis
    using assms that [OF c] i
    by (auto simp: build_system_def c make_controller_eq [OF empty i] ClusterInformer_def Let_def awaited_def
        newClusterUpdater_def the_informer_def split: option.splits)
qed

lemma three_informers_at: "three_informers k ns t = Some i \<Longrightarrow> i = the_informer k ns t"
  by (auto simp: three_informers_def split: if_splits)

lemma three_informers_upd [simp]: "three_informers (k\<lparr>kf_informers := m\<rparr>) = three_informers k"
  by (simp add: three_informers_def fun_eq_iff)

lemma running_kube:
  fixes k0 :: "'k kube_factory"
  assumes "kf_runs k0 = []" "kf_startedInformers k0 = (\<lambda>_. False)" and order: "dom (three_informers k0 ns) \<subseteq> set order"
  defines "k \<equiv> kube_Start order (k0\<lparr>kf_informers := three_informers k0 ns\<rparr>)"
  shows "set (map ki_Type (kf_runs k)) = {StatefulSetType, PodType, ServiceType}" "distinct (map ki_Type (kf_runs k))"
    and "i \<in> set (kf_runs k) \<Longrightarrow> i = the_informer k0 ns (ki_Type i)"
proof -
  have "kube_ok (k0\<lparr>kf_informers := three_informers k0 ns\<rparr>)"
    using assms(1,2) three_informers_at [of k0 ns] by (fastforce simp: kube_ok_def the_informer_def)
  then have ok: "kube_ok k" unfolding k_def by (rule kube_Start_parts(3))
  have inf: "kf_informers k = three_informers k0 ns" by (simp add: k_def kube_Start_parts)
  have "{t. kf_startedInformers k t} = dom (three_informers k0 ns)"
    using order assms(2) by (auto simp: k_def kube_Start_parts dom_def)
  also have "\<dots> = {StatefulSetType, PodType, ServiceType}"
    by (auto simp: three_informers_def split: if_splits)
  finally show "set (map ki_Type (kf_runs k)) = {StatefulSetType, PodType, ServiceType}"
    "distinct (map ki_Type (kf_runs k))"
    using ok by (simp_all add: kube_ok_def)
  show "i \<in> set (kf_runs k) \<Longrightarrow> i = the_informer k0 ns (ki_Type i)"
    using ok three_informers_at [of k0 ns "ki_Type i" i] unfolding inf kube_ok_def by blast
qed

lemma new_cluster_informer:
  fixes ns :: string and op :: Clientset and d :: time
  defines "f0 \<equiv> NewFilteredSharedInformerFactory op d ns None"
  obtains i where "ClusterInformer f0 = (f0\<lparr>fa_informers := [BrokerClusterType \<mapsto> i]\<rparr>, i)"
    "inf_Type i = BrokerClusterType" "inf_Namespace i = ns" "inf_Resync i = d" "inf_client i = op"
    "fa_runs f0 = []" "fa_startedInformers f0 = (\<lambda>_. False)"
proof -
  show thesis
    by (rule that [of "snd (ClusterInformer f0)"])
       (simp_all add: f0_def NewFilteredSharedInformerFactory_def NewSharedInformerFactoryWithOptions_def
        WithNamespace_def WithTweakListOptions_def ClusterInformer_def brokerClusterInformer_Informer_def InformerFor_def
        version_BrokerClusters_def V1alpha1_def v1alpha1_New_def factory_ROCKETMQ_def rocketmq_New_def
        Let_def brokerClusterInformer_defaultInformer_def NewFilteredBrokerClusterInformer_def)
qed

lemma running_cluster:
  assumes "fa_runs f = []" "fa_startedInformers f = (\<lambda>_. False)" "fa_informers f = [t \<mapsto> i]" "t \<in> set order"
  shows "fa_runs (Start order f) = [i]"
proof -
  let ?g = "Start order f"
  have "factory_ok f" using assms by (simp add: factory_ok_def)
  then have "factory_ok ?g" by (rule Start_ok)
  then obtain ts where ts: "distinct ts" "set ts = {t. fa_startedInformers ?g t}"
    "fa_runs ?g = map (\<lambda>t. the (fa_informers ?g t)) ts"
    by (auto simp: factory_ok_def)
  have "set ts = {t}" using ts(2) assms by (auto simp: Start_parts split: if_splits)
  with ts(1) have "ts = [t]" by (metis distinct.simps(2) empty_iff empty_set insert_iff list.set_cases list.simps(15) neq_Nil_conv set_ConsD singletonD)
  with ts(3) assms show ?thesis by (simp add: Start_parts)
qed

lemma system_informers:
  fixes env :: "'k start_env"
  assumes built: "build_system env s cfg = Some sys" and order: "visits_all env"
  obtains i where "fa_runs (sy_factory sys) = [i]" "inf_Namespace i = OptNamespace s"
      "inf_Resync i = resyncPeriod s (se_rand_operator env)" "bc_clusterListerSynced (sy_controller sys) = i"
    and "\<And>j. j \<in> set (kf_runs (sy_kube_factory sys)) \<Longrightarrow>
      ki_Namespace j = OptNamespace s \<and> ki_Resync j = resyncPeriod s (se_rand_kube env)"
    and "set (running sys) = set (awaited (sy_controller sys))" "distinct (running sys)"
    and "bc_clusterLister (sy_controller sys) = NewBrokerClusterLister i"
      "cu_lister (bc_clusterUpdater (sy_controller sys)) = bc_clusterLister (sy_controller sys)"
proof (rule build_system_shape [OF built])
  fix kube :: 'k and op
  let ?rk = "resyncPeriod s (se_rand_kube env)" and ?ro = "resyncPeriod s (se_rand_operator env)"
  let ?kube = "kube_NewFilteredSharedInformerFactory kube ?rk (OptNamespace s)"
  let ?fac = "NewFilteredSharedInformerFactory op ?ro (OptNamespace s) None"
  assume fac: "sy_factory sys = (let f = fst (ClusterInformer ?fac) in Start (se_order env) f)"
    and kfac: "sy_kube_factory sys = (let k0 = ?kube; k = k0\<lparr>kf_informers := three_informers k0 (OptNamespace s)\<rparr>
       in kube_Start (se_kube_order env) k)"
    and ctl: "bc_clusterListerSynced (sy_controller sys) = snd (ClusterInformer ?fac)"
      "bc_clusterUpdater (sy_controller sys) = \<lparr>cu_client = op, cu_lister = bc_clusterLister (sy_controller sys)\<rparr>"
      "bc_clusterLister (sy_controller sys) = NewBrokerClusterLister (bc_clusterListerSynced (sy_controller sys))"
      "tl (awaited (sy_controller sys)) = [StatefulSetType, PodType, ServiceType]"
  obtain i where i: "ClusterInformer ?fac = (?fac\<lparr>fa_informers := [BrokerClusterType \<mapsto> i]\<rparr>, i)"
    "inf_Type i = BrokerClusterType" "inf_Namespace i = OptNamespace s" "inf_Resync i = ?ro"
    "fa_runs ?fac = []" "fa_startedInformers ?fac = (\<lambda>_. False)"
    by (rule new_cluster_informer)
  let ?f = "?fac\<lparr>fa_informers := [BrokerClusterType \<mapsto> i]\<rparr>"
  have "BrokerClusterType \<in> set (se_order env)" using order by (simp add: visits_all_def)
  then have runs: "fa_runs (sy_factory sys) = [i]"
    unfolding fac Let_def i(1) fst_conv by (intro running_cluster) (simp_all add: i)
  let ?k = "?kube\<lparr>kf_informers := three_informers ?kube (OptNamespace s)\<rparr>"
  have dom: "dom (three_informers ?kube (OptNamespace s)) \<subseteq> set (se_kube_order env)"
    using order by (auto simp: visits_all_def three_informers_def split: if_splits)
  have new: "kf_runs ?kube = []" "kf_startedInformers ?kube = (\<lambda>_. False)" "kf_defaultResync ?kube = ?rk"
    by (simp_all add: kube_NewFilteredSharedInformerFactory_def)
  have kf: "sy_kube_factory sys = kube_Start (se_kube_order env) ?k" by (simp only: kfac Let_def)
  note kube = running_kube [OF new(1,2) dom, folded kf]
  have "BrokerClusterType \<notin> {StatefulSetType, PodType, ServiceType}"
    by (simp add: BrokerClusterType_def StatefulSetType_def PodType_def ServiceType_def)
  moreover have awaited: "awaited (sy_controller sys) = [BrokerClusterType, StatefulSetType, PodType, ServiceType]"
    using ctl(1,4) i(1,2) by (simp add: awaited_def)
  moreover have "ki_Namespace j = OptNamespace s \<and> ki_Resync j = ?rk" if "j \<in> set (kf_runs (sy_kube_factory sys))" for j
    using kube(3) [OF that] new(3) by (metis kube_informer.select_convs(3,4) the_informer_def)
  ultimately show thesis
    using that [of i] runs kube(1,2) i(2-4) ctl(1-3)
    by (auto simp: running_def i(1))
qed

lemma running_awaited:
  "build_system env s cfg = Some sys \<Longrightarrow> visits_all env \<Longrightarrow>
     set (awaited (sy_controller sys)) \<subseteq> set (running sys)"
  by (rule system_informers, assumption+) (rule equalityD2)


text \<open>A cluster reached through a master URL; both clients can be made.\<close>

definition sample_config :: Config where
  "sample_config =
     \<lparr>cfg_Rest = '''', cfg_APIPath = '''', cfg_GroupVersion = None, cfg_NegotiatedSerializer = None,
      cfg_UserAgent = '''', cfg_QPS = 0, cfg_Burst = 0, cfg_RateLimiter = None\<rparr>"

definition sample_start :: "unit start_env" where
  "sample_start =
     \<lparr>se_BuildConfigFromFlags =
        (\<lambda>master kubeconfig. if master = '''' then Inl (MessageError ''invalid configuration'') else Inr sample_config),
      se_rest = \<lparr>env_RESTClientFor = (\<lambda>_. Inr sample_rest), env_NewDiscoveryClientForConfig = (\<lambda>_. Inr sample_rest),
        env_DefaultKubernetesUserAgent = ''rocketmq-operator''\<rparr>,
      se_KubeNewForConfigOrDie = (\<lambda>_. Inr ()), se_rand_kube = 0, se_rand_operator = 1 / 2, se_scheme = NewScheme,
      se_order = [BrokerClusterType], se_kube_order = [PodType, ServiceType, StatefulSetType]\<rparr>"

lemma sample_start_config:
  "master \<noteq> '''' \<Longrightarrow> se_BuildConfigFromFlags sample_start master kc = Inr sample_config"
  by (simp add: sample_start_def)

definition sample_opts :: OperatorOpts where
  "sample_opts = empty_opts\<lparr>Master := ''https://10.0.0.1'', OptNamespace := ''prod'', MinResyncPeriod := twelveHours\<rparr>"

lemma sample_built: "\<exists>sys. build_system sample_start s sample_config = Some sys"
proof -
  have "AddToScheme localSchemeBuilder NewScheme \<noteq> None" by code_simp
  then show ?thesis
    by (auto simp: build_system_def sample_start_def NewForConfigOrDie_def ROCKETMQ_NewForConfigOrDie_def
        ROCKETMQ_NewForConfig_def Let_def split: prod.split)
qed


end
