(* ===== verification/Operator_Run.thy ===== *)
theory Operator_Run
  imports Start_Up
begin

text \<open>
  The life of the operator process: \<open>app.Run\<close>, \<open>BrokerController.Run\<close>, \<open>WaitForCacheSync\<close>
  and the signal handler.

  The process is a state machine. Each step is one of: the main goroutine starts up or
  notices that everything is over, a running informer finishes its first listing, the controller's
  goroutine makes its next move, a signal arrives, or the work queue changes. The
  controller's goroutine is polling the caches, working, or has returned. The first signal
  cancels the context, the second ends the process with exit code 1.
\<close>

section \<open>Waiting for the caches\<close>

text \<open>
  One round of \<open>cache.WaitForCacheSync\<close>: the functions are asked in order until one says no.
  The condition is also evaluated once after the stop channel is closed, so a wait that is
  stopped may still succeed. \<open>None\<close> means that the next tick is awaited.
\<close>

fun all_synced :: "bool list \<Rightarrow> bool" where
  "all_synced [] = True"
| "all_synced (s # ss) = (if \<not> s then False else all_synced ss)"

definition cache_WaitForCacheSync :: "bool \<Rightarrow> bool list \<Rightarrow> bool option" where
  "cache_WaitForCacheSync stopped syncs =
     (if all_synced syncs then Some True else if stopped then Some False else None)"

text \<open>The wrapper reports a failed wait.\<close>

definition WaitForCacheSync :: "string \<Rightarrow> bool \<Rightarrow> bool list \<Rightarrow> (bool \<times> go_error list) option" where
  "WaitForCacheSync controllerName stopped syncs =
     (case cache_WaitForCacheSync stopped syncs of
        None \<Rightarrow> None
      | Some ok \<Rightarrow>
          (if \<not> ok then Some (False, [MessageError (''Unable to sync caches for '' @ controllerName @ '' controller'')])
           else Some (True, [])))"

definition NoResyncPeriodFunc :: time where
  "NoResyncPeriodFunc = 0"

lemma all_synced_set [simp]: "all_synced ss \<longleftrightarrow> (\<forall>s \<in> set ss. s)"
  by (induction ss) auto

section \<open>The process\<close>

datatype phase = NotStarted | Syncing | Working | Finished

text \<open>
  \<open>pr_awaited\<close> are the informers the controller waits for, \<open>pr_synced\<close> which of them have
  finished their first listing, \<open>pr_running\<close> the informers the factories have started.
\<close>

record process =
  pr_phase :: phase
  pr_handler :: bool
  pr_signals :: nat
  pr_cancelled :: bool
  pr_running :: "string list"
  pr_awaited :: "string list"
  pr_synced :: "bool list"
  pr_workers :: nat
  pr_queue :: wq
  pr_errors :: "go_error list"
  pr_exit :: "int option"

definition initial_process :: process where
  "initial_process =
     \<lparr>pr_phase = NotStarted, pr_handler = False, pr_signals = 0, pr_cancelled = False, pr_running = [],
      pr_awaited = [], pr_synced = [False, False, False, False], pr_workers = 0, pr_queue = NewQueue,
      pr_errors = [], pr_exit = None\<rparr>"

text \<open>\<open>close(onlyOneSignalHandler)\<close> panics the second time.\<close>

definition SetupSignalHandler :: "process \<Rightarrow> process option" where
  "SetupSignalHandler p = (if pr_handler p then None else Some (p\<lparr>pr_handler := True\<rparr>))"

text \<open>The handler's goroutine: the first signal cancels, the second exits.\<close>

definition deliver_signal :: "process \<Rightarrow> process" where
  "deliver_signal p =
     (if pr_signals p = 0 then p\<lparr>pr_signals := 1, pr_cancelled := True\<rparr>
      else if pr_signals p = 1 then p\<lparr>pr_signals := 2, pr_exit := Some 1\<rparr>
      else p)"

text \<open>
  \<open>app.Run\<close> until it waits for the context: build the client configuration, set up signals,
  make clients, factories and the controller, start its goroutine and both informer
  factories. An error makes \<open>main\<close> exit with 1, a panic ends the process with 2.
\<close>

definition app_Run :: "'k start_env \<Rightarrow> OperatorOpts \<Rightarrow> process \<Rightarrow> process" where
  "app_Run env s p =
     (case se_BuildConfigFromFlags env (Master s) (KubeConfig s) of
        Inl err \<Rightarrow> p\<lparr>pr_exit := Some 1\<rparr>
      | Inr kubeconfig \<Rightarrow>
     (case SetupSignalHandler p of
        None \<Rightarrow> p\<lparr>pr_exit := Some 2\<rparr>
      | Some p1 \<Rightarrow>
     (case build_system env s kubeconfig of
        None \<Rightarrow> p1\<lparr>pr_exit := Some 2\<rparr>
      | Some sys \<Rightarrow>
          p1\<lparr>pr_phase := Syncing, pr_running := running sys, pr_awaited := awaited (sy_controller sys)\<rparr>)))"

text \<open>
  \<open>main\<close>: options from the file, flags, \<open>app.Run\<close>. The flag package exits with 2 when it cannot
  parse the command line, \<open>glog.Fatalf\<close> with 255.
\<close>

definition main_process :: "host \<Rightarrow> (opt_flag \<times> string) list \<Rightarrow> 'k start_env \<Rightarrow> process \<Rightarrow> process" where
  "main_process h args env p =
     (case NewOperatorOpts h configPath of
        Failed err \<Rightarrow> p\<lparr>pr_exit := Some 1\<rparr>
      | Fatal m \<Rightarrow> p\<lparr>pr_exit := Some 255\<rparr>
      | Loaded opts \<Rightarrow>
          (case parse_flags h args (fst (AddFlags opts)) of
             Inl err \<Rightarrow> p\<lparr>pr_exit := Some 2\<rparr>
           | Inr opts' \<Rightarrow> app_Run env opts' p))"

text \<open>
  \<open>BrokerController.Run\<close>: wait for the caches, start \<open>threadiness\<close> workers, wait for the
  context; the queue is shut down on every way out.
\<close>

definition threadiness :: nat where
  "threadiness = 5"

definition controller_Run :: "process \<Rightarrow> process" where
  "controller_Run p =
     (case pr_phase p of
        Syncing \<Rightarrow>
          (case WaitForCacheSync ''rocketmq cluster'' (pr_cancelled p) (pr_synced p) of
             None \<Rightarrow> p
           | Some (ok, errs) \<Rightarrow>
               (let p1 = p\<lparr>pr_errors := pr_errors p @ errs\<rparr> in
                if \<not> ok then p1\<lparr>pr_queue := ShutDown (pr_queue p1), pr_phase := Finished\<rparr>
                else p1\<lparr>pr_workers := threadiness, pr_phase := Working\<rparr>))
      | Working \<Rightarrow>
          (if pr_cancelled p then p\<lparr>pr_queue := ShutDown (pr_queue p), pr_phase := Finished\<rparr> else p)
      | _ \<Rightarrow> p)"

text \<open>\<open>wg.Wait()\<close> returns when the controller's goroutine has; then \<open>Run\<close> returns nil.\<close>

definition main_wait :: "process \<Rightarrow> process" where
  "main_wait p = (if pr_cancelled p \<and> pr_phase p = Finished then p\<lparr>pr_exit := Some 0\<rparr> else p)"

inductive process_step :: "host \<Rightarrow> (opt_flag \<times> string) list \<Rightarrow> 'k start_env \<Rightarrow> process \<Rightarrow> process \<Rightarrow> bool"
  for h args env where
  start_up: "pr_exit p = None \<Longrightarrow> pr_phase p = NotStarted \<Longrightarrow> process_step h args env p (main_process h args env p)"
| informer_synced: "pr_exit p = None \<Longrightarrow> i < length (pr_awaited p) \<Longrightarrow> i < length (pr_synced p) \<Longrightarrow>
     pr_awaited p ! i \<in> set (pr_running p) \<Longrightarrow>
     process_step h args env p (p\<lparr>pr_synced := (pr_synced p)[i := True]\<rparr>)"
| signal: "pr_exit p = None \<Longrightarrow> pr_handler p \<Longrightarrow> process_step h args env p (deliver_signal p)"
| controller: "pr_exit p = None \<Longrightarrow> process_step h args env p (controller_Run p)"
| queue_op: "pr_exit p = None \<Longrightarrow> process_step h args env p (p\<lparr>pr_queue := run_op a (pr_queue p)\<rparr>)"
| over: "pr_exit p = None \<Longrightarrow> process_step h args env p (main_wait p)"

inductive_cases process_stepE: "process_step h args env p p'"

inductive process_reachable :: "host \<Rightarrow> (opt_flag \<times> string) list \<Rightarrow> 'k start_env \<Rightarrow> process \<Rightarrow> bool"
  for h args env where
  init: "process_reachable h args env initial_process"
| next_state: "process_reachable h args env p \<Longrightarrow> process_step h args env p p' \<Longrightarrow> process_reachable h args env p'"

section \<open>Properties\<close>

text \<open>An exited process makes no step.\<close>

lemma exited_is_final: "pr_exit p = Some n \<Longrightarrow> \<not> process_step h args env p p'"
  by (auto elim: process_stepE)

definition process_ok :: "process \<Rightarrow> bool" where
  "process_ok p \<longleftrightarrow>
     (pr_phase p = NotStarted \<and> pr_exit p = None \<longrightarrow> \<not> pr_handler p \<and> pr_signals p = 0) \<and>
     length (pr_synced p) = 4 \<and>
     (pr_cancelled p \<longleftrightarrow> 1 \<le> pr_signals p) \<and>
     (pr_workers p \<noteq> 0 \<longrightarrow> pr_workers p = threadiness \<and> all_synced (pr_synced p)) \<and>
     (pr_phase p = Working \<longrightarrow> pr_workers p = threadiness) \<and>
     (pr_phase p = Finished \<longrightarrow> pr_cancelled p \<and> q_shuttingDown (pr_queue p)) \<and>
     (pr_exit p = Some 0 \<longrightarrow> pr_phase p = Finished) \<and>
     wq_ok (pr_queue p)"

lemma run_op_shuttingDown: "q_shuttingDown q \<Longrightarrow> q_shuttingDown (run_op a q)"
  by (cases a)
     (auto simp: Add_sets Done_sets Get_def Forget_def ShutDown_def fire_def AddRateLimited_def When_def
      AddAfter_def Let_def split: list.split option.split)

lemma deliver_signal_ok: "process_ok p \<Longrightarrow> pr_exit p = None \<Longrightarrow> pr_handler p \<Longrightarrow> process_ok (deliver_signal p)"
  by (auto simp: process_ok_def deliver_signal_def)

lemma controller_Run_cases:
  "controller_Run p =
     (case pr_phase p of
        Syncing \<Rightarrow>
          (if all_synced (pr_synced p) then p\<lparr>pr_workers := threadiness, pr_phase := Working\<rparr>
           else if pr_cancelled p
           then p\<lparr>pr_errors := pr_errors p @
                    [MessageError (''Unable to sync caches for rocketmq cluster controller'')],
                  pr_queue := ShutDown (pr_queue p), pr_phase := Finished\<rparr>
           else p)
      | Working \<Rightarrow> (if pr_cancelled p then p\<lparr>pr_queue := ShutDown (pr_queue p), pr_phase := Finished\<rparr> else p)
      | _ \<Rightarrow> p)"
  by (cases "all_synced (pr_synced p)"; cases "pr_phase p"; cases "pr_cancelled p")
     (simp_all add: controller_Run_def WaitForCacheSync_def cache_WaitForCacheSync_def Let_def
       del: all_synced_set)

lemma ShutDown_parts: "q_shuttingDown (ShutDown q)" "wq_ok (ShutDown q) = wq_ok q"
  by (simp_all add: ShutDown_def wq_ok_def)

lemma controller_Run_ok:
  assumes ok: "process_ok p" and "pr_exit p = None"
  shows "process_ok (controller_Run p)"
proof (cases "pr_phase p")
  case Syncing
  then show ?thesis
    using assms by (cases "all_synced (pr_synced p)"; cases "pr_cancelled p")
      (simp_all add: controller_Run_cases process_ok_def ShutDown_parts del: all_synced_set)
next
  case Working
  then show ?thesis
    using assms by (cases "pr_cancelled p")
      (simp_all add: controller_Run_cases process_ok_def ShutDown_parts del: all_synced_set)
qed (use ok in \<open>simp_all add: controller_Run_cases\<close>)

lemma app_Run_ok: "process_ok p \<Longrightarrow> pr_exit p = None \<Longrightarrow> pr_phase p = NotStarted \<Longrightarrow> process_ok (app_Run env s p)"
  by (auto simp: process_ok_def app_Run_def SetupSignalHandler_def split: option.split sum.split)

lemma main_process_ok:
  "process_ok p \<Longrightarrow> pr_exit p = None \<Longrightarrow> pr_phase p = NotStarted \<Longrightarrow> process_ok (main_process h args env p)"
proof -
  assume p: "process_ok p" "pr_exit p = None" "pr_phase p = NotStarted"
  have "process_ok (p\<lparr>pr_exit := Some n\<rparr>)" if "n \<noteq> 0" for n
    using p that unfolding process_ok_def by auto
  moreover have "process_ok (app_Run env s p)" for s using p by (rule app_Run_ok)
  ultimately show ?thesis by (simp add: main_process_def split: loaded.split sum.split)
qed

lemma process_step_ok:
  assumes "process_step h args env p p'" "process_ok p"
  shows "process_ok p'"
  using assms
proof (induction rule: process_step.induct)
  case (informer_synced p i)
  have "all_synced ((pr_synced p)[i := True])" if "all_synced (pr_synced p)"
    using that set_update_subset_insert [of "pr_synced p" i True] by auto
  with informer_synced show ?case by (simp add: process_ok_def del: all_synced_set) blast
next
  case (queue_op p a)
  then show ?case using run_op_ok run_op_shuttingDown by (auto simp: process_ok_def)
next
  case (over p)
  then show ?case by (auto simp: process_ok_def main_wait_def)
qed (simp_all add: deliver_signal_ok controller_Run_ok main_process_ok)

lemma process_reachable_ok: "process_reachable h args env p \<Longrightarrow> process_ok p"
proof (induction rule: process_reachable.induct)
  case init
  show ?case by (simp add: process_ok_def initial_process_def NewQueue_ok)
next
  case (next_state p p')
  then show ?case by (blast intro: process_step_ok)
qed

text \<open>
  C32: Start-up and shutdown. In every reachable state of the process: workers run only when
  all four informers have synced, and then there are five; the controller's goroutine has
  returned only after a signal, and then the queue is shut down; the process exits with 0
  only after that, never while the controller is still syncing or working.
\<close>

theorem process_safety:
  assumes "process_reachable h args env p"
  shows "(pr_workers p \<noteq> 0 \<longrightarrow> pr_workers p = 5 \<and> (\<forall>s \<in> set (pr_synced p). s)) \<and>
    (pr_phase p = Finished \<longrightarrow> 1 \<le> pr_signals p \<and> q_shuttingDown (pr_queue p)) \<and>
    (pr_exit p = Some 0 \<longrightarrow> pr_phase p = Finished)"
  using process_reachable_ok [OF assms] by (auto simp: process_ok_def threadiness_def)

lemma process_reachable_steps:
  "(process_step h args env)\<^sup>*\<^sup>* p p' \<Longrightarrow> process_reachable h args env p \<Longrightarrow> process_reachable h args env p'"
  by (induction rule: rtranclp_induct) (auto intro: next_state)

text \<open>Once the controller's goroutine has been started, what it waits for runs.\<close>

definition nothing_missing :: "process \<Rightarrow> bool" where
  "nothing_missing p \<longleftrightarrow>
     (pr_phase p \<noteq> NotStarted \<longrightarrow> length (pr_awaited p) = 4 \<and> set (pr_awaited p) \<subseteq> set (pr_running p))"

lemma same_informers [simp]:
  "pr_running (controller_Run p) = pr_running p" "pr_awaited (controller_Run p) = pr_awaited p"
  "pr_running (deliver_signal p) = pr_running p" "pr_awaited (deliver_signal p) = pr_awaited p"
  "pr_running (main_wait p) = pr_running p" "pr_awaited (main_wait p) = pr_awaited p"
  "pr_phase (deliver_signal p) = pr_phase p" "pr_phase (main_wait p) = pr_phase p"
  "pr_phase (controller_Run p) = NotStarted \<longleftrightarrow> pr_phase p = NotStarted"
  by (auto simp: controller_Run_cases deliver_signal_def main_wait_def split: phase.split)

lemma main_process_missing:
  assumes "visits_all env" "pr_phase p = NotStarted"
  shows "nothing_missing (main_process h args env p)"
proof -
  have "nothing_missing (app_Run env s p)" for s
    using assms running_awaited [OF _ assms(1)]
    by (auto simp: app_Run_def nothing_missing_def SetupSignalHandler_def awaited_def split: option.split sum.split)
  then show ?thesis
    using assms by (auto simp: main_process_def nothing_missing_def split: loaded.split sum.split)
qed

lemma process_reachable_missing:
  assumes "process_reachable h args env p" "visits_all env"
  shows "nothing_missing p"
  using assms(1)
proof (induction rule: process_reachable.induct)
  case init
  show ?case by (simp add: nothing_missing_def initial_process_def)
next
  case (next_state p p')
  from next_state(2,3) show ?case
    by (cases rule: process_step.cases)
       (simp_all add: main_process_missing [OF assms(2)], simp_all add: nothing_missing_def)
qed

lemma sync_informers:
  assumes "pr_exit p = None" "length (pr_awaited p) = 4" "set (pr_awaited p) \<subseteq> set (pr_running p)"
    "length (pr_synced p) = 4"
  shows "(process_step h args env)\<^sup>*\<^sup>* p (p\<lparr>pr_synced := [True, True, True, True]\<rparr>)"
proof -
  let ?s = "\<lambda>i p. p\<lparr>pr_synced := (pr_synced p)[i := True]\<rparr>"
  have "process_step h args env q (?s i q)"
    if "i < 4" "pr_exit q = None" "pr_awaited q = pr_awaited p" "pr_running q = pr_running p" "length (pr_synced q) = 4"
    for i q
  proof (rule informer_synced)
    show "pr_awaited q ! i \<in> set (pr_running q)" using that assms(2,3) by (metis nth_mem subsetD)
  qed (use that assms in simp_all)
  note one = this
  define p1 p2 p3 p4 where ps: "p1 = ?s 0 p" "p2 = ?s 1 p1" "p3 = ?s 2 p2" "p4 = ?s 3 p3"
  have "process_step h args env p p1" "process_step h args env p1 p2" "process_step h args env p2 p3"
    "process_step h args env p3 p4"
    unfolding ps(1) ps(2) ps(3) ps(4) using assms by (intro one; simp add: ps)+
  then have "(process_step h args env)\<^sup>*\<^sup>* p p4" by (meson converse_rtranclp_into_rtranclp r_into_rtranclp)
  moreover have "p4 = p\<lparr>pr_synced := [True, True, True, True]\<rparr>"
  proof -
    obtain a b c d where "pr_synced p = [a, b, c, d]"
      using assms(4) by (auto simp: numeral_eq_Suc length_Suc_conv)
    then show ?thesis by (simp add: ps numeral_eq_Suc)
  qed
  ultimately show ?thesis by simp
qed

lemma syncing_works:
  assumes "process_reachable h args env p" "visits_all env" "pr_exit p = None" "pr_phase p = Syncing"
  obtains p' where "(process_step h args env)\<^sup>*\<^sup>* p p'" "pr_phase p' = Working" "pr_workers p' = 5"
    "pr_exit p' = None" "pr_handler p' = pr_handler p" "pr_signals p' = pr_signals p" "pr_synced p' = [True, True, True, True]"
proof -
  let ?q = "p\<lparr>pr_synced := [True, True, True, True]\<rparr>"
  have "nothing_missing p" by (rule process_reachable_missing [OF assms(1,2)])
  moreover have "length (pr_synced p) = 4" using process_reachable_ok [OF assms(1)] by (simp add: process_ok_def)
  ultimately have "(process_step h args env)\<^sup>*\<^sup>* p ?q"
    using sync_informers [of p] assms(3,4) by (simp add: nothing_missing_def)
  moreover have "process_step h args env ?q (controller_Run ?q)" by (rule controller) (simp add: assms(3))
  ultimately have "(process_step h args env)\<^sup>*\<^sup>* p (controller_Run ?q)" by (rule rtranclp.rtrancl_into_rtrancl)
  moreover have "controller_Run ?q = ?q\<lparr>pr_workers := 5, pr_phase := Working\<rparr>"
    using assms(4) by (simp add: controller_Run_cases threadiness_def)
  ultimately show thesis using that assms(3) by simp
qed

lemma sample_syncing:
  obtains p where "process_reachable sample_host [] sample_start p" "pr_phase p = Syncing" "pr_exit p = None"
    "pr_handler p" "pr_signals p = 0"
proof -
  let ?p = "main_process sample_host [] sample_start initial_process"
  have "\<exists>opts. NewOperatorOpts sample_host configPath = Loaded opts \<and> Master opts \<noteq> ''''"
    by (simp add: NewOperatorOpts_def sample_host_def OperatorOpts_EnsureDefaults_def empty_opts_def)
  then obtain opts where opts: "NewOperatorOpts sample_host configPath = Loaded opts" "Master opts \<noteq> ''''" by blast
  let ?opts = "opts\<lparr>OptNamespace := ''''\<rparr>"
  obtain sys where "build_system sample_start ?opts sample_config = Some sys" using sample_built by blast
  then have "pr_phase ?p = Syncing \<and> pr_exit ?p = None \<and> pr_handler ?p \<and> pr_signals ?p = 0"
    using opts sample_start_config
    by (simp add: main_process_def app_Run_def SetupSignalHandler_def initial_process_def)
  moreover have "process_reachable sample_host [] sample_start ?p"
    by (rule next_state [OF init start_up]) (simp_all add: initial_process_def)
  ultimately show thesis using that by blast
qed

lemma sample_working:
  obtains p where "process_reachable sample_host [] sample_start p" "pr_phase p = Working" "pr_workers p = 5"
    "pr_exit p = None" "pr_handler p" "pr_signals p = 0"
proof -
  obtain p where p: "process_reachable sample_host [] sample_start p" "pr_phase p = Syncing" "pr_exit p = None"
    "pr_handler p" "pr_signals p = 0"
    by (rule sample_syncing)
  have "visits_all sample_start" by (simp add: visits_all_def sample_start_def)
  then show thesis
  proof (rule syncing_works [OF p(1) _ p(3,2)])
    fix p' assume "(process_step sample_host [] sample_start)\<^sup>*\<^sup>* p p'" "pr_phase p' = Working" "pr_workers p' = 5"
      "pr_exit p' = None" "pr_handler p' = pr_handler p" "pr_signals p' = pr_signals p"
    then show thesis using that [of p'] p(4,5) process_reachable_steps [OF _ p(1)] by simp
  qed
qed

theorem process_safety_witness:
  "\<exists>p. process_reachable sample_host [] sample_start p \<and> pr_workers p = 5 \<and> False \<notin> set (pr_synced p)"
proof -
  obtain p where p: "process_reachable sample_host [] sample_start p" "pr_workers p = 5" by (rule sample_working)
  with process_safety [OF p(1)] show ?thesis by (intro exI [of _ p]) auto
qed

text \<open>
  C35: The operator gets to work. When the configuration can be read and the clients can be
  made, the first step of the process leads to a state in which the controller waits for its
  informers; and from every reachable state in which it waits, the informers can finish their
  first listings and the five workers start: none of the four informers is missing. A
  configuration that cannot be read ends the process with exit code 1 instead.
\<close>

theorem start_up_works:
  assumes reach: "process_reachable h args env p" and order: "visits_all env" and running: "pr_exit p = None"
    and opts: "main_options h args = Loaded s"
  shows "(pr_phase p = Syncing \<longrightarrow>
      (\<exists>p'. (process_step h args env)\<^sup>*\<^sup>* p p' \<and> pr_phase p' = Working \<and> pr_workers p' = 5)) \<and>
    (pr_phase p = NotStarted \<longrightarrow>
      (case se_BuildConfigFromFlags env (Master s) (KubeConfig s) of
         Inl _ \<Rightarrow> pr_exit (main_process h args env p) = Some 1
       | Inr cfg \<Rightarrow> build_system env s cfg \<noteq> None \<longrightarrow> pr_phase (main_process h args env p) = Syncing))"
proof -
  have "main_process h args env p = app_Run env s p"
    using opts by (auto simp: main_options_def main_process_def split: loaded.splits sum.splits)
  moreover have "pr_phase p = NotStarted \<Longrightarrow> \<not> pr_handler p"
    using process_reachable_ok [OF reach] running by (simp add: process_ok_def)
  ultimately have "pr_phase p = NotStarted \<longrightarrow>
      (case se_BuildConfigFromFlags env (Master s) (KubeConfig s) of
         Inl _ \<Rightarrow> pr_exit (main_process h args env p) = Some 1
       | Inr cfg \<Rightarrow> build_system env s cfg \<noteq> None \<longrightarrow> pr_phase (main_process h args env p) = Syncing)"
    by (auto simp: app_Run_def SetupSignalHandler_def split: sum.split option.split)
  then show ?thesis using syncing_works [OF reach order running] by metis
qed

theorem start_up_works_witness:
  "\<exists>p p'. process_reachable sample_host [] sample_start p \<and> pr_phase p = Syncing \<and>
     (process_step sample_host [] sample_start)\<^sup>*\<^sup>* p p' \<and> pr_workers p' = 5"
proof -
  obtain p where p: "process_reachable sample_host [] sample_start p" "pr_phase p = Syncing" "pr_exit p = None"
    by (rule sample_syncing)
  have order: "visits_all sample_start" by (simp add: visits_all_def sample_start_def)
  obtain s where "main_options sample_host [] = Loaded s"
    by (simp add: main_options_def NewOperatorOpts_def sample_host_def OperatorOpts_EnsureDefaults_def empty_opts_def)
  from start_up_works [OF p(1) order p(3) this] p show ?thesis by blast
qed

text \<open>
  C33: One signal is enough to end the process gracefully: from any reachable running state
  in which the controller has been started, after the first signal two steps (the
  controller's next move and the return of \<open>Run\<close>) lead to exit code 0, except that a
  controller still waiting for caches that have just synced needs one move more; a second
  signal at any time leads to exit code 1 at once.
\<close>

theorem graceful_shutdown:
  assumes "process_reachable h args env p" "pr_exit p = None" "pr_handler p" "pr_phase p \<noteq> NotStarted"
    "pr_signals p = 0"
  defines "p1 \<equiv> deliver_signal p"
  shows "pr_exit (main_wait (controller_Run (controller_Run p1))) = Some 0 \<and>
    (pr_phase p = Working \<or> \<not> all_synced (pr_synced p) \<longrightarrow> pr_exit (main_wait (controller_Run p1)) = Some 0) \<and>
    pr_exit (deliver_signal p1) = Some 1"
proof -
  have p1: "p1 = p\<lparr>pr_signals := 1, pr_cancelled := True\<rparr>" using assms(5) by (simp add: p1_def deliver_signal_def)
  have nf: "pr_phase p \<noteq> Finished"
    using process_reachable_ok [OF assms(1)] assms(5) by (auto simp: process_ok_def)
  then consider "pr_phase p = Syncing" | "pr_phase p = Working" using assms(4) by (cases "pr_phase p") auto
  then show ?thesis
    by cases (simp_all add: p1 deliver_signal_def controller_Run_cases main_wait_def del: all_synced_set)
qed

theorem graceful_shutdown_witness:
  "\<exists>p. process_reachable sample_host [] sample_start p \<and> pr_phase p = Working \<and>
     pr_exit (main_wait (controller_Run (deliver_signal p))) = Some 0"
proof -
  obtain p where p: "process_reachable sample_host [] sample_start p" "pr_phase p = Working" "pr_workers p = 5"
    "pr_exit p = None" "pr_handler p" "pr_signals p = 0"
    by (rule sample_working)
  with graceful_shutdown [OF p(1) p(4,5) _ p(6)] show ?thesis by auto
qed

end
