(* ===== verification/Object_Tracker.thy ===== *)
theory Object_Tracker
  imports Rest_Request Broker_Types
begin

text \<open>
  The in-memory API server behind the generated fake clientset: the object tracker of
  client-go (\<open>testing/fixture.go\<close>) with its watchers, and the chain of reactors that
  records and answers actions (\<open>testing/fake.go\<close>, \<open>testing/actions.go\<close>).

  The tracker keeps a list of objects for each resource; here they are broker clusters, the
  type the fake clientset's scheme adds. Objects are values, so the deep copies the tracker
  makes are the values themselves. A watcher is a number and \<open>tk_events\<close> the events put into
  its channel (whose bound of 100 pending events is not modelled). Locks make each
  operation atomic.
\<close>

section \<open>State\<close>

datatype watch_event = Added cluster_val | Modified cluster_val | Deleted cluster_val

record tracker =
  tk_objects :: "GroupVersionResource \<Rightarrow> cluster_val list option"
  tk_watchers :: "GroupVersionResource \<Rightarrow> string \<Rightarrow> nat list"
  tk_events :: "nat \<Rightarrow> watch_event list"
  tk_next :: nat

definition NewObjectTracker :: tracker where
  "NewObjectTracker = \<lparr>tk_objects = Map.empty, tk_watchers = (\<lambda>_ _. []), tk_events = (\<lambda>_. []), tk_next = 0\<rparr>"

definition om_of :: "cluster_val \<Rightarrow> strmap ObjectMeta" where
  "om_of x = bc_ObjectMeta x"

definition gvr_GroupResource :: "GroupVersionResource \<Rightarrow> GroupResource" where
  "gvr_GroupResource gvr = \<lparr>gr_Group = gvr_Group gvr, gr_Resource = gvr_Resource gvr\<rparr>"

text \<open>A struct printed with \<open>%s\<close>; its \<open>String\<close> method needs a pointer and is not used.\<close>

definition gvr_text :: "GroupVersionResource \<Rightarrow> string" where
  "gvr_text gvr = ''{'' @ gvr_Group gvr @ '' '' @ gvr_Version gvr @ '' '' @ gvr_Resource gvr @ ''}''"

definition NewAlreadyExists :: "GroupResource \<Rightarrow> string \<Rightarrow> go_error" where
  "NewAlreadyExists gr name =
     StatusError ReasonAlreadyExists
       (gr_Resource gr @ (if gr_Group gr = '''' then '''' else ''.'' @ gr_Group gr) @ '' '' @ quoted name @
        '' already exists'')"

definition NewBadRequest :: "string \<Rightarrow> go_error" where
  "NewBadRequest reason = StatusError ReasonBadRequest reason"

section \<open>The tracker\<close>

definition filterByNamespaceAndName :: "cluster_val list \<Rightarrow> string \<Rightarrow> string \<Rightarrow> cluster_val list" where
  "filterByNamespaceAndName objs ns name =
     filter (\<lambda>obj. \<not> (ns \<noteq> '''' \<and> om_Namespace (om_of obj) \<noteq> ns) \<and> \<not> (name \<noteq> '''' \<and> om_Name (om_of obj) \<noteq> name)) objs"

definition tracker_List :: "GroupVersionResource \<Rightarrow> string \<Rightarrow> tracker \<Rightarrow> cluster_val list" where
  "tracker_List gvr ns t =
     (case tk_objects t gvr of None \<Rightarrow> [] | Some objs \<Rightarrow> filterByNamespaceAndName objs ns '''')"

definition tracker_Get :: "GroupVersionResource \<Rightarrow> string \<Rightarrow> string \<Rightarrow> tracker \<Rightarrow> go_error + cluster_val" where
  "tracker_Get gvr ns name t =
     (case tk_objects t gvr of
        None \<Rightarrow> Inl (NewNotFound (gvr_GroupResource gvr) name)
      | Some objs \<Rightarrow>
          (case filterByNamespaceAndName objs ns name of
             [] \<Rightarrow> Inl (NewNotFound (gvr_GroupResource gvr) name)
           | [obj] \<Rightarrow> Inr obj
           | _ \<Rightarrow> Inl (MessageError (''more than one object matched gvr '' @ gvr_text gvr @ '', ns: '' @ quoted ns @
                   '' name: '' @ quoted name))))"

text \<open>The watchers of the namespace, then those of all namespaces.\<close>

definition getWatches :: "GroupVersionResource \<Rightarrow> string \<Rightarrow> tracker \<Rightarrow> nat list" where
  "getWatches gvr ns t = tk_watchers t gvr ns @ tk_watchers t gvr ''''"

definition notify :: "watch_event \<Rightarrow> nat list \<Rightarrow> tracker \<Rightarrow> tracker" where
  "notify e ws t = fold (\<lambda>i t. t\<lparr>tk_events := (tk_events t)(i := tk_events t i @ [e])\<rparr>) ws t"

definition objects_of :: "GroupVersionResource \<Rightarrow> tracker \<Rightarrow> cluster_val list" where
  "objects_of gvr t = (case tk_objects t gvr of None \<Rightarrow> [] | Some objs \<Rightarrow> objs)"

definition same_key :: "string \<Rightarrow> string \<Rightarrow> cluster_val \<Rightarrow> bool" where
  "same_key ns name obj \<longleftrightarrow> om_Namespace (om_of obj) = ns \<and> om_Name (om_of obj) = name"

definition tracker_add :: "GroupVersionResource \<Rightarrow> cluster_val \<Rightarrow> string \<Rightarrow> bool \<Rightarrow> tracker
    \<Rightarrow> tracker \<times> go_error option" where
  "tracker_add gvr obj0 ns replaceExisting t =
     (let obj = (if om_Namespace (om_of obj0) = ''''
                 then obj0\<lparr>bc_ObjectMeta := (om_of obj0)\<lparr>om_Namespace := ns\<rparr>\<rparr> else obj0);
          newMeta = om_of obj; objs = objects_of gvr t; gr = gvr_GroupResource gvr
      in if ns \<noteq> om_Namespace newMeta
         then (t, Some (NewBadRequest (''request namespace does not match object namespace, request: '' @ quoted ns @
                 '' object: '' @ quoted (om_Namespace newMeta))))
         else
           (case find_index (same_key (om_Namespace newMeta) (om_Name newMeta)) objs of
              Some i \<Rightarrow>
                (if replaceExisting
                 then ((notify (Modified obj) (getWatches gvr ns t) t)
                         \<lparr>tk_objects := (tk_objects t)(gvr \<mapsto> objs[i := obj])\<rparr>, None)
                 else (t, Some (NewAlreadyExists gr (om_Name newMeta))))
            | None \<Rightarrow>
                (if replaceExisting then (t, Some (NewNotFound gr (om_Name newMeta)))
                 else (notify (Added obj) (getWatches gvr ns t)
                         (t\<lparr>tk_objects := (tk_objects t)(gvr \<mapsto> objs @ [obj])\<rparr>), None))))"

definition tracker_Create :: "GroupVersionResource \<Rightarrow> cluster_val \<Rightarrow> string \<Rightarrow> tracker \<Rightarrow> tracker \<times> go_error option" where
  "tracker_Create gvr obj ns = tracker_add gvr obj ns False"

definition tracker_Update :: "GroupVersionResource \<Rightarrow> cluster_val \<Rightarrow> string \<Rightarrow> tracker \<Rightarrow> tracker \<times> go_error option" where
  "tracker_Update gvr obj ns = tracker_add gvr obj ns True"

definition tracker_Delete :: "GroupVersionResource \<Rightarrow> string \<Rightarrow> string \<Rightarrow> tracker \<Rightarrow> tracker \<times> go_error option" where
  "tracker_Delete gvr ns name t =
     (let objs = objects_of gvr t in
      case find_index (same_key ns name) objs of
        None \<Rightarrow> (t, Some (NewNotFound (gvr_GroupResource gvr) name))
      | Some i \<Rightarrow>
          (notify (Deleted (objs ! i)) (getWatches gvr ns t)
             (t\<lparr>tk_objects := (tk_objects t)(gvr \<mapsto> take i objs @ drop (Suc i) objs)\<rparr>), None))"

definition tracker_Watch :: "GroupVersionResource \<Rightarrow> string \<Rightarrow> tracker \<Rightarrow> tracker \<times> nat" where
  "tracker_Watch gvr ns t =
     (let i = tk_next t in
      (t\<lparr>tk_watchers := (tk_watchers t)(gvr := (tk_watchers t gvr)(ns := tk_watchers t gvr ns @ [i])),
         tk_events := (tk_events t)(i := []), tk_next := Suc i\<rparr>, i))"

text \<open>The resource a kind is guessed to be served under.\<close>

definition UnsafeGuessKindToResource :: "GroupVersionKind \<Rightarrow> GroupVersionResource" where
  "UnsafeGuessKindToResource kind =
     (if gvk_Kind kind = '''' then \<lparr>gvr_Group = '''', gvr_Version = '''', gvr_Resource = ''''\<rparr>
      else
        (let singularName = map to_lower (gvk_Kind kind);
             res = (\<lambda>n. \<lparr>gvr_Group = gvk_Group kind, gvr_Version = gvk_Version kind, gvr_Resource = n\<rparr>)
         in if drop (length singularName - 9) singularName = ''endpoints'' then res singularName
            else if last singularName = CHR ''s'' then res (singularName @ ''es'')
            else if last singularName = CHR ''y'' then res (butlast singularName @ ''ies'')
            else res (singularName @ ''s'')))"

text \<open>\<open>Add\<close> of an object whose kind is registered once, as that of broker clusters is.\<close>

definition tracker_Add :: "GroupVersionKind \<Rightarrow> cluster_val \<Rightarrow> tracker \<Rightarrow> tracker \<times> go_error option" where
  "tracker_Add gvk obj t = tracker_add (UnsafeGuessKindToResource gvk) obj (om_Namespace (om_of obj)) False t"

section \<open>Actions and reactors\<close>

datatype 'l action =
    GetAction GroupVersionResource string string
  | ListAction GroupVersionResource GroupVersionKind string 'l
  | CreateAction GroupVersionResource string string cluster_val
  | UpdateAction GroupVersionResource string cluster_val
  | DeleteAction GroupVersionResource string string
  | DeleteCollectionAction GroupVersionResource string 'l
  | PatchAction GroupVersionResource string string string string
  | WatchAction GroupVersionResource string 'l

fun GetVerb :: "'l action \<Rightarrow> string" where
  "GetVerb (GetAction _ _ _) = ''get''"
| "GetVerb (ListAction _ _ _ _) = ''list''"
| "GetVerb (CreateAction _ _ _ _) = ''create''"
| "GetVerb (UpdateAction _ _ _) = ''update''"
| "GetVerb (DeleteAction _ _ _) = ''delete''"
| "GetVerb (DeleteCollectionAction _ _ _) = ''delete-collection''"
| "GetVerb (PatchAction _ _ _ _ _) = ''patch''"
| "GetVerb (WatchAction _ _ _) = ''watch''"

fun GetResource :: "'l action \<Rightarrow> GroupVersionResource" where
  "GetResource (GetAction gvr _ _) = gvr"
| "GetResource (ListAction gvr _ _ _) = gvr"
| "GetResource (CreateAction gvr _ _ _) = gvr"
| "GetResource (UpdateAction gvr _ _) = gvr"
| "GetResource (DeleteAction gvr _ _) = gvr"
| "GetResource (DeleteCollectionAction gvr _ _) = gvr"
| "GetResource (PatchAction gvr _ _ _ _) = gvr"
| "GetResource (WatchAction gvr _ _) = gvr"

fun GetNamespace :: "'l action \<Rightarrow> string" where
  "GetNamespace (GetAction _ ns _) = ns"
| "GetNamespace (ListAction _ _ ns _) = ns"
| "GetNamespace (CreateAction _ ns _ _) = ns"
| "GetNamespace (UpdateAction _ ns _) = ns"
| "GetNamespace (DeleteAction _ ns _) = ns"
| "GetNamespace (DeleteCollectionAction _ ns _) = ns"
| "GetNamespace (PatchAction _ ns _ _ _) = ns"
| "GetNamespace (WatchAction _ ns _) = ns"

text \<open>What a reactor returns: an object, a list, or a nil object.\<close>

datatype reply = NoObject | OneObject cluster_val | ObjectList "cluster_val list"

type_synonym 'l reaction = "'l action \<Rightarrow> tracker \<Rightarrow> tracker \<times> bool \<times> reply \<times> go_error option"

definition reply_of :: "go_error + cluster_val \<Rightarrow> reply \<times> go_error option" where
  "reply_of r = (case r of Inl e \<Rightarrow> (NoObject, Some e) | Inr x \<Rightarrow> (OneObject x, None))"

definition ObjectReaction :: "'l reaction" where
  "ObjectReaction action t =
     (case action of
        ListAction gvr kind ns _ \<Rightarrow> (t, True, ObjectList (tracker_List gvr ns t), None)
      | GetAction gvr ns name \<Rightarrow> (t, True, reply_of (tracker_Get gvr ns name t))
      | CreateAction gvr ns subresource obj \<Rightarrow>
          (case (if subresource = '''' then tracker_Create gvr obj ns t else tracker_Update gvr obj ns t) of
             (t', Some err) \<Rightarrow> (t', True, NoObject, Some err)
           | (t', None) \<Rightarrow> (t', True, reply_of (tracker_Get gvr ns (om_Name (om_of obj)) t')))
      | UpdateAction gvr ns obj \<Rightarrow>
          (case tracker_Update gvr obj ns t of
             (t', Some err) \<Rightarrow> (t', True, NoObject, Some err)
           | (t', None) \<Rightarrow> (t', True, reply_of (tracker_Get gvr ns (om_Name (om_of obj)) t')))
      | DeleteAction gvr ns name \<Rightarrow>
          (case tracker_Delete gvr ns name t of (t', err) \<Rightarrow> (t', True, NoObject, err))
      | _ \<Rightarrow> (t, False, NoObject, Some (MessageError ''no reaction implemented'')))"

record 'l SimpleReactor =
  sr_Verb :: string
  sr_Resource :: string
  sr_Reaction :: "'l reaction"

definition Handles :: "'l SimpleReactor \<Rightarrow> 'l action \<Rightarrow> bool" where
  "Handles r action \<longleftrightarrow>
     (sr_Verb r = ''*'' \<or> sr_Verb r = GetVerb action) \<and>
     (sr_Resource r = ''*'' \<or> sr_Resource r = gvr_Resource (GetResource action))"

text \<open>A reactor for watches returns a watcher (nil is \<open>None\<close>).\<close>

type_synonym 'l watch_reaction = "'l action \<Rightarrow> tracker \<Rightarrow> tracker \<times> bool \<times> nat option \<times> go_error option"

record 'l SimpleWatchReactor =
  sw_Resource :: string
  sw_Reaction :: "'l watch_reaction"

definition WatchHandles :: "'l SimpleWatchReactor \<Rightarrow> 'l action \<Rightarrow> bool" where
  "WatchHandles r action \<longleftrightarrow> sw_Resource r = ''*'' \<or> sw_Resource r = gvr_Resource (GetResource action)"

record 'l Fake =
  fk_actions :: "'l action list"
  fk_ReactionChain :: "'l SimpleReactor list"
  fk_WatchReactionChain :: "'l SimpleWatchReactor list"
  fk_tracker :: tracker

definition AddReactor :: "string \<Rightarrow> string \<Rightarrow> 'l reaction \<Rightarrow> 'l Fake \<Rightarrow> 'l Fake" where
  "AddReactor verb resource reaction c =
     c\<lparr>fk_ReactionChain := fk_ReactionChain c @ [\<lparr>sr_Verb = verb, sr_Resource = resource, sr_Reaction = reaction\<rparr>]\<rparr>"

definition PrependReactor :: "string \<Rightarrow> string \<Rightarrow> 'l reaction \<Rightarrow> 'l Fake \<Rightarrow> 'l Fake" where
  "PrependReactor verb resource reaction c =
     c\<lparr>fk_ReactionChain := \<lparr>sr_Verb = verb, sr_Resource = resource, sr_Reaction = reaction\<rparr> # fk_ReactionChain c\<rparr>"

definition AddWatchReactor :: "string \<Rightarrow> 'l watch_reaction \<Rightarrow> 'l Fake \<Rightarrow> 'l Fake" where
  "AddWatchReactor resource reaction c =
     c\<lparr>fk_WatchReactionChain := fk_WatchReactionChain c @ [\<lparr>sw_Resource = resource, sw_Reaction = reaction\<rparr>]\<rparr>"

definition PrependWatchReactor :: "string \<Rightarrow> 'l watch_reaction \<Rightarrow> 'l Fake \<Rightarrow> 'l Fake" where
  "PrependWatchReactor resource reaction c =
     c\<lparr>fk_WatchReactionChain := \<lparr>sw_Resource = resource, sw_Reaction = reaction\<rparr> # fk_WatchReactionChain c\<rparr>"

text \<open>The first reactor that handles the action answers; without one the default is returned.\<close>

fun react :: "'l SimpleReactor list \<Rightarrow> 'l action \<Rightarrow> reply \<Rightarrow> tracker \<Rightarrow> tracker \<times> reply \<times> go_error option" where
  "react [] action def t = (t, def, None)"
| "react (r # rs) action def t =
     (if \<not> Handles r action then react rs action def t
      else case sr_Reaction r action t of
             (t', handled, ret, err) \<Rightarrow> if \<not> handled then react rs action def t' else (t', ret, err))"

definition Invokes :: "'l action \<Rightarrow> reply \<Rightarrow> 'l Fake \<Rightarrow> 'l Fake \<times> reply \<times> go_error option" where
  "Invokes action defaultReturnObj c =
     (case react (fk_ReactionChain c) action defaultReturnObj (fk_tracker c) of
        (t, ret, err) \<Rightarrow> (c\<lparr>fk_actions := fk_actions c @ [action], fk_tracker := t\<rparr>, ret, err))"

text \<open>A watch that no reactor handles is an error.\<close>

fun react_watch :: "'l SimpleWatchReactor list \<Rightarrow> 'l action \<Rightarrow> tracker \<Rightarrow> tracker \<times> nat option \<times> go_error option" where
  "react_watch [] action t = (t, None, Some (MessageError ''unhandled watch''))"
| "react_watch (r # rs) action t =
     (if \<not> WatchHandles r action then react_watch rs action t
      else case sw_Reaction r action t of
             (t', handled, ret, err) \<Rightarrow> if \<not> handled then react_watch rs action t' else (t', ret, err))"

definition InvokesWatch :: "'l action \<Rightarrow> 'l Fake \<Rightarrow> 'l Fake \<times> nat option \<times> go_error option" where
  "InvokesWatch action c =
     (case react_watch (fk_WatchReactionChain c) action (fk_tracker c) of
        (t, ret, err) \<Rightarrow> (c\<lparr>fk_actions := fk_actions c @ [action], fk_tracker := t\<rparr>, ret, err))"

definition ClearActions :: "'l Fake \<Rightarrow> 'l Fake" where
  "ClearActions c = c\<lparr>fk_actions := []\<rparr>"

end
