(* ===== verification/Fake_Clientset.thy ===== *)
theory Fake_Clientset
  imports Object_Tracker Clientset
begin

text \<open>
  The generated fake clientset (\<open>clientset/versioned/fake\<close> and the typed \<open>fake\<close> package): its
  typed operations turn a call into an action for the reactor chain, whose one reactor is the
  object tracker.

  Parsing label and field selectors is a parameter; a list, a watch or the deletion of a
  collection whose selectors do not parse panics, which is the outer \<open>None\<close> of these operations.
  Results are a pair of an object (nil is \<open>None\<close>) and an error. \<open>cluster_store\<close> states what a client of broker clusters promises; the fake satisfies
  it with the map from namespaces and names to clusters as its abstraction.
\<close>

section \<open>The typed fake\<close>

definition brokerclustersResource :: GroupVersionResource where
  "brokerclustersResource =
     \<lparr>gvr_Group = ''rocketmq.huanwei.io'', gvr_Version = ''v1alpha1'', gvr_Resource = ''brokerclusters''\<rparr>"

definition brokerclustersKind :: GroupVersionKind where
  "brokerclustersKind =
     \<lparr>gvk_Group = ''rocketmq.huanwei.io'', gvk_Version = ''v1alpha1'', gvk_Kind = ''BrokerCluster''\<rparr>"

type_synonym fake = "ListOptions Fake"

record selector_parsers =
  sp_labels :: "string \<Rightarrow> (strmap \<Rightarrow> bool) option"
  sp_fields :: "string \<Rightarrow> bool"

text \<open>The label selector of list options; the field selector is parsed and not used.\<close>

definition ExtractFromListOptions :: "selector_parsers \<Rightarrow> ListOptions \<Rightarrow> (strmap \<Rightarrow> bool) option" where
  "ExtractFromListOptions ps opts =
     (case sp_labels ps (lo_LabelSelector opts) of
        None \<Rightarrow> None
      | Some label \<Rightarrow> if sp_fields ps (lo_FieldSelector opts) then Some label else None)"

definition empty_cluster :: cluster_val where
  "empty_cluster =
     \<lparr>bc_TypeMeta = \<lparr>tm_Kind = '''', tm_APIVersion = ''''\<rparr>, bc_ObjectMeta = empty_meta,
      Spec = \<lparr>BrokerImage = '''', NameServers = '''', AllMaster = False, ReplicationMode = '''',
        GroupReplica = 0, MembersPerGroup = 0, Properties = None, NodeSelector = None, Affinity = None,
        VolumeClaimTemplate = None, Config = None\<rparr>,
      Status = \<lparr>status_TypeMeta = \<lparr>tm_Kind = '''', tm_APIVersion = ''''\<rparr>, status_ObjectMeta = empty_meta,
        Conditions = None\<rparr>\<rparr>"

text \<open>\<open>obj.(*v1alpha1.BrokerCluster)\<close> after the test for a nil object\<close>

definition one_object :: "fake \<times> reply \<times> go_error option \<Rightarrow> fake \<times> cluster_val option \<times> go_error option" where
  "one_object res =
     (case res of
        (c, OneObject x, err) \<Rightarrow> (c, Some x, err)
      | (c, _, err) \<Rightarrow> (c, None, err))"

definition Fake_Get :: "string \<Rightarrow> string \<Rightarrow> fake \<Rightarrow> fake \<times> cluster_val option \<times> go_error option" where
  "Fake_Get ns name c =
     one_object (Invokes (GetAction brokerclustersResource ns name) (OneObject empty_cluster) c)"

definition Fake_Create :: "string \<Rightarrow> cluster_val \<Rightarrow> fake \<Rightarrow> fake \<times> cluster_val option \<times> go_error option" where
  "Fake_Create ns brokerCluster c =
     one_object (Invokes (CreateAction brokerclustersResource ns '''' brokerCluster) (OneObject empty_cluster) c)"

definition Fake_Update :: "string \<Rightarrow> cluster_val \<Rightarrow> fake \<Rightarrow> fake \<times> cluster_val option \<times> go_error option" where
  "Fake_Update ns brokerCluster c =
     one_object (Invokes (UpdateAction brokerclustersResource ns brokerCluster) (OneObject empty_cluster) c)"

definition Fake_Delete :: "string \<Rightarrow> string \<Rightarrow> DeleteOptions option \<Rightarrow> fake \<Rightarrow> fake \<times> go_error option" where
  "Fake_Delete ns name options c =
     (case Invokes (DeleteAction brokerclustersResource ns name) (OneObject empty_cluster) c of
        (c', _, err) \<Rightarrow> (c', err))"

definition Fake_DeleteCollection :: "selector_parsers \<Rightarrow> string \<Rightarrow> DeleteOptions option \<Rightarrow> ListOptions \<Rightarrow> fake
    \<Rightarrow> (fake \<times> go_error option) option" where
  "Fake_DeleteCollection ps ns options listOptions c =
     (case ExtractFromListOptions ps listOptions of
        None \<Rightarrow> None
      | Some _ \<Rightarrow>
          Some (case Invokes (DeleteCollectionAction brokerclustersResource ns listOptions) (ObjectList []) c of
                  (c', _, err) \<Rightarrow> (c', err)))"

definition Fake_Patch :: "string \<Rightarrow> string \<Rightarrow> string \<Rightarrow> string \<Rightarrow> string list \<Rightarrow> fake
    \<Rightarrow> fake \<times> cluster_val option \<times> go_error option" where
  "Fake_Patch ns name pt data subresources c =
     one_object (Invokes (PatchAction brokerclustersResource ns name data (path_Join subresources))
       (OneObject empty_cluster) c)"

definition Fake_List :: "selector_parsers \<Rightarrow> string \<Rightarrow> ListOptions \<Rightarrow> fake
    \<Rightarrow> (fake \<times> cluster_val list option \<times> go_error option) option" where
  "Fake_List ps ns opts c =
     (case ExtractFromListOptions ps opts of
        None \<Rightarrow> None
      | Some label \<Rightarrow>
          Some (case Invokes (ListAction brokerclustersResource brokerclustersKind ns opts) (ObjectList []) c of
                  (c', ObjectList items, err) \<Rightarrow>
                    (c', Some (filter (\<lambda>item. label (case om_Labels (bc_ObjectMeta item) of
                         None \<Rightarrow> Map.empty | Some m \<Rightarrow> m)) items), err)
                | (c', _, err) \<Rightarrow> (c', None, err)))"

definition Fake_Watch :: "selector_parsers \<Rightarrow> string \<Rightarrow> ListOptions \<Rightarrow> fake
    \<Rightarrow> (fake \<times> nat option \<times> go_error option) option" where
  "Fake_Watch ps ns opts c =
     (case ExtractFromListOptions ps opts of
        None \<Rightarrow> None
      | Some _ \<Rightarrow> Some (InvokesWatch (WatchAction brokerclustersResource ns opts) c))"

text \<open>Adding an object twice panics: \<open>None\<close>.\<close>

fun add_objects :: "cluster_val list \<Rightarrow> tracker \<Rightarrow> tracker option" where
  "add_objects [] t = Some t"
| "add_objects (obj # objects) t =
     (case tracker_Add brokerclustersKind obj t of
        (t', Some err) \<Rightarrow> None
      | (t', None) \<Rightarrow> add_objects objects t')"

text \<open>The one reactor for watches asks the tracker, which never refuses.\<close>

definition watch_reaction :: "ListOptions watch_reaction" where
  "watch_reaction action t =
     (case tracker_Watch (GetResource action) (GetNamespace action) t of (t', i) \<Rightarrow> (t', True, Some i, None))"

definition NewSimpleClientset :: "cluster_val list \<Rightarrow> fake option" where
  "NewSimpleClientset objects =
     (case add_objects objects NewObjectTracker of
        None \<Rightarrow> None
      | Some o' \<Rightarrow>
          Some (AddWatchReactor ''*'' watch_reaction (AddReactor ''*'' ''*'' ObjectReaction
            \<lparr>fk_actions = [], fk_ReactionChain = [], fk_WatchReactionChain = [], fk_tracker = o'\<rparr>)))"

section \<open>The contract of a client\<close>

text \<open>The abstract store: a map from keys to clusters, and what each operation answers.\<close>

datatype store_op =
    OpGet string string
  | OpCreate string cluster_val
  | OpUpdate string cluster_val
  | OpDelete string string

datatype answer = Found cluster_val | Accepted | Failed status_reason

definition answer_of :: "cluster_val option \<Rightarrow> go_error option \<Rightarrow> answer" where
  "answer_of r e = (if e \<noteq> None then Failed (ReasonForError e) else case r of None \<Rightarrow> Accepted | Some x \<Rightarrow> Found x)"

fun store_step :: "(string \<Rightarrow> cluster_val \<Rightarrow> string \<times> string) \<Rightarrow> (string \<Rightarrow> cluster_val \<Rightarrow> cluster_val) \<Rightarrow> store_op
    \<Rightarrow> (string \<times> string \<rightharpoonup> cluster_val) \<Rightarrow> (string \<times> string \<rightharpoonup> cluster_val) \<times> answer" where
  "store_step key stored (OpGet ns n) m =
     (m, case m (ns, n) of None \<Rightarrow> Failed ReasonNotFound | Some x \<Rightarrow> Found x)"
| "store_step key stored (OpCreate ns x) m =
     (if m (key ns x) = None then (m(key ns x \<mapsto> stored ns x), Found (stored ns x))
      else (m, Failed ReasonAlreadyExists))"
| "store_step key stored (OpUpdate ns x) m =
     (if m (key ns x) = None then (m, Failed ReasonNotFound)
      else (m(key ns x \<mapsto> stored ns x), Found (stored ns x)))"
| "store_step key stored (OpDelete ns n) m =
     (if m (ns, n) = None then (m, Failed ReasonNotFound) else (m((ns, n) := None), Accepted))"

fun store_run where
  "store_run key stored [] m = (m, [])"
| "store_run key stored (a # as) m =
     (case store_step key stored a m of (m', r) \<Rightarrow>
        (case store_run key stored as m' of (m'', rs) \<Rightarrow> (m'', r # rs)))"

text \<open>The same operations on a client.\<close>

fun client_step where
  "client_step get create update delete (OpGet ns n) s = (case get ns n s of (s', r, e) \<Rightarrow> (s', answer_of r e))"
| "client_step get create update delete (OpCreate ns x) s = (case create ns x s of (s', r, e) \<Rightarrow> (s', answer_of r e))"
| "client_step get create update delete (OpUpdate ns x) s = (case update ns x s of (s', r, e) \<Rightarrow> (s', answer_of r e))"
| "client_step get create update delete (OpDelete ns n) s = (case delete ns n s of (s', e) \<Rightarrow> (s', answer_of None e))"

fun client_run where
  "client_run get create update delete [] s = (s, [])"
| "client_run get create update delete (a # as) s =
     (case client_step get create update delete a s of (s', r) \<Rightarrow>
        (case client_run get create update delete as s' of (s'', rs) \<Rightarrow> (s'', r # rs)))"

fun valid_op where
  "valid_op valid named (OpGet ns n) = named ns n"
| "valid_op valid named (OpCreate ns x) = valid ns x"
| "valid_op valid named (OpUpdate ns x) = valid ns x"
| "valid_op valid named (OpDelete ns n) = named ns n"

text \<open>
  A store of clusters by namespace and name; \<open>get\<close>, \<open>create\<close>, \<open>update\<close> and \<open>delete\<close> act on a
  state whose contents are the map \<open>abs\<close>.
\<close>

locale cluster_store =
  fixes ok :: "'s \<Rightarrow> bool"
    and abs :: "'s \<Rightarrow> string \<times> string \<rightharpoonup> cluster_val"
    and get :: "string \<Rightarrow> string \<Rightarrow> 's \<Rightarrow> 's \<times> cluster_val option \<times> go_error option"
    and create :: "string \<Rightarrow> cluster_val \<Rightarrow> 's \<Rightarrow> 's \<times> cluster_val option \<times> go_error option"
    and update :: "string \<Rightarrow> cluster_val \<Rightarrow> 's \<Rightarrow> 's \<times> cluster_val option \<times> go_error option"
    and delete :: "string \<Rightarrow> string \<Rightarrow> 's \<Rightarrow> 's \<times> go_error option"
    and valid :: "string \<Rightarrow> cluster_val \<Rightarrow> bool"
    and key :: "string \<Rightarrow> cluster_val \<Rightarrow> string \<times> string"
    and stored :: "string \<Rightarrow> cluster_val \<Rightarrow> cluster_val"
    and named :: "string \<Rightarrow> string \<Rightarrow> bool"
  assumes get_ok: "ok s \<Longrightarrow> named ns n \<Longrightarrow> get ns n s = (s', r, e) \<Longrightarrow>
      ok s' \<and> abs s' = abs s \<and> r = abs s (ns, n) \<and> (e = None \<longleftrightarrow> r \<noteq> None) \<and> (r = None \<longrightarrow> IsNotFound e)"
    and create_ok: "ok s \<Longrightarrow> valid ns x \<Longrightarrow> create ns x s = (s', r, e) \<Longrightarrow>
      ok s' \<and> (if abs s (key ns x) = None
         then abs s' = (abs s)(key ns x \<mapsto> stored ns x) \<and> r = Some (stored ns x) \<and> e = None
         else abs s' = abs s \<and> r = None \<and> ReasonForError e = ReasonAlreadyExists)"
    and update_ok: "ok s \<Longrightarrow> valid ns x \<Longrightarrow> update ns x s = (s', r, e) \<Longrightarrow>
      ok s' \<and> (if abs s (key ns x) = None
         then abs s' = abs s \<and> r = None \<and> IsNotFound e
         else abs s' = (abs s)(key ns x \<mapsto> stored ns x) \<and> r = Some (stored ns x) \<and> e = None)"
    and delete_ok: "ok s \<Longrightarrow> named ns n \<Longrightarrow> delete ns n s = (s', e) \<Longrightarrow>
      ok s' \<and> abs s' = (abs s)((ns, n) := None) \<and> (e = None \<longleftrightarrow> abs s (ns, n) \<noteq> None) \<and>
      (abs s (ns, n) = None \<longrightarrow> IsNotFound e)"
    and key_named: "valid ns x \<Longrightarrow> key ns x = (ns', n) \<Longrightarrow> named ns' n"
begin

text \<open>Each operation, and so every sequence of them, does to the state what it does to the map.\<close>

lemma step_refines:
  assumes "ok s" "valid_op valid named a" "client_step get create update delete a s = (s', r)"
  shows "ok s' \<and> store_step key stored a (abs s) = (abs s', r)"
proof (cases a)
  case (OpGet ns n)
  obtain s1 r1 e1 where g: "get ns n s = (s1, r1, e1)" by (metis prod_cases3)
  then have "s' = s1" "r = answer_of r1 e1" using assms(3) by (simp_all add: OpGet)
  moreover have "named ns n" using assms(2) by (simp add: OpGet)
  ultimately show ?thesis using get_ok [OF assms(1) _ g]
    by (cases "abs s (ns, n)") (auto simp: OpGet answer_of_def IsNotFound_def)
next
  case (OpCreate ns x)
  obtain s1 r1 e1 where g: "create ns x s = (s1, r1, e1)" by (metis prod_cases3)
  then have "s' = s1" "r = answer_of r1 e1" using assms(3) by (simp_all add: OpCreate)
  moreover have "valid ns x" using assms(2) by (simp add: OpCreate)
  ultimately show ?thesis using create_ok [OF assms(1) _ g]
    by (cases e1) (auto simp: OpCreate answer_of_def split: if_splits)
next
  case (OpUpdate ns x)
  obtain s1 r1 e1 where g: "update ns x s = (s1, r1, e1)" by (metis prod_cases3)
  then have "s' = s1" "r = answer_of r1 e1" using assms(3) by (simp_all add: OpUpdate)
  moreover have "valid ns x" using assms(2) by (simp add: OpUpdate)
  ultimately show ?thesis using update_ok [OF assms(1) _ g]
    by (cases e1) (auto simp: OpUpdate answer_of_def IsNotFound_def split: if_splits)
next
  case (OpDelete ns n)
  obtain s1 e1 where g: "delete ns n s = (s1, e1)" by fastforce
  then have "s' = s1" "r = answer_of None e1" using assms(3) by (simp_all add: OpDelete)
  moreover have "named ns n" using assms(2) by (simp add: OpDelete)
  ultimately show ?thesis using delete_ok [OF assms(1) _ g]
    by (cases "abs s (ns, n)") (auto simp: OpDelete answer_of_def IsNotFound_def)
qed

lemma run_refines:
  assumes "ok s" "\<forall>a \<in> set as. valid_op valid named a" "client_run get create update delete as s = (s', rs)"
  shows "ok s' \<and> store_run key stored as (abs s) = (abs s', rs)"
  using assms
proof (induction as arbitrary: s s' rs)
  case (Cons a as)
  obtain s1 r where s1: "client_step get create update delete a s = (s1, r)" by fastforce
  obtain s2 rs' where s2: "client_run get create update delete as s1 = (s2, rs')" by fastforce
  have "s' = s2" "rs = r # rs'" using Cons.prems(3) s1 s2 by simp_all
  then show ?case using step_refines [OF Cons.prems(1) _ s1] Cons.IH [OF _ _ s2] Cons.prems(2) by simp
qed simp

text \<open>What was created or updated is what is read; what was deleted is not found.\<close>

lemma get_after_create:
  assumes "ok s" "valid ns x" "create ns x s = (s', r, None)" "key ns x = (ns', n)" "get ns' n s' = (s'', r', e)"
  shows "r' = Some (stored ns x) \<and> e = None"
proof -
  have "ok s'" "abs s' (ns', n) = Some (stored ns x)"
    using create_ok [OF assms(1-3)] assms(4) by (auto split: if_splits)
  then show ?thesis using get_ok [OF _ key_named [OF assms(2,4)] assms(5)] by simp
qed

lemma get_after_update:
  assumes "ok s" "valid ns x" "update ns x s = (s', r, None)" "key ns x = (ns', n)" "get ns' n s' = (s'', r', e)"
  shows "r' = Some (stored ns x) \<and> e = None"
proof -
  have "ok s'" "abs s' (ns', n) = Some (stored ns x)"
    using update_ok [OF assms(1-3)] assms(4) by (auto split: if_splits)
  then show ?thesis using get_ok [OF _ key_named [OF assms(2,4)] assms(5)] by simp
qed

lemma get_after_delete:
  assumes "ok s" "named ns n" "delete ns n s = (s', e)" "get ns n s' = (s'', r, e')"
  shows "r = None \<and> IsNotFound e'"
proof -
  have "ok s'" "abs s' (ns, n) = None" using delete_ok [OF assms(1-3)] by auto
  then show ?thesis using get_ok [OF _ assms(2,4)] by simp
qed

text \<open>Creating twice fails the second time, and the first object stays.\<close>

lemma create_twice:
  assumes "ok s" "valid ns x" "create ns x s = (s', r, None)" "valid ns y" "key ns y = key ns x"
    "create ns y s' = (s'', r', e)"
  shows "ReasonForError e = ReasonAlreadyExists \<and> abs s'' (key ns x) = Some (stored ns x)"
proof -
  have "ok s'" "abs s' (key ns x) = Some (stored ns x)"
    using create_ok [OF assms(1-3)] by (auto split: if_splits)
  then show ?thesis using create_ok [OF _ assms(4,6)] assms(5) by auto
qed

end

section \<open>The fake as a store\<close>

text \<open>
  The invariant of a fake the constructor made: the tracker is its one reactor, and the stored
  clusters have a namespace, a name and no other cluster's key. Its contents are the map from
  keys to clusters.
\<close>

definition cluster_id :: "cluster_val \<Rightarrow> string \<times> string" where
  "cluster_id x = (om_Namespace (om_of x), om_Name (om_of x))"

definition object_reactor :: "ListOptions SimpleReactor" where
  "object_reactor = \<lparr>sr_Verb = ''*'', sr_Resource = ''*'', sr_Reaction = ObjectReaction\<rparr>"

definition tracker_ok :: "tracker \<Rightarrow> bool" where
  "tracker_ok t \<longleftrightarrow> distinct (map cluster_id (objects_of brokerclustersResource t)) \<and>
     (\<forall>x \<in> set (objects_of brokerclustersResource t). fst (cluster_id x) \<noteq> '''' \<and> snd (cluster_id x) \<noteq> '''')"

definition watch_reactor :: "ListOptions SimpleWatchReactor" where
  "watch_reactor = \<lparr>sw_Resource = ''*'', sw_Reaction = watch_reaction\<rparr>"

definition fake_ok :: "fake \<Rightarrow> bool" where
  "fake_ok c \<longleftrightarrow> fk_ReactionChain c = [object_reactor] \<and> fk_WatchReactionChain c = [watch_reactor] \<and>
     tracker_ok (fk_tracker c)"

definition tracker_map :: "tracker \<Rightarrow> string \<times> string \<rightharpoonup> cluster_val" where
  "tracker_map t k = find (\<lambda>x. cluster_id x = k) (objects_of brokerclustersResource t)"

definition fake_map :: "fake \<Rightarrow> string \<times> string \<rightharpoonup> cluster_val" where
  "fake_map c = tracker_map (fk_tracker c)"

definition in_namespace :: "string \<Rightarrow> cluster_val \<Rightarrow> cluster_val" where
  "in_namespace ns x = (if om_Namespace (om_of x) = '''' then x\<lparr>bc_ObjectMeta := (om_of x)\<lparr>om_Namespace := ns\<rparr>\<rparr> else x)"

definition belongs :: "string \<Rightarrow> cluster_val \<Rightarrow> bool" where
  "belongs ns x \<longleftrightarrow> ns \<noteq> '''' \<and> om_Name (om_of x) \<noteq> '''' \<and> om_Namespace (om_of x) \<in> {'''', ns}"

lemma in_namespace_id: "om_Namespace (om_of x) \<in> {'''', ns} \<Longrightarrow> cluster_id (in_namespace ns x) = (ns, om_Name (om_of x))"
  by (auto simp: in_namespace_def cluster_id_def om_of_def)

lemma belongs_namespace: "belongs ns x \<Longrightarrow> om_Namespace (om_of x) \<in> {'''', ns}"
  by (simp add: belongs_def)

lemma same_key_id: "same_key ns name = (\<lambda>x. cluster_id x = (ns, name))"
  by (auto simp: same_key_def cluster_id_def fun_eq_iff)

lemma Invokes_object_reactor:
  "fk_ReactionChain c = [object_reactor] \<Longrightarrow>
   Invokes a d c = (case ObjectReaction a (fk_tracker c) of
     (t, handled, ret, err) \<Rightarrow> (c\<lparr>fk_actions := fk_actions c @ [a], fk_tracker := t\<rparr>,
       if handled then ret else d, if handled then err else None))"
  by (auto simp: Invokes_def object_reactor_def Handles_def split: prod.split)

text \<open>Laws of looking up in a list of objects with distinct keys.\<close>

lemma filter_distinct_key:
  "distinct (map f xs) \<Longrightarrow> filter (\<lambda>x. f x = k) xs = (case find (\<lambda>x. f x = k) xs of None \<Rightarrow> [] | Some x \<Rightarrow> [x])"
proof (induction xs)
  case (Cons x xs)
  have "filter (\<lambda>y. f y = f x) xs = []" using Cons.prems by (auto simp: filter_empty_conv) (metis image_eqI)
  then show ?case using Cons by auto
qed simp

lemma find_append:
  "find P (xs @ [x]) = (case find P xs of None \<Rightarrow> if P x then Some x else None | Some y \<Rightarrow> Some y)"
  by (induction xs) auto

lemma find_key_None: "find (\<lambda>x. f x = k) xs = None \<longleftrightarrow> k \<notin> set (map f xs)"
  by (auto simp: find_None_iff)

lemma find_replace:
  assumes "find_index (\<lambda>x. f x = k) xs = Some i" "f y = k"
  shows "find (\<lambda>x. f x = k') (xs[i := y]) = (if k' = k then Some y else find (\<lambda>x. f x = k') xs)"
  using assms by (induction xs arbitrary: i) (auto split: if_splits)

lemma map_replace:
  "find_index (\<lambda>x. f x = k) xs = Some i \<Longrightarrow> f y = k \<Longrightarrow> map f (xs[i := y]) = map f xs"
  by (induction xs arbitrary: i) (auto split: if_splits)

lemma find_remove:
  assumes "find_index (\<lambda>x. f x = k) xs = Some i" "distinct (map f xs)"
  shows "find (\<lambda>x. f x = k') (take i xs @ drop (Suc i) xs) = (if k' = k then None else find (\<lambda>x. f x = k') xs)"
  using assms
proof (induction xs arbitrary: i)
  case (Cons x xs)
  show ?case
  proof (cases "f x = k")
    case True
    then show ?thesis using Cons.prems by (auto simp: find_key_None)
  next
    case False
    then obtain j where "find_index (\<lambda>x. f x = k) xs = Some j" "i = Suc j" using Cons.prems(1) by auto
    then show ?thesis using Cons False by auto
  qed
qed simp

lemma remove_set: "set (take i xs @ drop (Suc i) xs) \<subseteq> set xs"
  by (auto dest: in_set_takeD in_set_dropD)

lemma remove_distinct: "distinct (map f xs) \<Longrightarrow> distinct (map f (take i xs @ drop (Suc i) xs))"
  by (simp add: take_map [symmetric] drop_map [symmetric] set_take_disj_set_drop_if_distinct
      flip: set_map del: set_map)

text \<open>Notifying changes no object.\<close>

lemma notify_objects [simp]: "tk_objects (notify e ws t) = tk_objects t"
  unfolding notify_def by (induction ws arbitrary: t) auto

lemma notify_objects_of [simp]: "objects_of gvr (notify e ws t) = objects_of gvr t"
  by (simp add: objects_of_def)

text \<open>The tracker's operations on the map.\<close>

lemma tracker_Get_map:
  assumes "tracker_ok t" "ns \<noteq> ''''" "name \<noteq> ''''"
  shows "tracker_Get brokerclustersResource ns name t =
    (case tracker_map t (ns, name) of
       None \<Rightarrow> Inl (NewNotFound (gvr_GroupResource brokerclustersResource) name) | Some x \<Rightarrow> Inr x)"
proof -
  have "filterByNamespaceAndName objs ns name = filter (\<lambda>x. cluster_id x = (ns, name)) objs" for objs
    using assms(2,3) by (auto simp: filterByNamespaceAndName_def cluster_id_def intro!: filter_cong)
  moreover have "filter (\<lambda>x. cluster_id x = (ns, name)) (objects_of brokerclustersResource t) =
      (case tracker_map t (ns, name) of None \<Rightarrow> [] | Some x \<Rightarrow> [x])"
    using assms(1) by (simp add: tracker_ok_def tracker_map_def filter_distinct_key)
  ultimately show ?thesis
    by (auto simp: tracker_Get_def objects_of_def tracker_map_def split: option.splits)
qed

lemma tracker_add_foreign:
  assumes "om_Namespace (om_of x) \<notin> {'''', ns}"
  shows "tracker_add gvr x ns b t = (t, Some (NewBadRequest (''request namespace does not match object namespace, request: '' @
    quoted ns @ '' object: '' @ quoted (om_Namespace (om_of x)))))"
  using assms by (auto simp: tracker_add_def Let_def)

lemma tracker_add_eq:
  assumes x: "om_Namespace (om_of x) \<in> {'''', ns}"
  defines "name \<equiv> om_Name (om_of x)"
  shows "tracker_add gvr x ns b t =
      (case find_index (\<lambda>y. cluster_id y = (ns, name)) (objects_of gvr t) of
         Some i \<Rightarrow> if b then ((notify (Modified (in_namespace ns x)) (getWatches gvr ns t) t)
             \<lparr>tk_objects := (tk_objects t)(gvr \<mapsto> (objects_of gvr t)[i := in_namespace ns x])\<rparr>, None)
           else (t, Some (NewAlreadyExists (gvr_GroupResource gvr) name))
       | None \<Rightarrow> if b then (t, Some (NewNotFound (gvr_GroupResource gvr) name))
           else (notify (Added (in_namespace ns x)) (getWatches gvr ns t)
             (t\<lparr>tk_objects := (tk_objects t)(gvr \<mapsto> objects_of gvr t @ [in_namespace ns x])\<rparr>), None))"
proof -
  have om: "om_Namespace (om_of (in_namespace ns x)) = ns" "om_Name (om_of (in_namespace ns x)) = name"
    using in_namespace_id [OF x] by (simp_all add: cluster_id_def name_def)
  show ?thesis unfolding tracker_add_def Let_def in_namespace_def [symmetric] om same_key_id by simp
qed

lemma tracker_add_map:
  assumes ok: "tracker_ok t" and x: "belongs ns x"
    and step: "tracker_add brokerclustersResource x ns b t = (t', e)"
  defines "name \<equiv> om_Name (om_of x)"
  shows "tracker_ok t' \<and> (if (tracker_map t (ns, name) \<noteq> None) = b
      then e = None \<and> tracker_map t' = (tracker_map t)((ns, name) \<mapsto> in_namespace ns x)
      else t' = t \<and> e = Some (if b then NewNotFound (gvr_GroupResource brokerclustersResource) name
                        else NewAlreadyExists (gvr_GroupResource brokerclustersResource) name))"
proof -
  let ?objs = "objects_of brokerclustersResource t" and ?x = "in_namespace ns x"
  let ?P = "\<lambda>y. cluster_id y = (ns, name)"
  have id: "cluster_id ?x = (ns, name)" using in_namespace_id [OF belongs_namespace [OF x]] by (simp add: name_def)
  have ns: "ns \<noteq> ''''" "name \<noteq> ''''" using x by (simp_all add: belongs_def name_def)
  note add = tracker_add_eq [OF belongs_namespace [OF x], of brokerclustersResource b t, folded name_def]
  show ?thesis
  proof (cases "find_index ?P ?objs")
    case None
    then have free: "tracker_map t (ns, name) = None" by (simp add: tracker_map_def find_index_find)
    show ?thesis
    proof (cases b)
      case True
      then show ?thesis using step add None free ok by simp
    next
      case False
      then have t': "objects_of brokerclustersResource t' = ?objs @ [?x]" "e = None"
        using step add None by (auto simp: objects_of_def)
      have "tracker_ok t'" using ok free id ns unfolding tracker_ok_def t' tracker_map_def find_key_None by auto
      moreover have "tracker_map t' = (tracker_map t)((ns, name) \<mapsto> ?x)"
        using free id by (auto simp: fun_eq_iff tracker_map_def t' find_append split: option.splits)
      ultimately show ?thesis using False free t' by simp
    qed
  next
    case (Some i)
    then have used: "tracker_map t (ns, name) \<noteq> None" by (simp add: tracker_map_def find_index_find)
    show ?thesis
    proof (cases b)
      case False
      then show ?thesis using step add Some used ok by simp
    next
      case True
      then have t': "objects_of brokerclustersResource t' = ?objs[i := ?x]" "e = None"
        using step add Some by (auto simp: objects_of_def)
      have "tracker_ok t'"
        using ok id ns set_update_subset_insert [of ?objs i ?x] map_replace [OF Some, of ?x]
        unfolding tracker_ok_def t' by auto
      moreover have "tracker_map t' = (tracker_map t)((ns, name) \<mapsto> ?x)"
        using find_replace [OF Some id] by (auto simp: fun_eq_iff tracker_map_def t')
      ultimately show ?thesis using True used t' by auto
    qed
  qed
qed

lemma tracker_Delete_map:
  assumes ok: "tracker_ok t" and step: "tracker_Delete brokerclustersResource ns name t = (t', e)"
  shows "tracker_ok t' \<and> tracker_map t' = (tracker_map t)((ns, name) := None) \<and>
    e = (if tracker_map t (ns, name) = None then Some (NewNotFound (gvr_GroupResource brokerclustersResource) name) else None)"
proof -
  let ?objs = "objects_of brokerclustersResource t" and ?P = "\<lambda>y. cluster_id y = (ns, name)"
  show ?thesis
  proof (cases "find_index ?P ?objs")
    case None
    then have "tracker_map t (ns, name) = None" by (simp add: tracker_map_def find_index_find)
    then show ?thesis using step None ok by (simp add: tracker_Delete_def Let_def same_key_id fun_upd_idem)
  next
    case (Some i)
    then have used: "tracker_map t (ns, name) \<noteq> None" by (simp add: tracker_map_def find_index_find)
    have t': "objects_of brokerclustersResource t' = take i ?objs @ drop (Suc i) ?objs" "e = None"
      using step Some by (auto simp: tracker_Delete_def Let_def same_key_id objects_of_def)
    have "distinct (map cluster_id ?objs)" using ok by (simp add: tracker_ok_def)
    then have "tracker_map t' = (tracker_map t)((ns, name) := None)"
      using find_remove [OF Some] by (auto simp: fun_eq_iff tracker_map_def t')
    moreover have "tracker_ok t'"
      using ok remove_distinct remove_set [of i ?objs] unfolding tracker_ok_def t' by blast
    ultimately show ?thesis using used t' by simp
  qed
qed

text \<open>The typed fake on a tracker.\<close>

lemma fake_Get_map:
  assumes "fake_ok c" "ns \<noteq> ''''" "name \<noteq> ''''"
  shows "Fake_Get ns name c =
    (c\<lparr>fk_actions := fk_actions c @ [GetAction brokerclustersResource ns name]\<rparr>, fake_map c (ns, name),
     if fake_map c (ns, name) = None then Some (NewNotFound (gvr_GroupResource brokerclustersResource) name) else None)"
  using assms tracker_Get_map [of "fk_tracker c" ns name]
  by (auto simp: fake_ok_def Fake_Get_def Invokes_object_reactor ObjectReaction_def one_object_def reply_of_def
      fake_map_def split: option.splits)

lemma fake_write_map:
  assumes ok: "fake_ok c" and x: "belongs ns x"
    and w: "w = Fake_Create ns x c \<and> \<not> b \<or> w = Fake_Update ns x c \<and> b" and w': "w = (c', r, e)"
  defines "k \<equiv> (ns, om_Name (om_of x))"
  shows "fake_ok c' \<and> (if (fake_map c k \<noteq> None) = b
      then fake_map c' = (fake_map c)(k \<mapsto> in_namespace ns x) \<and> r = Some (in_namespace ns x) \<and> e = None
      else fake_map c' = fake_map c \<and> r = None \<and>
        e = Some (if b then NewNotFound (gvr_GroupResource brokerclustersResource) (om_Name (om_of x))
                  else NewAlreadyExists (gvr_GroupResource brokerclustersResource) (om_Name (om_of x))))"
proof -
  obtain t' e' where t: "tracker_add brokerclustersResource x ns b (fk_tracker c) = (t', e')" by fastforce
  have chain: "fk_ReactionChain c = [object_reactor]" "fk_WatchReactionChain c = [watch_reactor]"
    and t_ok: "tracker_ok (fk_tracker c)"
    using ok by (simp_all add: fake_ok_def)
  note step = tracker_add_map [OF t_ok x t]
  have names: "ns \<noteq> ''''" "om_Name (om_of x) \<noteq> ''''" using x by (simp_all add: belongs_def)
  define a :: "ListOptions action" where "a = (if b then UpdateAction brokerclustersResource ns x else CreateAction brokerclustersResource ns '''' x)"
  have "w = (c\<lparr>fk_actions := fk_actions c @ [a], fk_tracker := t'\<rparr>,
      case e' of Some err \<Rightarrow> (None, Some err) | None \<Rightarrow>
        (tracker_map t' k, if tracker_map t' k = None
           then Some (NewNotFound (gvr_GroupResource brokerclustersResource) (om_Name (om_of x))) else None))"
    using w t tracker_Get_map [OF conjunct1 [OF step] names]
    by (auto simp: Fake_Create_def Fake_Update_def Invokes_object_reactor [OF chain(1)] ObjectReaction_def one_object_def
        reply_of_def tracker_Create_def tracker_Update_def k_def a_def split: option.splits)
  then show ?thesis using w' step chain by (auto simp: fake_ok_def fake_map_def k_def split: if_splits)
qed

lemma fake_Delete_map:
  assumes ok: "fake_ok c" and step: "Fake_Delete ns name opts c = (c', e)"
  shows "fake_ok c' \<and> fake_map c' = (fake_map c)((ns, name) := None) \<and>
    e = (if fake_map c (ns, name) = None then Some (NewNotFound (gvr_GroupResource brokerclustersResource) name) else None)"
proof -
  obtain t' e' where t: "tracker_Delete brokerclustersResource ns name (fk_tracker c) = (t', e')" by fastforce
  have chain: "fk_ReactionChain c = [object_reactor]" "fk_WatchReactionChain c = [watch_reactor]"
    and t_ok: "tracker_ok (fk_tracker c)"
    using ok by (simp_all add: fake_ok_def)
  have "c' = c\<lparr>fk_actions := fk_actions c @ [DeleteAction brokerclustersResource ns name], fk_tracker := t'\<rparr>" "e = e'"
    using step t by (auto simp: Fake_Delete_def Invokes_object_reactor [OF chain(1)] ObjectReaction_def)
  then show ?thesis using tracker_Delete_map [OF t_ok t] chain by (auto simp: fake_ok_def fake_map_def)
qed

lemma fake_errors:
  "IsNotFound (Some (NewNotFound gr name))" "ReasonForError (Some (NewAlreadyExists gr name)) = ReasonAlreadyExists"
  by (simp_all add: IsNotFound_def NewNotFound_def NewAlreadyExists_def)

interpretation fake_store: cluster_store fake_ok fake_map Fake_Get Fake_Create Fake_Update
  "\<lambda>ns name. Fake_Delete ns name None" belongs "\<lambda>ns x. (ns, om_Name (om_of x))" in_namespace
  "\<lambda>ns name. ns \<noteq> '''' \<and> name \<noteq> ''''"
proof (unfold_locales, goal_cases)
  case (1 s ns n s' r e)
  then show ?case using fake_Get_map [of s ns n]
    by (auto simp: fake_ok_def fake_map_def fake_errors split: if_splits)
next
  case (2 s ns x s' r e)
  then show ?case using fake_write_map [of s ns x "(s', r, e)" False s' r e] by (auto simp: fake_errors split: if_splits)
next
  case (3 s ns x s' r e)
  then show ?case using fake_write_map [of s ns x "(s', r, e)" True s' r e] by (auto simp: fake_errors split: if_splits)
next
  case (4 s ns n s' e)
  then show ?case using fake_Delete_map [of s ns n None s' e] by (auto simp: fake_errors)
next
  case (5 ns x ns' n)
  then show ?case by (auto simp: belongs_def)
qed

lemma brokerclusters_guessed: "UnsafeGuessKindToResource brokerclustersKind = brokerclustersResource"
  by code_simp

lemma add_objects_map:
  assumes "add_objects objects t = Some t'" "tracker_ok t" "\<forall>x \<in> set objects. belongs (om_Namespace (om_of x)) x"
  shows "tracker_ok t' \<and> tracker_map t' = (\<lambda>k. case tracker_map t k of Some x \<Rightarrow> Some x
      | None \<Rightarrow> find (\<lambda>x. cluster_id x = k) objects)"
  using assms
proof (induction objects arbitrary: t)
  case (Cons x objects)
  let ?ns = "om_Namespace (om_of x)"
  obtain s e where s: "tracker_add brokerclustersResource x ?ns False t = (s, e)" by fastforce
  have rest: "e = None" "add_objects objects s = Some t'"
    using Cons.prems(1) s by (auto simp: tracker_Add_def brokerclusters_guessed split: option.splits)
  have x: "belongs ?ns x" using Cons.prems(3) by simp
  have id: "in_namespace ?ns x = x" "cluster_id x = (?ns, om_Name (om_of x))"
    using x by (auto simp: in_namespace_def belongs_def cluster_id_def)
  have "tracker_ok s" "tracker_map s = (tracker_map t)(cluster_id x \<mapsto> x)" "tracker_map t (cluster_id x) = None"
    using tracker_add_map [OF Cons.prems(2) x s] rest(1) id by (auto split: if_splits)
  then show ?case using Cons.IH [OF rest(2)] Cons.prems(3) by (auto simp: fun_eq_iff split: option.splits)
qed (auto simp: fun_eq_iff split: option.splits)

lemma NewSimpleClientset_map:
  assumes "NewSimpleClientset objects = Some c" "\<forall>x \<in> set objects. belongs (om_Namespace (om_of x)) x"
  shows "fake_ok c \<and> fake_map c = (\<lambda>k. find (\<lambda>x. cluster_id x = k) objects)"
proof -
  have empty: "tracker_ok NewObjectTracker" "tracker_map NewObjectTracker = Map.empty"
    by (auto simp: NewObjectTracker_def tracker_ok_def objects_of_def tracker_map_def)
  show ?thesis
    using assms(1) add_objects_map [OF _ empty(1) assms(2)]
    by (auto simp: NewSimpleClientset_def AddReactor_def AddWatchReactor_def object_reactor_def watch_reactor_def
        fake_ok_def fake_map_def empty(2) split: option.splits)
qed


text \<open>
  What the fake does not do. Patching and deleting a collection are recorded and change
  nothing: the patch answers with an empty cluster and the deletion with success (it panics on
  selectors that do not parse), whatever the store holds. Creating or updating an object of another namespace is refused with
  BadRequest, and only recorded.
\<close>

theorem fake_unsupported:
  assumes "fake_ok c" "om_Namespace (om_of x) \<notin> {'''', ns}"
  shows "Fake_Patch ns name pt data ss c = (c\<lparr>fk_actions := fk_actions c @
      [PatchAction brokerclustersResource ns name data (path_Join ss)]\<rparr>, Some empty_cluster, None) \<and>
    Fake_DeleteCollection ps ns dopts lopts c = map_option (\<lambda>_.
      (c\<lparr>fk_actions := fk_actions c @ [DeleteCollectionAction brokerclustersResource ns lopts]\<rparr>, None))
      (ExtractFromListOptions ps lopts) \<and>
    (\<exists>e. Fake_Create ns x c = (c\<lparr>fk_actions := fk_actions c @ [CreateAction brokerclustersResource ns '''' x]\<rparr>, None, Some e) \<and>
         Fake_Update ns x c = (c\<lparr>fk_actions := fk_actions c @ [UpdateAction brokerclustersResource ns x]\<rparr>, None, Some e) \<and>
         ReasonForError (Some e) = ReasonBadRequest)"
  using assms tracker_add_foreign [of x ns brokerclustersResource _ "fk_tracker c"]
  by (simp_all add: fake_ok_def Fake_Patch_def Fake_DeleteCollection_def Fake_Create_def Fake_Update_def
      Invokes_object_reactor ObjectReaction_def one_object_def tracker_Create_def tracker_Update_def NewBadRequest_def
      split: option.split)

text \<open>
  A list of the fake holds exactly the stored clusters of its namespace, of all namespaces
  when that is empty, whose labels match; the field selector is parsed and otherwise ignored.
  The order is that of the store, no cluster is listed twice, and the list changes nothing but
  the record of actions.
\<close>

theorem fake_lists_matching:
  assumes "fake_ok c"
  shows "case ExtractFromListOptions ps opts of
      None \<Rightarrow> Fake_List ps ns opts c = None
    | Some label \<Rightarrow> \<exists>items.
        Fake_List ps ns opts c = Some (c\<lparr>fk_actions := fk_actions c @
          [ListAction brokerclustersResource brokerclustersKind ns opts]\<rparr>, Some items, None) \<and>
        distinct items \<and>
        (\<forall>x. x \<in> set items \<longleftrightarrow> (\<exists>k. fake_map c k = Some x \<and> (ns = '''' \<or> fst k = ns) \<and>
           label (case om_Labels (bc_ObjectMeta x) of None \<Rightarrow> Map.empty | Some m \<Rightarrow> m)))"
proof -
  let ?objs = "objects_of brokerclustersResource (fk_tracker c)"
  have dist: "distinct (map cluster_id ?objs)" using assms by (simp add: fake_ok_def tracker_ok_def)
  have stored: "(\<exists>k. fake_map c k = Some x \<and> P k) \<longleftrightarrow> x \<in> set ?objs \<and> P (cluster_id x)" for x P
  proof
    assume "\<exists>k. fake_map c k = Some x \<and> P k"
    then show "x \<in> set ?objs \<and> P (cluster_id x)"
      by (auto simp: fake_map_def tracker_map_def find_Some_iff)
  next
    assume x: "x \<in> set ?objs \<and> P (cluster_id x)"
    then have "find (\<lambda>y. cluster_id y = cluster_id x) ?objs \<noteq> None" by (auto simp: find_None_iff)
    then obtain y where y: "find (\<lambda>y. cluster_id y = cluster_id x) ?objs = Some y" by blast
    then have "y \<in> set ?objs" "cluster_id y = cluster_id x" by (auto simp: find_Some_iff)
    then have "y = x" using x dist by (auto simp: distinct_map inj_on_def)
    then show "\<exists>k. fake_map c k = Some x \<and> P k" using x y
      by (intro exI [of _ "cluster_id x"]) (simp add: fake_map_def tracker_map_def)
  qed
  have "tracker_List brokerclustersResource ns (fk_tracker c) = filter (\<lambda>x. ns = '''' \<or> fst (cluster_id x) = ns) ?objs"
    by (auto simp: tracker_List_def filterByNamespaceAndName_def objects_of_def cluster_id_def split: option.split
        intro!: filter_cong)
  then have run: "Invokes (ListAction brokerclustersResource brokerclustersKind ns opts) (ObjectList []) c =
      (c\<lparr>fk_actions := fk_actions c @ [ListAction brokerclustersResource brokerclustersKind ns opts]\<rparr>,
       ObjectList (filter (\<lambda>x. ns = '''' \<or> fst (cluster_id x) = ns) ?objs), None)"
    using assms by (simp add: fake_ok_def Invokes_object_reactor ObjectReaction_def)
  have member: "(\<exists>k. fake_map c k = Some x \<and> (ns = '''' \<or> fst k = ns) \<and> Q x) \<longleftrightarrow>
      x \<in> set ?objs \<and> (ns = '''' \<or> fst (cluster_id x) = ns) \<and> Q x" for x Q
    using stored [of x "\<lambda>k. (ns = '''' \<or> fst k = ns) \<and> Q x"] by simp
  show ?thesis
  proof (cases "ExtractFromListOptions ps opts")
    case None
    then show ?thesis by (simp add: Fake_List_def)
  next
    case (Some label)
    let ?items = "filter (\<lambda>x. label (case om_Labels (bc_ObjectMeta x) of None \<Rightarrow> Map.empty | Some m \<Rightarrow> m))
        (filter (\<lambda>x. ns = '''' \<or> fst (cluster_id x) = ns) ?objs)"
    have "Fake_List ps ns opts c = Some (c\<lparr>fk_actions := fk_actions c @
        [ListAction brokerclustersResource brokerclustersKind ns opts]\<rparr>, Some ?items, None)"
      unfolding Fake_List_def Some run by simp
    moreover have "distinct ?items" using dist by (simp add: distinct_map)
    moreover have "x \<in> set ?items \<longleftrightarrow> (\<exists>k. fake_map c k = Some x \<and> (ns = '''' \<or> fst k = ns) \<and>
        label (case om_Labels (bc_ObjectMeta x) of None \<Rightarrow> Map.empty | Some m \<Rightarrow> m))" for x
      unfolding member [of x "\<lambda>x. label (case om_Labels (bc_ObjectMeta x) of None \<Rightarrow> Map.empty | Some m \<Rightarrow> m)"]
      by (simp only: set_filter mem_Collect_eq) blast
    ultimately show ?thesis unfolding Some option.case by blast
  qed
qed

text \<open>
  Watches: the events of a write go to the watchers of its namespace and of all namespaces.
  Every watcher is numbered once and watches one namespace.
\<close>

definition watchers_ok :: "tracker \<Rightarrow> bool" where
  "watchers_ok t \<longleftrightarrow>
     (\<forall>gvr ns. distinct (tk_watchers t gvr ns) \<and> (\<forall>i \<in> set (tk_watchers t gvr ns). i < tk_next t)) \<and>
     (\<forall>gvr ns ns'. ns \<noteq> ns' \<longrightarrow> set (tk_watchers t gvr ns) \<inter> set (tk_watchers t gvr ns') = {})"

lemma watchers_ok_new: "watchers_ok NewObjectTracker"
  by (simp add: watchers_ok_def NewObjectTracker_def)

lemma watchers_ok_Watch:
  assumes "watchers_ok t"
  shows "watchers_ok (fst (tracker_Watch gvr ns t))"
proof -
  have lt: "j < tk_next t" if "j \<in> set (tk_watchers t g n)" for j g n using that assms by (auto simp: watchers_ok_def)
  have "tk_next t \<notin> set (tk_watchers t g n)" for g n using lt by blast
  then show ?thesis using assms
    by (auto simp: watchers_ok_def tracker_Watch_def Let_def less_Suc_eq)
qed

lemma notify_watchers [simp]: "tk_watchers (notify e ws t) = tk_watchers t" "tk_next (notify e ws t) = tk_next t"
  unfolding notify_def by (induction ws arbitrary: t) auto

lemma writes_keep_watchers:
  "tk_watchers (fst (tracker_add gvr x ns b t)) = tk_watchers t \<and> tk_next (fst (tracker_add gvr x ns b t)) = tk_next t"
  "tk_watchers (fst (tracker_Delete gvr ns name t)) = tk_watchers t \<and> tk_next (fst (tracker_Delete gvr ns name t)) = tk_next t"
proof -
  show "tk_watchers (fst (tracker_add gvr x ns b t)) = tk_watchers t \<and> tk_next (fst (tracker_add gvr x ns b t)) = tk_next t"
    using tracker_add_eq [of x ns gvr b t] tracker_add_foreign [of x ns gvr b t]
    by (cases "om_Namespace (om_of x) \<in> {'''', ns}") (simp_all split: option.split)
  show "tk_watchers (fst (tracker_Delete gvr ns name t)) = tk_watchers t \<and> tk_next (fst (tracker_Delete gvr ns name t)) = tk_next t"
    by (simp add: tracker_Delete_def Let_def split: option.split)
qed

lemma watchers_ok_writes:
  "watchers_ok t \<Longrightarrow> watchers_ok (fst (tracker_add gvr x ns b t))"
  "watchers_ok t \<Longrightarrow> watchers_ok (fst (tracker_Delete gvr ns name t))"
  unfolding watchers_ok_def writes_keep_watchers [THEN conjunct1] writes_keep_watchers [THEN conjunct2]
  by assumption+

lemma watchers_okD:
  assumes "watchers_ok t"
  shows "distinct (tk_watchers t gvr ns)" "i \<in> set (tk_watchers t gvr ns) \<Longrightarrow> i < tk_next t"
    "ns \<noteq> ns' \<Longrightarrow> set (tk_watchers t gvr ns) \<inter> set (tk_watchers t gvr ns') = {}"
  using assms unfolding watchers_ok_def by blast+

lemma watched_events:
  assumes "watchers_ok t" "tracker_Watch gvr wns t = (t0, i)" "ns \<noteq> ''''"
  shows "distinct (getWatches gvr ns t0)" "i \<in> set (getWatches gvr ns t0) \<longleftrightarrow> wns \<in> {'''', ns}"
proof -
  have ok: "watchers_ok t0" using watchers_ok_Watch [OF assms(1), of gvr wns] assms(2) by simp
  show "distinct (getWatches gvr ns t0)"
    by (simp add: getWatches_def watchers_okD(1) [OF ok] watchers_okD(3) [OF ok assms(3)])
  have "i \<in> set (tk_watchers t0 gvr wns)" using assms(2) by (auto simp: tracker_Watch_def Let_def)
  moreover from this have "n = wns" if "i \<in> set (tk_watchers t0 gvr n)" for n
    using that watchers_okD(3) [OF ok, of n wns gvr] by blast
  ultimately show "i \<in> set (getWatches gvr ns t0) \<longleftrightarrow> wns \<in> {'''', ns}"
    unfolding getWatches_def set_append by blast
qed

lemma notify_events:
  "distinct ws \<Longrightarrow> tk_events (notify e ws t) i = (if i \<in> set ws then tk_events t i @ [e] else tk_events t i)"
  unfolding notify_def by (induction ws arbitrary: t) auto

text \<open>
  A watch sees the writes of its namespace. After a watch of a namespace, or of all of
  them, a successful creation adds one Added event with the stored cluster to its channel, a
  successful update one Modified event, and a deletion one Deleted event with the cluster that
  was stored; a failed write adds none. A watch of the wrong namespace gets none.
\<close>

theorem watch_sees_writes:
  assumes ok: "watchers_ok t" and watched: "tracker_Watch brokerclustersResource wns t = (t0, i)" and x: "belongs ns x"
  defines "seen \<equiv> \<lambda>e. if wns \<in> {'''', ns} then [e] else []"
    and "found \<equiv> tracker_map t (ns, om_Name (om_of x))"
  shows "tk_events (fst (tracker_Create brokerclustersResource x ns t0)) i =
      (if found = None then seen (Added (in_namespace ns x)) else []) \<and>
    tk_events (fst (tracker_Update brokerclustersResource x ns t0)) i =
      (if found = None then [] else seen (Modified (in_namespace ns x))) \<and>
    tk_events (fst (tracker_Delete brokerclustersResource ns (om_Name (om_of x)) t0)) i =
      (case found of None \<Rightarrow> [] | Some y \<Rightarrow> seen (Deleted y))"
proof -
  let ?P = "\<lambda>y. cluster_id y = (ns, om_Name (om_of x))" and ?objs = "objects_of brokerclustersResource t"
  have i: "i = tk_next t" and t0: "objects_of brokerclustersResource t0 = ?objs" "tk_events t0 i = []"
    using watched by (auto simp: tracker_Watch_def Let_def objects_of_def)
  have ns: "ns \<noteq> ''''" using x by (simp add: belongs_def)
  note ws = watched_events [OF ok watched ns]
  have found: "found = map_option ((!) ?objs) (find_index ?P ?objs)"
    by (simp add: found_def tracker_map_def find_index_find)
  note defs = tracker_add_eq [OF belongs_namespace [OF x]] t0(1) found seen_def
  have "tk_events (fst (tracker_Create brokerclustersResource x ns t0)) i =
      (if found = None then seen (Added (in_namespace ns x)) else [])"
    unfolding tracker_Create_def defs
    by (cases "find_index ?P ?objs") (simp_all add: notify_events [OF ws(1)] ws(2) t0(2))
  moreover have "tk_events (fst (tracker_Update brokerclustersResource x ns t0)) i =
      (if found = None then [] else seen (Modified (in_namespace ns x)))"
    unfolding tracker_Update_def defs
    by (cases "find_index ?P ?objs") (simp_all add: notify_events [OF ws(1)] ws(2) t0(2))
  moreover have "tk_events (fst (tracker_Delete brokerclustersResource ns (om_Name (om_of x)) t0)) i =
      (case found of None \<Rightarrow> [] | Some y \<Rightarrow> seen (Deleted y))"
    unfolding tracker_Delete_def Let_def same_key_id defs
    by (cases "find_index ?P ?objs") (simp_all add: notify_events [OF ws(1)] ws(2) t0(2))
  ultimately show ?thesis by blast
qed

section \<open>A sample\<close>

definition sample_fake :: fake where
  "sample_fake = AddWatchReactor ''*'' watch_reaction (AddReactor ''*'' ''*'' ObjectReaction
     \<lparr>fk_actions = [], fk_ReactionChain = [], fk_WatchReactionChain = [],
      fk_tracker = fst (tracker_Add brokerclustersKind sample_cluster NewObjectTracker)\<rparr>)"

lemma sample_belongs: "belongs ''rocketmq-operator'' sample_cluster"
  by code_simp

lemma sample_stored: "NewSimpleClientset [sample_cluster] = Some sample_fake"
proof -
  have "snd (tracker_Add brokerclustersKind sample_cluster NewObjectTracker) = None" by code_simp
  then have "tracker_Add brokerclustersKind sample_cluster NewObjectTracker =
      (fst (tracker_Add brokerclustersKind sample_cluster NewObjectTracker), None)" by (metis prod.collapse)
  then have "add_objects [sample_cluster] NewObjectTracker = Some (fst (tracker_Add brokerclustersKind sample_cluster NewObjectTracker))"
    by (metis (no_types, lifting) add_objects.simps case_prod_conv option.simps(4))
  then show ?thesis by (simp add: NewSimpleClientset_def sample_fake_def)
qed

lemma sample_fake_ok: "fake_ok sample_fake"
  using NewSimpleClientset_map [OF sample_stored] sample_belongs by (simp add: om_of_def)


theorem fake_unsupported_witness:
  "snd (Fake_Patch ''prod'' ''mybrokercluster'' ''merge'' ''{}'' [] sample_fake) = (Some empty_cluster, None)"
proof -
  have "om_Namespace (om_of sample_cluster) \<notin> {'''', ''prod''}" by code_simp
  then show ?thesis using fake_unsupported [OF sample_fake_ok, of sample_cluster "''prod''" "''mybrokercluster''"] by simp
qed

theorem watch_sees_writes_witness:
  "tk_events (fst (tracker_Create brokerclustersResource sample_cluster ''rocketmq-operator''
     (fst (tracker_Watch brokerclustersResource '''' NewObjectTracker)))) 0 = [Added sample_cluster]"
proof -
  have "tracker_Watch brokerclustersResource '''' NewObjectTracker =
      (fst (tracker_Watch brokerclustersResource '''' NewObjectTracker), 0)"
    by (simp add: tracker_Watch_def Let_def NewObjectTracker_def)
  moreover have "tracker_map NewObjectTracker k = None" for k
    by (simp add: tracker_map_def objects_of_def NewObjectTracker_def)
  moreover have "in_namespace ''rocketmq-operator'' sample_cluster = sample_cluster" by (simp add: in_namespace_def om_of_def)
  ultimately show ?thesis using watch_sees_writes [OF watchers_ok_new _ sample_belongs] by simp
qed

definition sample_parsers :: selector_parsers where
  "sample_parsers = \<lparr>sp_labels = (\<lambda>s. if s = '''' then Some (\<lambda>_. True) else None), sp_fields = (\<lambda>s. s = '''')\<rparr>"

definition all_objects :: ListOptions where
  "all_objects = \<lparr>lo_LabelSelector = '''', lo_FieldSelector = '''', lo_IncludeUninitialized = False, lo_Watch = False,
     lo_ResourceVersion = '''', lo_TimeoutSeconds = None, lo_Limit = 0, lo_Continue = ''''\<rparr>"

theorem fake_lists_matching_witness:
  "\<exists>c items. Fake_List sample_parsers '''' all_objects sample_fake = Some (c, Some items, None) \<and> set items = {sample_cluster}"
proof -
  have parsed: "ExtractFromListOptions sample_parsers all_objects = Some (\<lambda>_. True)"
    by (simp add: ExtractFromListOptions_def sample_parsers_def all_objects_def)
  have "fake_map sample_fake = (\<lambda>k. find (\<lambda>x. cluster_id x = k) [sample_cluster])"
    using NewSimpleClientset_map [OF sample_stored] sample_belongs by (simp add: om_of_def)
  then have stored: "(\<exists>k. fake_map sample_fake k = Some x) \<longleftrightarrow> x = sample_cluster" for x by auto
  obtain items where items: "Fake_List sample_parsers '''' all_objects sample_fake =
      Some (sample_fake\<lparr>fk_actions := fk_actions sample_fake @
        [ListAction brokerclustersResource brokerclustersKind '''' all_objects]\<rparr>, Some items, None)"
    "\<forall>x. x \<in> set items \<longleftrightarrow> (\<exists>k. fake_map sample_fake k = Some x)"
    using fake_lists_matching [OF sample_fake_ok, where ps = sample_parsers and opts = all_objects and ns = "''''"] by (auto simp: parsed)
  then show ?thesis using stored by auto
qed

end
