(* ===== verification/Status_Delivery.thy ===== *)
theory Status_Delivery
  imports Controller Fake_Clientset
begin

text \<open>
  The controller's status updates end to end: what the typed client sends for them, and what
  becomes of them in the store of the fake clientset as the API server.

  \<open>wire_client\<close> and \<open>fake_client\<close> put the clients of the repository in the place of the parameter
  \<open>cl_UpdateCluster\<close>: the environment is the state of the transport, or the fake.
\<close>

section \<open>Clients\<close>

definition wire_client :: "codec \<Rightarrow> 'w transport \<Rightarrow> Clientset \<Rightarrow> 'w client \<Rightarrow> 'w client" where
  "wire_client co tr cs cl =
     cl\<lparr>cl_UpdateCluster := (\<lambda>e ns x. Clusters_Update co tr (ROCKETMQ_BrokerClusters (ROCKETMQV1alpha1 cs) ns) x e)\<rparr>"

definition fake_client :: "fake client \<Rightarrow> fake client" where
  "fake_client cl =
     cl\<lparr>cl_UpdateCluster := (\<lambda>e ns x. case Fake_Update ns x e of
          (e', _, Some err) \<Rightarrow> (e', Inl err)
        | (e', r, None) \<Rightarrow> (e', Inr (case r of Some y \<Rightarrow> y | None \<Rightarrow> empty_cluster)))\<rparr>"

section \<open>A first attempt that is not repeated\<close>

lemma RetryOnConflict_once:
  assumes "fn s = (s', e)" "\<not> IsConflict e" "e \<noteq> Some ErrWaitTimeout"
  shows "RetryOnConflict (Suc n) sleep fn s = (s', e)"
  using assms by (cases e) (auto simp: RetryOnConflict_def conflict_condition_def)

lemma UpdateClusterStatus_once:
  assumes "update_status_attempt cl s (w, p) = ((w', q), e)" "\<not> IsConflict e" "e \<noteq> Some ErrWaitTimeout"
  shows "UpdateClusterStatus cl p s w = ((w', q), e)"
  using RetryOnConflict_once [where fn = "update_status_attempt cl s" and s = "(w, p)" and s' = "(w', q)", OF assms]
  by (simp only: UpdateClusterStatus_def DefaultRetry_Steps_def numeral_eq_Suc pred_numeral_simps)

text \<open>The cluster an attempt sends.\<close>

definition with_status :: "status_val \<Rightarrow> cluster_val \<Rightarrow> cluster_val" where
  "with_status v x = x\<lparr>Status := v\<rparr>"

lemma sent_cluster:
  "cluster_at (store_status h (StatusOf q) (h_statuses h s)) q = with_status (status_val_of h (h_statuses h s)) (cluster_at h q)"
  using cluster_at_store_status [of h q "h_statuses h s"]
  by (simp add: with_status_def cluster_at_def cluster_map_def cluster_val_of_def store_status_of del: store_status.simps)

lemma reload_keeps_env: "reload_cluster p e w = ((w', q), err) \<Longrightarrow> w_env w' = w_env w"
  by (auto simp: reload_cluster_def Let_def split: sum.splits prod.splits option.splits)

lemma attempt_calls:
  assumes "update_status_attempt cl s (w, q) = ((w', q'), e)"
  defines "x \<equiv> cluster_at (w_heap w) q"
    and "v \<equiv> status_val_of (w_heap w) (h_statuses (w_heap w) s)"
  shows "\<exists>r. cl_UpdateCluster cl (w_env w) (om_Namespace (bc_ObjectMeta x)) (with_status v x) = (w_env w', r) \<and>
    (case r of Inr _ \<Rightarrow> e = None | Inl err \<Rightarrow> e = Some err \<or> IsNotFound e)"
proof -
  define w1 where "w1 = w\<lparr>w_heap := store_status (w_heap w) (StatusOf q) (h_statuses (w_heap w) s)\<rparr>"
  let ?ns = "om_Namespace (bc_ObjectMeta (h_clusters (w_heap w1) q))"
  obtain w2 r where up: "BrokerClusters_Update cl ?ns q w1 = (w2, r)" by fastforce
  have "cluster_at (w_heap w1) q = with_status v x" by (simp add: w1_def sent_cluster x_def v_def del: store_status.simps)
  moreover have "?ns = om_Namespace (bc_ObjectMeta x)" "w_env w1 = w_env w"
    by (simp_all add: w1_def x_def store_status_of cluster_at_def del: store_status.simps)
  ultimately have call: "cl_UpdateCluster cl (w_env w) (om_Namespace (bc_ObjectMeta x)) (with_status v x) = (w_env w2, r)"
    using up by (auto simp: BrokerClusters_Update_def call_api_def Let_def split: prod.splits)
  note rest = status_attempt_step [OF assms(1) w1_def, unfolded up prod.case]
  show ?thesis
  proof (cases r)
    case (Inr y)
    then show ?thesis using rest call by auto
  next
    case (Inl err)
    then have "reload_cluster q err w2 = ((w', q'), e)" using rest by simp
    then show ?thesis using call Inl reload_keeps_env reload_cluster_parts(4) by fastforce
  qed
qed

section \<open>Into the store of the fake\<close>

lemma fake_attempt:
  assumes ok: "fake_ok (w_env w)" and run: "update_status_attempt (fake_client cl) s (w, q) = ((w', q'), e)"
    and own: "belongs (om_Namespace (om_of (cluster_at (w_heap w) q))) (cluster_at (w_heap w) q)"
  defines "x \<equiv> cluster_at (w_heap w) q"
    and "v \<equiv> status_val_of (w_heap w) (h_statuses (w_heap w) s)"
  shows "fake_ok (w_env w') \<and>
    (if fake_map (w_env w) (cluster_id x) = None then fake_map (w_env w') = fake_map (w_env w) \<and> IsNotFound e
     else fake_map (w_env w') = (fake_map (w_env w))(cluster_id x \<mapsto> with_status v x) \<and> e = None)"
proof -
  let ?ns = "om_Namespace (om_of x)" and ?y = "with_status v x"
  have y: "om_of ?y = om_of x" by (simp add: with_status_def om_of_def)
  have bel: "belongs ?ns ?y" using own unfolding belongs_def y x_def [symmetric] by simp
  have id: "(?ns, om_Name (om_of ?y)) = cluster_id x" by (simp add: y cluster_id_def)
  have same: "in_namespace ?ns ?y = ?y" using bel by (auto simp: in_namespace_def belongs_def y)
  obtain c r err where up: "Fake_Update ?ns ?y (w_env w) = (c, r, err)" by (metis prod_cases3)
  note step = fake_write_map [OF ok bel, of "(c, r, err)" True c r err, unfolded id same, simplified up, simplified]
  obtain z where z: "cl_UpdateCluster (fake_client cl) (w_env w) ?ns ?y = (w_env w', z)"
    "case z of Inr _ \<Rightarrow> e = None | Inl err \<Rightarrow> e = Some err \<or> IsNotFound e"
    using attempt_calls [OF run] unfolding x_def v_def om_of_def by blast
  have "w_env w' = c" "z = (case err of Some err \<Rightarrow> Inl err | None \<Rightarrow> Inr (case r of Some y \<Rightarrow> y | None \<Rightarrow> empty_cluster))"
    using z(1) up by (auto simp: fake_client_def split: option.splits)
  then show ?thesis using step z(2) by (auto simp: fake_errors split: if_splits)
qed


section \<open>Onto the wire\<close>

text \<open>
  What a status update looks like to the API server. With the typed client, one attempt to
  write the status of a cluster whose namespace and name are valid makes one exchange: a PUT
  of the whole encoded cluster at the cluster's own address, not at a status subresource; if
  encoding fails nothing is sent and the attempt fails.
\<close>

theorem status_on_the_wire:
  assumes run: "update_status_attempt (wire_client co tr cs cl) s (w, q) = ((w', q'), e)"
    and std: "standard_client pre (cs_ROCKETMQV1alpha1 cs)"
  defines "x \<equiv> cluster_at (w_heap w) q"
    and "v \<equiv> status_val_of (w_heap w) (h_statuses (w_heap w) s)"
  assumes names: "IsValidPathSegmentName (om_Namespace (bc_ObjectMeta x)) = []" "om_Namespace (bc_ObjectMeta x) \<noteq> ''''"
      "IsValidPathSegmentName (om_Name (bc_ObjectMeta x)) = []" "om_Name (bc_ObjectMeta x) \<noteq> ''''"
  shows "case co_Cluster co (with_status v x) of
      Inl err \<Rightarrow> w_env w' = w_env w \<and> e \<noteq> None
    | Inr d \<Rightarrow> w_env w' = fst (tr (w_env w)
        \<lparr>hq_verb = ''PUT'', hq_path = object_path pre (om_Namespace (bc_ObjectMeta x)) (om_Name (bc_ObjectMeta x)),
         hq_query = Map.empty, hq_ContentType = Some (rc_ContentType (cs_ROCKETMQV1alpha1 cs)), hq_body = Some d\<rparr>)"
proof -
  let ?ns = "om_Namespace (bc_ObjectMeta x)" and ?y = "with_status v x"
  have y: "bc_ObjectMeta ?y = bc_ObjectMeta x" by (simp add: with_status_def)
  obtain r where r: "Clusters_Update co tr (newBrokerClusters (cs_ROCKETMQV1alpha1 cs) ?ns) ?y (w_env w) = (w_env w', r)"
    "case r of Inr _ \<Rightarrow> e = None | Inl err \<Rightarrow> e = Some err \<or> IsNotFound e"
    using attempt_calls [OF run, folded x_def v_def]
    by (auto simp: wire_client_def ROCKETMQV1alpha1_def ROCKETMQ_BrokerClusters_def)
  then show ?thesis using update_put [OF std names(1,2), of ?y co tr "w_env w"] names(3,4)
    by (cases e) (auto simp: y send_def split: sum.splits prod.splits)
qed

section \<open>A sample\<close>

definition idle_client :: "'w client" where
  "idle_client =
     \<lparr>cl_CreateService = (\<lambda>e ns s. (e, Inr s)), cl_CreateStatefulSet = (\<lambda>e ns s. (e, Inr s)),
      cl_UpdateStatefulSet = (\<lambda>e ns s. (e, Inr s)),
      cl_PatchStatefulSet = (\<lambda>e ns n p. (e, Inl (MessageError ''not used''))),
      cl_UpdatePod = (\<lambda>e ns p. (e, Inr p)), cl_PatchPod = (\<lambda>e ns n p. (e, Inl (MessageError ''not used''))),
      cl_UpdateCluster = (\<lambda>e ns c. (e, Inr c)), cl_MarshalStatefulSet = (\<lambda>s. Inr ''''),
      cl_MarshalPod = (\<lambda>p. Inr ''''), cl_MergePatchStatefulSet = (\<lambda>a b. Inr b),
      cl_MergePatchPod = (\<lambda>a b. Inr b), cl_Now = (\<lambda>_. 100), cl_Sleep = id\<rparr>"

definition world_with :: "'w \<Rightarrow> 'w world" where
  "world_with e = \<lparr>w_heap = sample_heap, w_clusters = Map.empty, w_services = Map.empty, w_statefulsets = Map.empty,
     w_env = e, w_trace = [], w_events = [], w_errors = []\<rparr>"


theorem status_on_the_wire_witness:
  "\<exists>w q e. update_status_attempt (wire_client sample_codec recording (Clientset_New sample_rest) idle_client) 1 (world_with [], 0) =
       ((w, q), e) \<and>
     w_env w = [\<lparr>hq_verb = ''PUT'',
       hq_path = ''/apis/rocketmq.huanwei.io/v1alpha1/namespaces/rocketmq-operator/brokerclusters/mybrokercluster'',
       hq_query = Map.empty, hq_ContentType = Some ''application/json'', hq_body = Some ''mybrokercluster''\<rparr>]"
proof -
  obtain w q e where run: "update_status_attempt (wire_client sample_codec recording (Clientset_New sample_rest) idle_client) 1
      (world_with [], 0) = ((w, q), e)" by (metis prod.collapse)
  have rc: "cs_ROCKETMQV1alpha1 (Clientset_New sample_rest) = sample_rest"
    by (simp add: Clientset_New_def ROCKETMQ_New_def)
  have x: "cluster_at sample_heap 0 = sample_cluster" by (simp add: sample_cluster_def)
  have ns: "IsValidPathSegmentName ''rocketmq-operator'' = []" by code_simp
  have path: "object_path [] ''rocketmq-operator'' ''mybrokercluster'' =
      ''/apis/rocketmq.huanwei.io/v1alpha1/namespaces/rocketmq-operator/brokerclusters/mybrokercluster''" by code_simp
  have "standard_client [] (cs_ROCKETMQV1alpha1 (Clientset_New sample_rest))" using sample_standard rc by simp
  note wire = status_on_the_wire [OF run this]
  have "w_env w = [\<lparr>hq_verb = ''PUT'', hq_path = object_path [] ''rocketmq-operator'' ''mybrokercluster'',
      hq_query = Map.empty, hq_ContentType = Some ''application/json'', hq_body = Some ''mybrokercluster''\<rparr>]"
    using wire ns sample_names(2) by (simp add: world_with_def x sample_codec_def recording_def with_status_def sample_rest_def Clientset_New_def
        ROCKETMQ_New_def)
  then show ?thesis using run path by auto
qed

end
