(* ===== verification/Client_Handles.thy ===== *)
theory Client_Handles
  imports Start_Up Fake_Clientset
begin

text \<open>
  The values through which the generated code hands out what other theories model: the fake
  clientset's accessors (\<open>clientset/versioned/fake/clientset_generated.go\<close>,
  \<open>typed/rocketmq/v1alpha1/fake\<close>) and the lister of a generic informer
  (\<open>informers/externalversions/generic.go\<close>).

  A fake clientset embeds its \<open>testing.Fake\<close>, and all that its accessors return are pointers to
  it; here the fakes are cells of a store, so that what two handles share is stated and not
  built in. The lemmas lift the contract of \<open>Fake_Clientset\<close> to handles: handles on one
  clientset show each other's writes, handles on another do not.
\<close>

section \<open>The fake clientset\<close>

type_synonym fakes = "addr \<Rightarrow> fake"

record FakeDiscovery =
  fd_Fake :: addr

text \<open>The embedded \<open>testing.Fake\<close> is known by its address \<open>&cs.Fake\<close>.\<close>

record FakeClientset =
  fcs_Fake :: addr
  fcs_discovery :: FakeDiscovery

record FakeROCKETMQV1alpha1 =
  fr_Fake :: addr

record FakeBrokerClusters =
  fb_Fake :: FakeROCKETMQV1alpha1
  fb_ns :: string

text \<open>\<open>NewSimpleClientset\<close>, the new clientset's fake at the address \<open>a\<close>\<close>

definition new_fake_clientset :: "addr \<Rightarrow> cluster_val list \<Rightarrow> fakes \<Rightarrow> (fakes \<times> FakeClientset) option" where
  "new_fake_clientset a objects h =
     (case NewSimpleClientset objects of
        None \<Rightarrow> None
      | Some c \<Rightarrow> Some (h(a := c), \<lparr>fcs_Fake = a, fcs_discovery = \<lparr>fd_Fake = a\<rparr>\<rparr>))"

definition Fake_Discovery :: "FakeClientset \<Rightarrow> FakeDiscovery" where
  "Fake_Discovery c = fcs_discovery c"

definition Fake_ROCKETMQV1alpha1 :: "FakeClientset \<Rightarrow> FakeROCKETMQV1alpha1" where
  "Fake_ROCKETMQV1alpha1 c = \<lparr>fr_Fake = fcs_Fake c\<rparr>"

definition Fake_ROCKETMQ :: "FakeClientset \<Rightarrow> FakeROCKETMQV1alpha1" where
  "Fake_ROCKETMQ c = \<lparr>fr_Fake = fcs_Fake c\<rparr>"

definition Fake_BrokerClusters :: "FakeROCKETMQV1alpha1 \<Rightarrow> string \<Rightarrow> FakeBrokerClusters" where
  "Fake_BrokerClusters c namespace = \<lparr>fb_Fake = c, fb_ns = namespace\<rparr>"

text \<open>
  \<open>RESTClient\<close> returns a nil \<open>*rest.RESTClient\<close> as an interface: the interface has a type, so
  it is not nil (the outer \<open>Some\<close>), and the pointer in it is.
\<close>

definition Fake_RESTClient :: "FakeROCKETMQV1alpha1 \<Rightarrow> RESTClient option option" where
  "Fake_RESTClient c = (let ret = None in Some ret)"

text \<open>A method of the typed fake works on the fake its pointers lead to.\<close>

definition on_fake :: "addr \<Rightarrow> (fake \<Rightarrow> fake \<times> 'r) \<Rightarrow> fakes \<Rightarrow> fakes \<times> 'r" where
  "on_fake a f h = (case f (h a) of (c, r) \<Rightarrow> (h(a := c), r))"

definition handle_Get :: "FakeBrokerClusters \<Rightarrow> string \<Rightarrow> fakes \<Rightarrow> fakes \<times> cluster_val option \<times> go_error option" where
  "handle_Get c name = on_fake (fr_Fake (fb_Fake c)) (Fake_Get (fb_ns c) name)"

definition handle_Create :: "FakeBrokerClusters \<Rightarrow> cluster_val \<Rightarrow> fakes \<Rightarrow> fakes \<times> cluster_val option \<times> go_error option" where
  "handle_Create c x = on_fake (fr_Fake (fb_Fake c)) (Fake_Create (fb_ns c) x)"

definition handle_Update :: "FakeBrokerClusters \<Rightarrow> cluster_val \<Rightarrow> fakes \<Rightarrow> fakes \<times> cluster_val option \<times> go_error option" where
  "handle_Update c x = on_fake (fr_Fake (fb_Fake c)) (Fake_Update (fb_ns c) x)"

definition handle_Delete :: "FakeBrokerClusters \<Rightarrow> string \<Rightarrow> DeleteOptions option \<Rightarrow> fakes \<Rightarrow> fakes \<times> go_error option" where
  "handle_Delete c name options = on_fake (fr_Fake (fb_Fake c)) (Fake_Delete (fb_ns c) name options)"

lemmas handle_defs = handle_Get_def handle_Create_def handle_Update_def handle_Delete_def

text \<open>
  A run through the handles of a clientset, each operation through the handle of its namespace
  that \<open>via\<close> makes: \<open>Fake_ROCKETMQ\<close> or \<open>Fake_ROCKETMQV1alpha1\<close>.
\<close>

definition handle_run :: "(string \<Rightarrow> FakeBrokerClusters) \<Rightarrow> store_op list \<Rightarrow> fakes \<Rightarrow> fakes \<times> answer list" where
  "handle_run via =
     client_run (\<lambda>ns. handle_Get (via ns)) (\<lambda>ns. handle_Create (via ns)) (\<lambda>ns. handle_Update (via ns))
       (\<lambda>ns name. handle_Delete (via ns) name None)"

definition opens :: "FakeClientset \<Rightarrow> (string \<Rightarrow> FakeBrokerClusters) \<Rightarrow> bool" where
  "opens cs via \<longleftrightarrow> (\<forall>ns. via ns \<in> {Fake_BrokerClusters (Fake_ROCKETMQ cs) ns,
     Fake_BrokerClusters (Fake_ROCKETMQV1alpha1 cs) ns})"

lemma opens_handle:
  assumes "opens cs via"
  shows "fb_ns (via ns) = ns" "fr_Fake (fb_Fake (via ns)) = fcs_Fake cs"
  using assms [unfolded opens_def, rule_format, of ns]
  by (auto simp: Fake_BrokerClusters_def Fake_ROCKETMQ_def Fake_ROCKETMQV1alpha1_def)

lemma client_step_on_fake:
  "client_step (\<lambda>ns n. on_fake a (get ns n)) (\<lambda>ns x. on_fake a (create ns x)) (\<lambda>ns x. on_fake a (update ns x))
     (\<lambda>ns n. on_fake a (delete ns n)) op h = on_fake a (client_step get create update delete op) h"
  by (cases op) (simp_all add: on_fake_def split: prod.split)

lemma client_run_on_fake:
  "client_run (\<lambda>ns n. on_fake a (get ns n)) (\<lambda>ns x. on_fake a (create ns x)) (\<lambda>ns x. on_fake a (update ns x))
     (\<lambda>ns n. on_fake a (delete ns n)) ops h = on_fake a (client_run get create update delete ops) h"
proof (induction ops arbitrary: h)
  case (Cons op ops)
  then show ?case by (simp add: client_step_on_fake) (simp add: on_fake_def split: prod.split)
qed (simp add: on_fake_def)

text \<open>Running through handles is running on the clientset's fake, whichever accessor made them.\<close>

lemma handle_run_fake:
  assumes "opens cs via"
  shows "handle_run via ops =
    on_fake (fcs_Fake cs) (client_run Fake_Get Fake_Create Fake_Update (\<lambda>ns n. Fake_Delete ns n None) ops)"
proof -
  have "handle_Get (via ns) = (\<lambda>n. on_fake (fcs_Fake cs) (Fake_Get ns n))"
    "handle_Create (via ns) = (\<lambda>x. on_fake (fcs_Fake cs) (Fake_Create ns x))"
    "handle_Update (via ns) = (\<lambda>x. on_fake (fcs_Fake cs) (Fake_Update ns x))"
    "handle_Delete (via ns) n d = on_fake (fcs_Fake cs) (Fake_Delete ns n d)" for ns n d
    by (rule ext | simp add: handle_defs opens_handle [OF assms])+
  then show ?thesis by (intro ext) (simp add: handle_run_def client_run_on_fake)
qed

text \<open>
  Handles share their clientset's store: made with well-formed objects, the clientset answers a
  run through handles of any namespaces and of either accessor as the map of clusters does.
\<close>

lemma handles_share_store:
  assumes new: "new_fake_clientset a objects h = Some (h1, cs)" "\<forall>x \<in> set objects. belongs (om_Namespace (om_of x)) x"
    and run: "opens cs via" "handle_run via ops h1 = (h2, answers)"
    and "\<forall>op \<in> set ops. valid_op belongs (\<lambda>ns name. ns \<noteq> '''' \<and> name \<noteq> '''') op"
  shows "store_run (\<lambda>ns x. (ns, om_Name (om_of x))) in_namespace ops (\<lambda>k. find (\<lambda>x. cluster_id x = k) objects) =
    (fake_map (h2 a), answers)"
proof -
  from new(1) obtain c where c: "NewSimpleClientset objects = Some c" "h1 = h(a := c)" "fcs_Fake cs = a"
    by (auto simp: new_fake_clientset_def split: option.splits)
  have r: "client_run Fake_Get Fake_Create Fake_Update (\<lambda>ns n. Fake_Delete ns n None) ops c = (h2 a, answers)"
    using run(2) by (auto simp: handle_run_fake [OF run(1)] c(2,3) on_fake_def split: prod.splits)
  show ?thesis
    using fake_store.run_refines [OF _ assms(5) r] NewSimpleClientset_map [OF c(1) new(2)] by metis
qed

text \<open>Handles of another clientset neither see nor disturb it.\<close>

lemma handles_independent:
  assumes "opens cs via" "opens cs' via'" "fcs_Fake cs \<noteq> fcs_Fake cs'" "handle_run via ops h = (h', answers)"
  shows "snd (handle_run via' ops' h') = snd (handle_run via' ops' h)"
    and "h' (fcs_Fake cs') = h (fcs_Fake cs')"
  using assms(3,4)
  by (auto simp: handle_run_fake [OF assms(1)] handle_run_fake [OF assms(2)] on_fake_def split: prod.splits)

lemma fake_handles_alike: "Fake_ROCKETMQ cs = Fake_ROCKETMQV1alpha1 cs" "fd_Fake (Fake_Discovery cs) = fcs_Fake cs"
  if "new_fake_clientset a objects h = Some (h', cs)"
  using that
  by (auto simp: new_fake_clientset_def Fake_ROCKETMQ_def Fake_ROCKETMQV1alpha1_def Fake_Discovery_def split: option.splits)

section \<open>The lister of a generic informer\<close>

record 'i genericLister =
  gl_indexer :: 'i
  gl_resource :: GroupResource

record 'i genericNamespaceLister =
  gnl_indexer :: 'i
  gnl_namespace :: string
  gnl_resource :: GroupResource

definition NewGenericLister :: "'i \<Rightarrow> GroupResource \<Rightarrow> 'i genericLister" where
  "NewGenericLister indexer resource = \<lparr>gl_indexer = indexer, gl_resource = resource\<rparr>"

definition genericInformer_Lister :: "(informer \<Rightarrow> 'i) \<Rightarrow> genericInformer \<Rightarrow> 'i genericLister" where
  "genericInformer_Lister GetIndexer f = NewGenericLister (GetIndexer (genericInformer_Informer f)) (gi_resource f)"

definition genericLister_ByNamespace :: "'i genericLister \<Rightarrow> string \<Rightarrow> 'i genericNamespaceLister" where
  "genericLister_ByNamespace s namespace =
     \<lparr>gnl_indexer = gl_indexer s, gnl_namespace = namespace, gnl_resource = gl_resource s\<rparr>"

definition genericLister_Get :: "'o indexer genericLister \<Rightarrow> string \<Rightarrow> go_error + 'o" where
  "genericLister_Get s name =
     (case GetByKey (gl_indexer s) name of
        None \<Rightarrow> Inl (NewNotFound (gl_resource s) name)
      | Some obj \<Rightarrow> Inr obj)"

definition genericNamespaceLister_Get :: "'o indexer genericNamespaceLister \<Rightarrow> string \<Rightarrow> go_error + 'o" where
  "genericNamespaceLister_Get s name =
     (case GetByKey (gnl_indexer s) (gnl_namespace s @ ''/'' @ name) of
        None \<Rightarrow> Inl (NewNotFound (gnl_resource s) name)
      | Some obj \<Rightarrow> Inr obj)"

text \<open>
  Within a namespace the generic lister finds what the typed lister finds; where there is
  nothing both answer NotFound, the messages naming the resource in the plural and in the
  singular.
\<close>

lemma generic_lister_agrees:
  assumes "ForResource resource f = (f', Inr gi)" "GetIndexer (gi_informer gi) = ix"
    and s_def: "s = genericLister_ByNamespace (genericInformer_Lister GetIndexer gi) ns"
  shows "genericNamespaceLister_Get s n = Inr p \<longleftrightarrow> BrokerClusters_Get ix ns n = Inr p"
    and "genericNamespaceLister_Get s n = Inl e \<longleftrightarrow>
      GetByKey ix (ns @ ''/'' @ n) = None \<and>
      e = NewNotFound \<lparr>gr_Group = ''rocketmq.huanwei.io'', gr_Resource = ''brokerclusters''\<rparr> n"
proof -
  have gi: "gi_resource gi = \<lparr>gr_Group = ''rocketmq.huanwei.io'', gr_Resource = ''brokerclusters''\<rparr>"
    using assms(1) by (auto simp: ForResource_def SchemeGroupVersion_def GroupName_def split: if_splits prod.splits)
  show "genericNamespaceLister_Get s n = Inr p \<longleftrightarrow> BrokerClusters_Get ix ns n = Inr p"
    "genericNamespaceLister_Get s n = Inl e \<longleftrightarrow>
      GetByKey ix (ns @ ''/'' @ n) = None \<and>
      e = NewNotFound \<lparr>gr_Group = ''rocketmq.huanwei.io'', gr_Resource = ''brokerclusters''\<rparr> n"
    using assms(2)
    by (auto simp: s_def genericNamespaceLister_Get_def genericLister_ByNamespace_def genericInformer_Lister_def
        NewGenericLister_def genericInformer_Informer_def gi split: option.splits)
qed

text \<open>
  Across namespaces the generic lister takes the name for the key, so that it finds no object
  that has a namespace by its name.
\<close>

lemma generic_Get_is_by_key:
  assumes "\<forall>k x. GetByKey (gl_indexer s) k = Some x \<longrightarrow> (\<exists>ns n. k = ns @ ''/'' @ n)" "no_slash name"
  shows "genericLister_Get s name = Inl (NewNotFound (gl_resource s) name)"
proof -
  have "name \<noteq> ns @ ''/'' @ n" for ns n
    using assms(2) by (auto simp: no_slash_def)
  then have "GetByKey (gl_indexer s) name = None" using assms(1) by (metis not_None_eq)
  then show ?thesis by (simp add: genericLister_Get_def)
qed

end
