(* ===== verification/Spec2Isabelle.thy ===== *)
theory Spec2Isabelle
  imports Initial_Sync Broker_Controller Operator_Options Operator_Run Informer_Factory Status_Delivery
    Client_Handles
begin

text \<open>
  A model of the RocketMQ operator and of the parts of the Kubernetes client libraries its
  behaviour rests on.

  \<^bold>\<open>The program.\<close> The operator watches a custom resource, BrokerCluster, and keeps for each of
  its broker groups a headless service and a stateful set in a Kubernetes API server. \<open>main\<close>
  reads options, makes clients and informers and starts the controller. Informers keep
  local stores up to date and call event handlers, the handlers put keys of clusters into a
  rate-limited work queue, five workers take keys and call \<open>syncHandler\<close>, and \<open>syncHandler\<close>
  compares the local stores with what the cluster's spec asks for, creates and patches
  objects and writes the Ready condition into the cluster's status.

  \<^bold>\<open>Data.\<close>
  \<^item> \<open>Op_Prelude\<close>: the collections of rules, lists, optional references, Go maps and slices.
  \<^item> \<open>Go_Text\<close>, \<open>Go_Path\<close>: integers as text, prefixes and splitting of strings, \<open>path.Clean\<close> and
    \<open>path.Join\<close>.
  \<^item> \<open>K8s_Meta\<close>: object metadata, owner references, queue keys, group-version-resources and the
    error values with \<open>IsNotFound\<close> and \<open>IsConflict\<close>.
  \<^item> \<open>Broker_Types\<close>: the custom resource (\<open>pkg/apis/rocketmq/v1alpha1/types.go\<close>, \<open>register.go\<close>,
    \<open>pkg/constants\<close>). One record type for each Go struct, with a parameter for its reference
    fields: over addresses it is an object in the heap, over values it is what the pointers
    lead to. The heap has a cell for each struct, map, array of conditions and opaque
    sub-object that can be shared, so that aliasing between the informers' cache, copies and
    the status written is explicit.
  \<^item> \<open>Deep_Copy\<close> (\<open>zz_generated.deepcopy.go\<close>): the generated copies give equal objects without a
    shared cell; \<open>reference_copy\<close> is the contract every such function satisfies.
  \<^item> \<open>Defaults\<close> (\<open>helpers.go\<close>): \<open>EnsureDefaults\<close> on the heap implements defaulting of values.
  \<^item> \<open>Conditions\<close> (\<open>pkg/api/cluster/util.go\<close>): lookup and update of conditions through pointers,
    which implement the update of a list when the pointer does not alias the status.
  \<^item> \<open>Resources\<close> (\<open>pkg/resources\<close>): the service and the stateful set of a group; names are unique,
    a service selects the pods of its own group, the set is well formed.

  \<^bold>\<open>Reconciliation\<close> (\<open>pkg/controllers/cluster\<close>, \<open>pkg/controllers/util\<close>).
  \<^item> \<open>Indexer\<close>: stores and the generated listers. \<open>Retry\<close>: \<open>RetryOnConflict\<close> with its five steps.
  \<^item> \<open>Client\<close>: the state of the process (\<open>world\<close>: heap, stores, environment, trace of API calls,
    events, handled errors), the API calls and the patches of \<open>patch.go\<close>.
  \<^item> \<open>Cluster_Updater\<close> (\<open>cluster_control.go\<close>): status and label updates; \<open>update_closure\<close> is the
    contract of the two retried closures.
  \<^item> \<open>Sync_Loops\<close>, \<open>Ready_Condition\<close>, \<open>Controller\<close> (\<open>controller.go\<close>): the loops of \<open>syncHandler\<close>,
    the condition it computes, \<open>updateClusterStatus\<close> and the handler.
  \<^item> \<open>Reconcile\<close>: what a run achieves, which calls it may make and in which order, when it makes
    none, when it fails and when it panics.
  \<^item> \<open>Convergence\<close>: after a successful run whose effects the informers have delivered, the next
    run creates and patches nothing; an event for a cluster leads to a run on it.
  \<^item> \<open>Closed_Loop\<close>: the operator together with an API server of which only the documented
    behaviour is assumed (\<open>serves\<close>). One run provides every group's objects in the server's
    stores, later rounds create and patch nothing, an event for a lost object is put right,
    and a cache that is behind makes a run fail.
  \<^item> \<open>Fleet\<close>: several clusters in one server. A run changes objects of its own cluster only
    (\<open>confined\<close> is what that needs of the server), so every cluster that had its turn keeps what
    it has under any order of turns; and what the Ready condition tells about the pods.
  \<^item> \<open>Initial_Sync\<close>: from the first list of clusters through the queue and the workers to the
    objects of all of them, although no informer delivers anything in the meantime; with one
    worker, and with any number of them in any order of their steps (\<open>work\<close>).

  \<^bold>\<open>Scheduling.\<close>
  \<^item> \<open>Work_Queue\<close>: the queue of client-go with its dirty and processing sets, delayed items and
    exponential backoff; \<open>work_queue\<close> is the contract the workers use.
  \<^item> \<open>Controller_Queue\<close>: event handlers and workers as steps of a transition system; two workers
    never have the same key, a dirty key is not lost, a failed key is not added again.
  \<^item> \<open>Broker_Controller\<close>: \<open>NewBrokerController\<close>, which handler each informer calls, and that the
    handlers only make steps of that system. \<open>Scheme_Registration\<close> (\<open>register.go\<close>): registering the
    custom resource with the API machinery's scheme is consistent and idempotent.
  \<^item> \<open>Operator_Options\<close>: options, flags, resync period. \<open>Start_Up\<close>: how \<open>app.Run\<close> and
    \<open>NewBrokerController\<close> put clients, informer factories, informers, listers, controls and the
    controller together; the informers that run are those the controller waits for.
  \<^item> \<open>Operator_Run\<close> (\<open>cmd/rocketmq-operator\<close>, \<open>pkg/util/signals\<close>): the life of the process from
    \<open>main\<close> to its exit code as a transition system; it gets to work and it ends gracefully.

  \<^bold>\<open>Generated clients\<close> (\<open>pkg/generated\<close>).
  \<^item> \<open>Rest_Request\<close>: the request builder of client-go. \<open>Clientset\<close>: the typed client's eight verbs
    and the constructors; which request each verb sends, which names it refuses, and that
    addresses are unique.
  \<^item> \<open>Informer_Factory\<close>: the shared informer factory; informers are shared, run once, and list
    and watch the factory's namespace.
  \<^item> \<open>Object_Tracker\<close>, \<open>Fake_Clientset\<close>: the in-memory API server for tests; \<open>cluster_store\<close> is
    the contract of a client, which the fake satisfies with a map as its abstraction.
  \<^item> \<open>Client_Handles\<close>: the fake's accessors as pointers to one store, which handles of either
    accessor share; the generic informer's lister, which agrees with the typed one.
  \<^item> \<open>Status_Delivery\<close>: the controller's status update on the wire, and into the fake's store.

  \<^bold>\<open>Conventions.\<close> Errors are values: an operation returns \<open>error + result\<close>, an optional error, or
  an outcome with a case for a panic, an early return or a blocked call. \<open>int32\<close> is
  \<open>32 word\<close> and compared signed; times and durations are integers in nanoseconds, with the
  64-bit bounds stated where they matter. Log lines and metrics are left out. Locks make
  an operation atomic, so an operation is a function on its state; where goroutines
  interleave, the model is a step relation. In it a worker takes a key in one step and
  reconciles it in another, so steps of other workers come between the two, but not into
  one run of \<open>syncHandler\<close>.

  \<^bold>\<open>Bounds.\<close> The loops of \<open>syncHandler\<close> recurse over the number of groups; \<open>RetryOnConflict\<close> over
  its five steps. Go's workers loop without end: \<open>runWorker\<close> takes a number of calls, and
  one call more than the queue has keys is shown to be enough to drain it.

  \<^bold>\<open>Parameters.\<close> Answers of the API server, the clock, JSON and the strategic merge patch
  (\<open>client\<close>), what other goroutines do while a retry sleeps (\<open>cl_Sleep\<close>), the file system, YAML
  and flag parsing (\<open>host\<close>), the token bucket's delay, encodings of the typed client
  (\<open>codec\<close>), the HTTP exchange (\<open>transport\<close>), construction of REST clients (\<open>rest_env\<close>), the
  client configuration and the order in which \<open>range\<close> visits a map (\<open>start_env\<close>) and the
  parsers of selectors. Properties that need a documented behaviour of one of these name
  it as a hypothesis (\<open>quiet_sleep\<close>, \<open>no_wait_timeout\<close>, \<open>delivered\<close>, \<open>serves\<close>, \<open>confined\<close>,
  \<open>no_deliveries\<close>, \<open>standard_client\<close>, \<open>visits_all\<close>).

  \<^bold>\<open>Not modelled.\<close> The construction of the event recorder only calls libraries. Affinity, volume claim templates
  and volume sources are opaque, since the operator copies them only. The informers' own
  machinery (reflector, delta queue) appears as events and as what it delivers. Mocks and
  tests are not part of the program.
\<close>

end
